(* ===== verification/Otpd_Prelude.thy ===== *)
theory Otpd_Prelude
  imports Main "HOL-Library.Word"
begin

text \<open>
  Shared vocabulary of the otpd development: the machine types the C code uses, the three-way
  result of a C call, the functions of the C library the code relies on (string comparison,
  \<open>strchr\<close>, \<open>memcpy\<close>, the \<open>printf\<close> and \<open>scanf\<close> conversions), and the generic
  lemmas about them that the component theories share.

  Conventions. A NUL-terminated C string is a \<open>string\<close> that holds the characters before the
  terminator. An \<open>unsigned char\<close> array is a \<open>byte list\<close>. A \<open>uint32_t\<close> is a \<open>u32\<close>, a
  \<open>uint64_t\<close> a \<open>u64\<close>; a C \<open>int\<close>, \<open>time_t\<close> or \<open>hrtime_t\<close> whose wrap-around plays no role
  is an \<open>int\<close>.
\<close>

unbundle bit_operations_syntax

type_synonym byte = "8 word"
type_synonym u32 = "32 word"
type_synonym u64 = "64 word"

named_theorems cstring_simps \<open>equations of the C string functions\<close>
named_theorems len_simps \<open>lengths of the byte and character sequences the code builds\<close>

section \<open>Results of C calls\<close>

text \<open>
  \<open>COk x\<close>: the call returned normally with result \<open>x\<close>. \<open>CErr n\<close>: it returned the error
  code \<open>n\<close>. \<open>CFault\<close>: it dereferenced a null pointer or accessed an array out of its bounds,
  so the C program has no defined behaviour from there on.
\<close>

datatype 'a cres = COk 'a | CErr int | CFault

fun cbind :: "'a cres \<Rightarrow> ('a \<Rightarrow> 'b cres) \<Rightarrow> 'b cres" where
  "cbind (COk x) f = f x"
| "cbind (CErr n) f = CErr n"
| "cbind CFault f = CFault"

lemma cbind_eq_COk_iff [simp]:
  "cbind m f = COk y \<longleftrightarrow> (\<exists>x. m = COk x \<and> f x = COk y)"
  by (cases m) auto

lemma cbind_eq_CFault_iff [simp]:
  "cbind m f = CFault \<longleftrightarrow> m = CFault \<or> (\<exists>x. m = COk x \<and> f x = CFault)"
  by (cases m) auto

section \<open>Bytes and characters\<close>

definition byte_of :: "char \<Rightarrow> byte" where
  "byte_of c = word_of_nat (of_char c)"

definition chr_of :: "byte \<Rightarrow> char" where
  "chr_of b = char_of (unat b)"

definition bytes_of :: "string \<Rightarrow> byte list" where
  "bytes_of s = map byte_of s"

definition chars_of :: "byte list \<Rightarrow> string" where
  "chars_of bs = map chr_of bs"

lemma unat_byte_of [simp]: "unat (byte_of c) = of_char c"
  by (simp add: byte_of_def unat_of_nat)

lemma chr_of_byte_of [simp]: "chr_of (byte_of c) = c"
  by (simp add: chr_of_def)

lemma unat_byte_lt: "unat (b :: byte) < 256"
  using unsigned_less [of b] by simp

lemma byte_of_chr_of [simp]: "byte_of (chr_of b) = b"
  by (simp add: byte_of_def chr_of_def unat_byte_lt)

lemma byte_of_inject [simp]: "byte_of c = byte_of d \<longleftrightarrow> c = d"
  by (metis chr_of_byte_of)

lemma bytes_of_simps [simp]:
  "bytes_of [] = []" "bytes_of (c # s) = byte_of c # bytes_of s"
  "bytes_of (s @ t) = bytes_of s @ bytes_of t"
  by (simp_all add: bytes_of_def)

lemma length_bytes_of [simp, len_simps]: "length (bytes_of s) = length s"
  by (simp add: bytes_of_def)

lemma length_chars_of [simp, len_simps]: "length (chars_of s) = length s"
  by (simp add: chars_of_def)

lemma chars_of_bytes_of [simp]: "chars_of (bytes_of s) = s"
  by (simp add: chars_of_def bytes_of_def comp_def)

lemma bytes_of_chars_of [simp]: "bytes_of (chars_of b) = b"
  by (simp add: chars_of_def bytes_of_def comp_def)

lemma bytes_of_inject [simp]: "bytes_of s = bytes_of t \<longleftrightarrow> s = t"
  by (metis chars_of_bytes_of)

section \<open>C strings\<close>

abbreviation NUL :: char where
  "NUL \<equiv> CHR 0x00"

text \<open>The string a NUL-terminated buffer holds.\<close>

definition cstr :: "string \<Rightarrow> string" where
  "cstr buf = takeWhile (\<lambda>c. c \<noteq> NUL) buf"

definition no_nul :: "string \<Rightarrow> bool" where
  "no_nul s \<longleftrightarrow> NUL \<notin> set s"

lemma cstr_no_nul [simp]: "no_nul s \<Longrightarrow> cstr s = s"
  by (simp add: cstr_def no_nul_def takeWhile_eq_all_conv) metis

lemma no_nul_cstr [simp]: "no_nul (cstr s)"
  by (auto simp: cstr_def no_nul_def dest: set_takeWhileD)

lemma cstr_append_NUL [simp]: "no_nul s \<Longrightarrow> cstr (s @ NUL # t) = s"
  by (induction s) (auto simp: cstr_def no_nul_def)

lemma no_nul_simps [simp]:
  "no_nul []" "no_nul (c # s) \<longleftrightarrow> c \<noteq> NUL \<and> no_nul s" "no_nul (s @ t) \<longleftrightarrow> no_nul s \<and> no_nul t"
  by (auto simp: no_nul_def)

lemma length_cstr_le: "length (cstr s) \<le> length s"
  by (simp add: cstr_def length_takeWhile_le)

text \<open>\<open>strncmp (a, b, n) == 0\<close>; both arguments are the contents of C strings.\<close>

definition strneq :: "string \<Rightarrow> string \<Rightarrow> nat \<Rightarrow> bool" where
  "strneq a b n \<longleftrightarrow> take n a = take n b"

definition to_lower :: "char \<Rightarrow> char" where
  "to_lower c = (let n = (of_char c :: nat) in if 65 \<le> n \<and> n \<le> 90 then char_of (n + 32) else c)"

text \<open>\<open>strcasecmp (a, b) == 0\<close> and \<open>strncasecmp (a, b, n) == 0\<close>.\<close>

definition strcaseeq :: "string \<Rightarrow> string \<Rightarrow> bool" where
  "strcaseeq a b \<longleftrightarrow> map to_lower a = map to_lower b"

definition strncaseeq :: "string \<Rightarrow> string \<Rightarrow> nat \<Rightarrow> bool" where
  "strncaseeq a b n \<longleftrightarrow> map to_lower (take n a) = map to_lower (take n b)"

lemma strneq_append [cstring_simps]: "strneq (a @ b) a (length a)"
  by (simp add: strneq_def)

text \<open>
  \<open>q = strchr (p, c)\<close> followed by \<open>*q++ = '\0'\<close>: the characters before the first \<open>c\<close> and
  the ones after it, or \<open>None\<close> where \<open>strchr\<close> returns NULL.
\<close>

fun strsep :: "char \<Rightarrow> string \<Rightarrow> (string \<times> string) option" where
  "strsep c [] = None"
| "strsep c (x # xs) =
     (if x = c then Some ([], xs) else map_option (\<lambda>(p, q). (x # p, q)) (strsep c xs))"

lemma strsep_append [cstring_simps]:
  "c \<notin> set a \<Longrightarrow> strsep c (a @ c # b) = Some (a, b)"
  by (induction a) auto

lemma strsep_SomeD:
  "strsep c s = Some (p, q) \<Longrightarrow> s = p @ c # q \<and> c \<notin> set p"
  by (induction s arbitrary: p q) (auto split: if_splits)

lemma strsep_None_iff: "strsep c s = None \<longleftrightarrow> c \<notin> set s"
  by (induction s) auto

section \<open>Memory copies\<close>

text \<open>\<open>memcpy (dst, src, n)\<close> on arrays at least \<open>n\<close> long.\<close>

definition memcpy :: "'a list \<Rightarrow> 'a list \<Rightarrow> nat \<Rightarrow> 'a list" where
  "memcpy dst src n = take n src @ drop n dst"

lemma length_memcpy [simp, len_simps]:
  "n \<le> length src \<Longrightarrow> n \<le> length dst \<Longrightarrow> length (memcpy dst src n) = length dst"
  by (simp add: memcpy_def)

lemma take_memcpy [simp]: "n \<le> length src \<Longrightarrow> take n (memcpy dst src n) = take n src"
  by (simp add: memcpy_def)

lemma memcpy_0 [simp]: "memcpy dst src 0 = dst"
  by (simp add: memcpy_def)

end
