(* ===== verification/Otpd_Hex.thy ===== *)
theory Otpd_Hex
  imports Otpd_Prelude
begin

text \<open>
  The hexadecimal conversions of \<^verbatim>\<open>src/xfunc.c\<close>: \<open>a2nx\<close> and \<open>a2x\<close> (ASCII to octets), \<open>x2a\<close>
  (octets to ASCII through a 16-character table) and its four tables.
\<close>

section \<open>Definitions\<close>

text \<open>The range check of \<open>a2nx\<close>.\<close>

definition is_hex :: "char \<Rightarrow> bool" where
  "is_hex c \<longleftrightarrow> (let n = (of_char c :: nat) in
     (48 \<le> n \<and> n \<le> 57) \<or> (65 \<le> n \<and> n \<le> 70) \<or> (97 \<le> n \<and> n \<le> 102))"

text \<open>
  One nibble: \<open>n -= '0'\<close>, then, above 9, \<open>n -= 'a' - '9' - 1\<close> or \<open>n -= 'A' - '9' - 1\<close>
  depending on whether \<open>n > 'F' - '0'\<close>.
\<close>

definition nibble :: "char \<Rightarrow> nat" where
  "nibble c = (let n = of_char c - 48 in
     if 9 < n then (if 22 < n then n - (97 - 57 - 1) else n - (65 - 57 - 1)) else n)"

text \<open>
  \<open>a2nx (s, x, l)\<close>: the octets written to \<open>x\<close>, or \<open>None\<close> for the return value -1. Where \<open>s\<close>
  ends before \<open>2 * l\<close> characters the loop reads the terminator, which is not a digit.
\<close>

fun a2nx :: "string \<Rightarrow> nat \<Rightarrow> byte list option" where
  "a2nx s 0 = Some []"
| "a2nx (c0 # c1 # s) (Suc l) =
     (if is_hex c0 \<and> is_hex c1
      then map_option ((#) (push_bit 4 (word_of_nat (nibble c0)) + word_of_nat (nibble c1))) (a2nx s l)
      else None)"
| "a2nx s (Suc l) = None"

definition a2x :: "string \<Rightarrow> byte list option" where
  "a2x s = a2nx s (length s div 2)"

definition x2a_hex_conversion :: string where
  "x2a_hex_conversion = ''0123456789abcdef''"

definition x2a_cc_dec_conversion :: string where
  "x2a_cc_dec_conversion = ''0123456789012345''"

definition x2a_snk_dec_conversion :: string where
  "x2a_snk_dec_conversion = ''0123456789222333''"

definition x2a_sc_friendly_conversion :: string where
  "x2a_sc_friendly_conversion = ''0123456789ahcpef''"

text \<open>\<open>x2a (x, len, s, conversion)\<close>: the string written to \<open>s\<close>.\<close>

definition x2a :: "byte list \<Rightarrow> nat \<Rightarrow> string \<Rightarrow> string" where
  "x2a x len conversion =
     concat (map (\<lambda>b. [conversion ! unat (drop_bit 4 b AND 0x0f), conversion ! unat (b AND 0x0f)])
               (take len x))"

section \<open>Lemmas\<close>

lemma byte_and_15: "unat ((b :: byte) AND 0x0f) = unat b mod 16"
proof -
  have "b AND 0x0f = take_bit 4 b"
    by (simp add: take_bit_eq_mask mask_eq_decr_exp)
  then show ?thesis
    by (simp add: unsigned_take_bit_eq take_bit_nat_def)
qed

lemma byte_high_nibble: "unat (drop_bit 4 (b :: byte) AND 0x0f) = unat b div 16"
proof -
  have "unat (drop_bit 4 b) = unat b div 16"
    using unat_byte_lt [of b] by (simp add: unsigned_drop_bit_eq drop_bit_nat_def take_bit_nat_def)
  then show ?thesis
    using unat_byte_lt [of b] by (simp add: byte_and_15)
qed

lemma hex_digit_table:
  assumes "n < 16"
  shows "is_hex (x2a_hex_conversion ! n)" and "nibble (x2a_hex_conversion ! n) = n"
proof -
  have "\<forall>n \<in> set [0..<16]. is_hex (x2a_hex_conversion ! n) \<and> nibble (x2a_hex_conversion ! n) = n"
    by code_simp
  with assms show "is_hex (x2a_hex_conversion ! n)" "nibble (x2a_hex_conversion ! n) = n"
    by auto
qed

lemma hex_char_table:
  "is_hex c \<Longrightarrow> nibble c < 16 \<and> x2a_hex_conversion ! nibble c = to_lower c"
proof -
  assume "is_hex c"
  then have range: "(48 \<le> n \<and> n \<le> 57) \<or> (65 \<le> n \<and> n \<le> 70) \<or> (97 \<le> n \<and> n \<le> 102)" if "n = (of_char c :: nat)" for n
    using that by (simp add: is_hex_def Let_def)
  have "of_char c \<in> set (map of_char ''0123456789ABCDEFabcdef'' :: nat list)"
    using range [OF refl] by simp presburger
  then have "c \<in> set ''0123456789ABCDEFabcdef''" unfolding set_map by (auto simp only: of_char_eq_iff)
  moreover have "\<forall>c \<in> set ''0123456789ABCDEFabcdef''.
      nibble c < 16 \<and> x2a_hex_conversion ! nibble c = to_lower c"
    by code_simp
  ultimately show "nibble c < 16 \<and> x2a_hex_conversion ! nibble c = to_lower c" by blast
qed

lemma unat_join_nibbles:
  assumes "m < 16" "n < 16"
  shows "unat (push_bit 4 (word_of_nat m) + word_of_nat n :: byte) = 16 * m + n"
proof -
  have "push_bit 4 (word_of_nat m) + word_of_nat n = (word_of_nat (16 * m + n) :: byte)"
    by (simp add: push_bit_eq_mult mult.commute)
  moreover have "unat (word_of_nat (16 * m + n) :: byte) = 16 * m + n"
    using assms by (simp only: unat_of_nat) simp
  ultimately show ?thesis by simp
qed

lemma join_nibbles:
  "push_bit 4 (word_of_nat (unat b div 16)) + word_of_nat (unat b mod 16) = (b :: byte)"
proof -
  have "unat b div 16 < 16" using unat_byte_lt [of b] by simp
  then have "unat (push_bit 4 (word_of_nat (unat b div 16)) + word_of_nat (unat b mod 16) :: byte) = unat b"
    by (simp add: unat_join_nibbles)
  then show ?thesis by (simp only: word_unat_eq_iff)
qed

lemma x2a_Nil [simp]: "x2a [] n conv = []"
  by (simp add: x2a_def)

lemma x2a_Cons_Suc [simp]:
  "x2a (b # bs) (Suc n) conv = conv ! (unat b div 16) # conv ! (unat b mod 16) # x2a bs n conv"
  by (simp only: x2a_def byte_high_nibble) (simp add: byte_and_15)

lemma x2a_0 [simp]: "x2a bs 0 conv = []"
  by (simp add: x2a_def)

lemma length_x2a [len_simps]: "length (x2a bs n conv) = 2 * min n (length bs)"
proof (induction bs arbitrary: n)
  case (Cons b bs)
  then show ?case by (cases n) simp_all
qed simp

lemma a2nx_x2a: "n \<le> length bs \<Longrightarrow> a2nx (x2a bs n x2a_hex_conversion) n = Some (take n bs)"
proof (induction bs arbitrary: n)
  case (Cons b bs)
  have "unat b div 16 < 16" using unat_byte_lt [of b] by simp
  with Cons show ?case
    by (cases n) (simp_all add: hex_digit_table join_nibbles)
qed simp

lemma length_a2nx: "a2nx s l = Some bs \<Longrightarrow> length bs = l"
  by (induction s l arbitrary: bs rule: a2nx.induct) (auto split: if_splits)

lemma a2nx_None_iff:
  "a2nx s l = None \<longleftrightarrow> length s < 2 * l \<or> (\<exists>c \<in> set (take (2 * l) s). \<not> is_hex c)"
  by (induction s l rule: a2nx.induct) auto

lemma x2a_a2nx:
  "a2nx s l = Some bs \<Longrightarrow> x2a bs l x2a_hex_conversion = map to_lower (take (2 * l) s)"
proof (induction s l arbitrary: bs rule: a2nx.induct)
  case (2 c0 c1 s l)
  from "2.prems" obtain bs' where hex: "is_hex c0" "is_hex c1" and bs': "a2nx s l = Some bs'"
    and bs: "bs = (push_bit 4 (word_of_nat (nibble c0)) + word_of_nat (nibble c1)) # bs'"
    by (auto split: if_splits)
  note tbl = hex_char_table [OF hex(1)] hex_char_table [OF hex(2)]
  have "x2a bs (Suc l) x2a_hex_conversion =
      x2a_hex_conversion ! nibble c0 # x2a_hex_conversion ! nibble c1 # x2a bs' l x2a_hex_conversion"
    using tbl by (simp add: bs unat_join_nibbles)
  with tbl "2.IH" [OF _ bs'] hex show ?case by simp
qed simp_all

lemma x2a_set:
  assumes "c \<in> set (x2a bs n conv)" and "length conv = 16"
  shows "c \<in> set conv"
proof -
  from assms(1) obtain b :: byte where
    "c = conv ! (unat b div 16) \<or> c = conv ! (unat b mod 16)"
    by (auto simp only: x2a_def byte_and_15 byte_high_nibble set_concat set_map) auto
  moreover have "unat b div 16 < 16" using unat_byte_lt [of b] by simp
  ultimately show ?thesis
    using assms(2) by (auto intro: nth_mem)
qed

section \<open>Properties\<close>

text \<open>
  Writing octets with \<open>x2a\<close> through the hexadecimal table and reading the string back with
  \<open>a2x\<close> gives the octets again; the string is exactly twice as long.
\<close>

theorem a2x_x2a_roundtrip:
  assumes "n \<le> length bs"
  shows "a2x (x2a bs n x2a_hex_conversion) = Some (take n bs)
    \<and> length (x2a bs n x2a_hex_conversion) = 2 * n"
  using assms by (simp add: a2x_def length_x2a a2nx_x2a)

theorem a2x_x2a_roundtrip_witness:
  "a2x (x2a [0xde, 0xad] 2 x2a_hex_conversion) = Some [0xde, 0xad]"
  using a2x_x2a_roundtrip [of 2 "[0xde, 0xad]"] by simp

text \<open>
  \<open>a2nx\<close> succeeds exactly when the string holds at least \<open>2 * l\<close> characters and the first
  \<open>2 * l\<close> of them are hexadecimal digits; it then yields \<open>l\<close> octets whose hexadecimal
  spelling is the lower-case form of what was read.
\<close>

theorem a2nx_spec:
  "(\<forall>bs. a2nx s l = Some bs \<longrightarrow>
      length bs = l \<and> x2a bs l x2a_hex_conversion = map to_lower (take (2 * l) s))
   \<and> (a2nx s l = None \<longleftrightarrow> length s < 2 * l \<or> (\<exists>c \<in> set (take (2 * l) s). \<not> is_hex c))"
  by (auto simp: a2nx_None_iff length_a2nx x2a_a2nx)

theorem a2nx_spec_witness:
  "a2nx ''DEad'' 2 = Some [0xde, 0xad] \<and> x2a [0xde, 0xad] 2 x2a_hex_conversion = ''dead''"
proof -
  have "a2nx ''DEad'' 2 = Some [0xde, 0xad]" by code_simp
  moreover have "map to_lower (take (2 * 2) ''DEad'') = ''dead''" by code_simp
  ultimately show ?thesis using a2nx_spec [of "''DEad''" 2] by simp
qed

end
