(* ===== verification/Otpd_Format.thy ===== *)
theory Otpd_Format
  imports Otpd_Hex
begin

text \<open>
  The conversions of the C library's \<open>sprintf\<close> and \<open>sscanf\<close> that the code uses: \<open>%0<w>lu\<close>
  (decimal, zero padded), \<open>%x\<close> for writing and \<open>%x\<close> for reading a 32-bit number; and \<open>strtoull\<close>.
\<close>

section \<open>Definitions\<close>

definition digit_char :: "nat \<Rightarrow> char" where
  "digit_char n = ''0123456789abcdef'' ! n"

fun radix_string :: "nat \<Rightarrow> nat \<Rightarrow> string" where
  "radix_string b n =
     (if n < b \<or> b < 2 then [digit_char n]
      else radix_string b (n div b) @ [digit_char (n mod b)])"

declare radix_string.simps [simp del]

definition fmt_lu :: "nat \<Rightarrow> nat \<Rightarrow> string" where
  "fmt_lu w n = (let s = radix_string 10 n in replicate (w - length s) (CHR ''0'') @ s)"

definition fmt_x32 :: "u32 \<Rightarrow> string" where
  "fmt_x32 w = radix_string 16 (unat w)"

definition is_space :: "char \<Rightarrow> bool" where
  "is_space c \<longleftrightarrow> (let n = (of_char c :: nat) in n = 32 \<or> (9 \<le> n \<and> n \<le> 13))"

definition digits_val :: "nat \<Rightarrow> string \<Rightarrow> nat" where
  "digits_val b ds = foldl (\<lambda>a c. b * a + nibble c) 0 ds"

text \<open>
  Reading with \<open>%x\<close>: white space is skipped, then an optional sign, an optional \<open>0x\<close> and at
  least one hexadecimal digit. The digits are read as \<open>strtoul\<close> reads them (64 bits, that is sixteen
  significant digits, saturating) and stored in 32 bits.
\<close>

definition sscanf_x32 :: "string \<Rightarrow> u32 option" where
  "sscanf_x32 s =
     (let s = dropWhile is_space s;
          neg = (take 1 s = ''-'');
          s = (if take 1 s = ''-'' \<or> take 1 s = ''+'' then drop 1 s else s);
          s = (if take 2 s = ''0x'' \<or> take 2 s = ''0X'' then drop 2 s else s);
          ds = takeWhile is_hex s;
          v = digits_val 16 ds
      in if ds = [] then None
         else if 16 < length (dropWhile (\<lambda>c. c = CHR ''0'') ds) then Some (word_of_int (2 ^ 64 - 1))
         else Some (if neg then - word_of_nat v else word_of_nat v))"

text \<open>\<open>strtoull (s, NULL, base)\<close> for the bases 10 and 16; \<open>strtoul\<close> is the same on 64 bits.\<close>

definition is_dec :: "char \<Rightarrow> bool" where
  "is_dec c \<longleftrightarrow> 48 \<le> (of_char c :: nat) \<and> (of_char c :: nat) \<le> 57"

definition strtoull :: "nat \<Rightarrow> string \<Rightarrow> u64" where
  "strtoull base s =
     (let s = dropWhile is_space s;
          neg = (take 1 s = ''-'');
          s = (if take 1 s = ''-'' \<or> take 1 s = ''+'' then drop 1 s else s);
          s = (if base = 16 \<and> (take 2 s = ''0x'' \<or> take 2 s = ''0X'') then drop 2 s else s);
          v = digits_val base (takeWhile (if base = 16 then is_hex else is_dec) s)
      in if 2 ^ 64 \<le> v then - 1 else if neg then - word_of_nat v else word_of_nat v)"

section \<open>Lemmas\<close>

lemma digit_char_hex:
  assumes "n < 16"
  shows "is_hex (digit_char n)" "nibble (digit_char n) = n" "digit_char n \<noteq> CHR '':''"
    "digit_char n \<noteq> NUL" "\<not> is_space (digit_char n)" "digit_char n \<noteq> CHR ''-''"
    "digit_char n \<noteq> CHR ''+''" "digit_char n \<noteq> CHR ''x''" "digit_char n \<noteq> CHR ''X''"
proof -
  have "\<forall>n \<in> set [0..<16]. is_hex (digit_char n) \<and> nibble (digit_char n) = n \<and> digit_char n \<noteq> CHR '':''
     \<and> digit_char n \<noteq> NUL \<and> \<not> is_space (digit_char n) \<and> digit_char n \<noteq> CHR ''-''
     \<and> digit_char n \<noteq> CHR ''+'' \<and> digit_char n \<noteq> CHR ''x'' \<and> digit_char n \<noteq> CHR ''X''"
    by code_simp
  with assms show "is_hex (digit_char n)" "nibble (digit_char n) = n" "digit_char n \<noteq> CHR '':''"
    "digit_char n \<noteq> NUL" "\<not> is_space (digit_char n)" "digit_char n \<noteq> CHR ''-''"
    "digit_char n \<noteq> CHR ''+''" "digit_char n \<noteq> CHR ''x''" "digit_char n \<noteq> CHR ''X''"
    by auto
qed

lemma radix_string_nonempty [simp]: "radix_string b n \<noteq> []"
  by (subst radix_string.simps) simp

lemma set_radix_string: "2 \<le> b \<Longrightarrow> set (radix_string b n) \<subseteq> digit_char ` {..<b}"
proof (induction b n rule: radix_string.induct)
  case (1 b n)
  show ?case
  proof (cases "n < b")
    case True
    with 1 show ?thesis by (simp add: radix_string.simps [of b n])
  next
    case False
    moreover from 1 have "n mod b \<in> {..<b}" by simp
    ultimately show ?thesis using 1 by (simp add: radix_string.simps [of b n])
  qed
qed

lemma digits_val_snoc [simp]: "digits_val b (ds @ [d]) = b * digits_val b ds + nibble d"
  by (simp add: digits_val_def)

lemma digits_val_radix_string:
  "2 \<le> b \<Longrightarrow> b \<le> 16 \<Longrightarrow> digits_val b (radix_string b n) = n"
proof (induction b n rule: radix_string.induct)
  case (1 b n)
  show ?case
  proof (cases "n < b")
    case True
    with 1 show ?thesis by (simp add: radix_string.simps [of b n] digits_val_def digit_char_hex)
  next
    case False
    moreover from 1 have "n mod b < b" by simp
    with 1 have "n mod b < 16" by linarith
    ultimately show ?thesis using 1 by (simp add: radix_string.simps [of b n] digit_char_hex)
  qed
qed

lemma length_radix_string:
  "2 \<le> b \<Longrightarrow> n < b ^ Suc k \<Longrightarrow> length (radix_string b n) \<le> Suc k"
proof (induction b n arbitrary: k rule: radix_string.induct)
  case (1 b n)
  show ?case
  proof (cases "n < b")
    case False
    with 1 obtain k' where k: "k = Suc k'" by (cases k) auto
    with 1 have "n div b < b ^ Suc k'" by (simp add: div_less_iff_less_mult mult.commute)
    with 1 False k have "length (radix_string b (n div b)) \<le> Suc k'" by simp
    with False 1 k show ?thesis by (simp add: radix_string.simps [of b n])
  qed (use 1 in \<open>simp add: radix_string.simps [of b n]\<close>)
qed

lemma digits_val_replicate_0 [simp]: "digits_val b (replicate k (CHR ''0'') @ s) = digits_val b s"
proof -
  have "foldl (\<lambda>a c. b * a + nibble c) 0 (replicate k (CHR ''0'')) = 0"
    by (induction k) (simp_all add: nibble_def)
  then show ?thesis by (simp add: digits_val_def)
qed

lemma length_fmt_lu [len_simps]: "n < 10 ^ w \<Longrightarrow> 0 < w \<Longrightarrow> length (fmt_lu w n) = w"
  using length_radix_string [of 10 n "w - 1"] by (simp add: fmt_lu_def Let_def)

lemma digits_val_fmt_lu: "digits_val 10 (fmt_lu w n) = n"
  by (simp add: fmt_lu_def Let_def digits_val_radix_string)

lemma set_fmt_lu: "set (fmt_lu w n) \<subseteq> digit_char ` {..<10}"
proof -
  have "CHR ''0'' = digit_char 0" by (simp add: digit_char_def)
  then have "CHR ''0'' \<in> digit_char ` {..<10}" by simp
  with set_radix_string [of 10 n] show ?thesis by (auto simp: fmt_lu_def Let_def)
qed

text \<open>What is written with \<open>%x\<close> is read back by \<open>%x\<close>.\<close>

lemma fmt_x32_chars: "c \<in> set (fmt_x32 w) \<Longrightarrow> \<exists>k < 16. c = digit_char k"
  using set_radix_string [of 16 "unat w"] by (auto simp: fmt_x32_def)

lemma length_fmt_x32: "length (fmt_x32 w) \<le> 8"
proof -
  have "unat w < 16 ^ Suc 7" using unsigned_less [of w, where 'a = nat] by simp
  from length_radix_string [OF _ this] show ?thesis by (simp add: fmt_x32_def)
qed

lemma fmt_x32_no_colon: "CHR '':'' \<notin> set (fmt_x32 w)"
  by (auto dest!: fmt_x32_chars) (metis digit_char_hex(3))

lemma fmt_x32_no_nul: "no_nul (fmt_x32 w)"
  unfolding no_nul_def by (auto dest!: fmt_x32_chars) (metis digit_char_hex(4))

lemma take2_not_prefix: "b \<notin> set s \<Longrightarrow> take 2 s \<noteq> [a, b]"
  by (metis in_set_takeD list.set_intros)

lemma sscanf_digits:
  assumes "ds \<noteq> []" and hex: "\<And>c. c \<in> set ds \<Longrightarrow> \<exists>k < 16. c = digit_char k"
    and "length ds \<le> 16"
  shows "sscanf_x32 ds = Some (word_of_nat (digits_val 16 ds))"
proof -
  have all: "P c" if "c \<in> set ds" "\<And>k. k < 16 \<Longrightarrow> P (digit_char k)" for P c
    using that hex by blast
  obtain d ds' where d: "ds = d # ds'" using assms(1) by (cases ds) auto
  have "\<not> is_space d" "d \<noteq> CHR ''-''" "d \<noteq> CHR ''+''"
    by (rule all; simp add: d digit_char_hex)+
  then have "dropWhile is_space ds = ds" "take 1 ds \<noteq> ''-''" "take 1 ds \<noteq> ''+''"
    by (simp_all add: d)
  moreover have "take 2 ds \<noteq> ''0x''"
    by (rule take2_not_prefix) (metis hex digit_char_hex(8))
  moreover have "take 2 ds \<noteq> ''0X''"
    by (rule take2_not_prefix) (metis hex digit_char_hex(9))
  moreover have tw: "takeWhile is_hex ds = ds"
    unfolding takeWhile_eq_all_conv using all digit_char_hex(1) by blast
  moreover have "\<not> 16 < length (dropWhile (\<lambda>c. c = CHR ''0'') ds)"
    using assms(3) length_dropWhile_le [of "\<lambda>c. c = CHR ''0''" ds] by simp
  ultimately show ?thesis
    using assms(1) by (simp add: sscanf_x32_def Let_def tw)
qed

lemma sscanf_fmt_x32 [simp]: "sscanf_x32 (fmt_x32 w) = Some w"
proof -
  have v: "digits_val 16 (fmt_x32 w) = unat w"
    by (simp add: fmt_x32_def digits_val_radix_string)
  have "length (fmt_x32 w) \<le> 16" using length_fmt_x32 [of w] by simp
  with v fmt_x32_chars show ?thesis
    by (subst sscanf_digits) (auto simp: fmt_x32_def)
qed

lemma fmt_x32_nonempty [simp]: "fmt_x32 w \<noteq> []"
  by (simp add: fmt_x32_def)

end
