(* ===== verification/Otpd_Types.thy ===== *)
theory Otpd_Types
  imports Otpd_Format
begin

text \<open>
  The data structures of \<^verbatim>\<open>src/otp.h\<close>, \<^verbatim>\<open>src/cardops.h\<close> and \<^verbatim>\<open>src/extern.h\<close>: the plugin
  request and reply, the user and state records, the configuration, the card feature mask and the
  table of card operations. The cryptographic library is a parameter of the model (\<open>crypto\<close>).

  A C union is a record with the fields of all its members: the contents of a member that the
  tag does not select are whatever the bytes of the union read as, so theorems that quantify over
  a request cover every such reading.
\<close>

section \<open>otp.h\<close>

definition OTP_MAX_CHALLENGE_LEN :: nat where "OTP_MAX_CHALLENGE_LEN = 16"
definition OTP_MAX_USERNAME_LEN :: nat where "OTP_MAX_USERNAME_LEN = 31"
definition OTP_MAX_PASSCODE_LEN :: nat where "OTP_MAX_PASSCODE_LEN = 47"
definition OTP_MAX_CHAP_CHALLENGE_LEN :: nat where "OTP_MAX_CHAP_CHALLENGE_LEN = 16"
definition OTP_MAX_CHAP_RESPONSE_LEN :: nat where "OTP_MAX_CHAP_RESPONSE_LEN = 50"

datatype otp_rc =
    OTP_RC_OK
  | OTP_RC_USER_UNKNOWN
  | OTP_RC_AUTHINFO_UNAVAIL
  | OTP_RC_AUTH_ERR
  | OTP_RC_MAXTRIES
  | OTP_RC_SERVICE_ERR
  | OTP_RC_NEXTPASSCODE
  | OTP_RC_IPIN

text \<open>The enumeration, and \<open>PWE_OTHER\<close> for a tag that is none of its values.\<close>

datatype otp_pwe_t = PWE_PAP | PWE_CHAP | PWE_MSCHAP | PWE_MSCHAP2 | PWE_OTHER

record otp_request_t =
  r_version :: int
  r_username :: string
  r_challenge :: string
  r_pwe :: otp_pwe_t
  r_passcode :: string            \<comment> \<open>\<open>u.pap.passcode\<close>\<close>
  r_chap_challenge :: "byte list" \<comment> \<open>\<open>u.chap.challenge\<close>\<close>
  r_chap_clen :: nat
  r_chap_response :: "byte list"  \<comment> \<open>\<open>u.chap.response\<close>\<close>
  r_chap_rlen :: nat
  r_allow_async :: bool
  r_allow_sync :: bool
  r_challenge_delay :: u32
  r_resync :: bool

record otp_reply_t =
  y_version :: int
  y_rc :: otp_rc
  y_passcode :: string

section \<open>extern.h\<close>

datatype emode = EMODE_CLEAR | EMODE_PIN | EMODE_PINMD5 | EMODE_KEYID

datatype smode = SMODE_LOCAL | SMODE_GLOBAL

text \<open>
  The part of \<open>config_t\<close> that request processing reads. \<open>c_key\<close> is the sparse array of
  \<open>otppasswd\<close> keys indexed by key id.
\<close>

record config_t =
  c_hardfail :: u32
  c_softfail :: u32
  c_timeout :: int
  c_prepend_pin :: bool
  c_ewindow_size :: u32
  c_rwindow_size :: u32
  c_site_transform :: bool
  c_file_passwd :: string
  c_file_encryptmode :: emode
  c_file_keyid :: int
  c_file_gsmd :: string
  c_key :: "int \<Rightarrow> byte list option"
  c_state_mode :: smode
  c_statedir :: string

section \<open>cardops.h\<close>

definition OTP_CF_AM :: u32 where "OTP_CF_AM = push_bit 1 1"
definition OTP_CF_ES :: u32 where "OTP_CF_ES = push_bit 2 1"
definition OTP_CF_TS :: u32 where "OTP_CF_TS = push_bit 3 1"
definition OTP_CF_SM :: u32 where "OTP_CF_SM = OTP_CF_ES OR OTP_CF_TS"
definition OTP_CF_LEN0 :: u32 where "OTP_CF_LEN0 = push_bit 4 1"
definition OTP_CF_LEN1 :: u32 where "OTP_CF_LEN1 = push_bit 5 1"
definition OTP_CF_LEN2 :: u32 where "OTP_CF_LEN2 = push_bit 6 1"
definition OTP_CF_LEN3 :: u32 where "OTP_CF_LEN3 = push_bit 7 1"
definition OTP_CF_LEN4 :: u32 where "OTP_CF_LEN4 = push_bit 8 1"
definition OTP_CF_LEN :: u32 where
  "OTP_CF_LEN = OTP_CF_LEN0 OR OTP_CF_LEN1 OR OTP_CF_LEN2 OR OTP_CF_LEN3 OR OTP_CF_LEN4"
definition OTP_CF_FRW :: u32 where
  "OTP_CF_FRW = push_bit 9 1 OR push_bit 10 1 OR push_bit 11 1 OR push_bit 12 1"
definition OTP_CF_VSA0 :: u32 where "OTP_CF_VSA0 = push_bit 13 1"
definition OTP_CF_VSA1 :: u32 where "OTP_CF_VSA1 = push_bit 14 1"
definition OTP_CF_VSA2 :: u32 where "OTP_CF_VSA2 = push_bit 15 1"

text \<open>\<open>(fm & OTP_CF_LEN) >> OTP_CF_LEN_SHIFT\<close> and \<open>(fm & OTP_CF_FRW) >> OTP_CF_FRW_SHIFT\<close>.\<close>

definition cf_len :: "u32 \<Rightarrow> nat" where
  "cf_len fm = unat (drop_bit 4 (fm AND OTP_CF_LEN))"

definition cf_frw :: "u32 \<Rightarrow> nat" where
  "cf_frw fm = unat (drop_bit 9 (fm AND OTP_CF_FRW))"

definition cf_has :: "u32 \<Rightarrow> u32 \<Rightarrow> bool" where
  "cf_has fm flag \<longleftrightarrow> fm AND flag \<noteq> 0"

definition OTP_MAX_RESPONSE_LEN :: nat where "OTP_MAX_RESPONSE_LEN = 16"
definition OTP_MAX_CARDNAME_LEN :: nat where "OTP_MAX_CARDNAME_LEN = 31"
definition OTP_MAX_KEY_LEN :: nat where "OTP_MAX_KEY_LEN = 256"
definition OTP_MAX_PIN_LEN :: nat where "OTP_MAX_PIN_LEN = 16"
definition OTP_MAX_CSD_LEN :: nat where "OTP_MAX_CSD_LEN = 63"
definition OTP_MAX_RD_LEN :: nat where "OTP_MAX_RD_LEN = 31"
definition OTP_MAX_VENDORS :: nat where "OTP_MAX_VENDORS = 16"

text \<open>
  \<open>user_t\<close>. \<open>u_pin\<close> holds the octets stored in \<open>pin[]\<close> before the terminator that \<open>verify\<close>
  writes; \<open>u_key\<close> the octets that \<open>keystring2key\<close> stored. The \<open>cardops\<close> pointer is a local
  variable of the model of \<open>verify\<close>.
\<close>

record user_t =
  u_username :: string
  u_card :: string
  u_featuremask :: u32
  u_timeissued :: int
  u_keystring :: string
  u_key :: "byte list"
  u_ipinstring :: string
  u_pinstring :: string
  u_pin :: string
  u_gsmd :: string
  u_keyid :: int
  u_encryptmode :: emode
  u_password :: "string option"
  u_password_hash :: "byte list"
  u_rwindow_size :: u32

text \<open>
  \<open>state_t\<close>. Of the union \<open>l\<close>, \<open>s_lock\<close> is the local member (the address of the lock node) and
  \<open>s_gactive\<close>, \<open>s_gseq\<close>, \<open>s_gname\<close> the global one. Of the scratch words the modelled card
  modules use the first.
\<close>

record state_t =
  s_locked :: bool
  s_lock :: "nat option"
  s_gname :: string
  s_gactive :: nat
  s_gseq :: u32
  s_nullstate :: bool
  s_updated :: bool
  s_clen :: nat
  s_challenge :: "byte list"
  s_csd :: string
  s_rd :: string
  s_failcount :: u32
  s_authtime :: u32
  s_mincardtime :: u32
  s_scratch1 :: nat

text \<open>\<open>state_t state = { .locked = 0 }\<close>: every other member is zero too.\<close>

definition state_zero :: state_t where
  "state_zero = \<lparr>s_locked = False, s_lock = None, s_gname = [], s_gactive = 0, s_gseq = 0,
     s_nullstate = False, s_updated = False, s_clen = 0, s_challenge = replicate 16 0,
     s_csd = [], s_rd = [], s_failcount = 0, s_authtime = 0, s_mincardtime = 0, s_scratch1 = 0\<rparr>"

text \<open>
  The card operations. An \<open>int\<close> result that is zero on success is a \<open>cres\<close> whose error code is
  the non-zero value; what the C function writes through its pointer arguments is returned.
  The last argument of \<open>co_response\<close> is the value \<open>time(NULL)\<close> has during the call.
\<close>

record cardops_t =
  co_prefix :: string
  co_plen :: nat
  co_name2fm :: "user_t \<Rightarrow> state_t \<Rightarrow> user_t cres"
  co_keystring2key :: "user_t \<Rightarrow> state_t \<Rightarrow> (user_t \<times> state_t \<times> nat) cres"
  co_nullstate :: "config_t \<Rightarrow> user_t \<Rightarrow> state_t \<Rightarrow> int \<Rightarrow> state_t cres"
  co_challenge :: "user_t \<Rightarrow> state_t \<Rightarrow> byte list \<Rightarrow> int \<Rightarrow> int \<Rightarrow> int \<Rightarrow> (state_t \<times> byte list) cres"
  co_response :: "user_t \<Rightarrow> state_t \<Rightarrow> byte list \<Rightarrow> nat \<Rightarrow> int \<Rightarrow> string cres"
  co_updatecsd :: "state_t \<Rightarrow> int \<Rightarrow> int \<Rightarrow> int \<Rightarrow> otp_rc \<Rightarrow> state_t cres"
  co_isconsecutive :: "user_t \<Rightarrow> state_t \<Rightarrow> int \<Rightarrow> bool"
  co_maxtwin :: "user_t \<Rightarrow> state_t \<Rightarrow> int \<Rightarrow> int"
  co_printchallenge :: "byte list \<Rightarrow> nat \<Rightarrow> string"

section \<open>The cryptographic library\<close>

text \<open>
  OpenSSL's one-shot hashes, \<open>HMAC (EVP_sha1 (), \<dots>)\<close> (\<open>None\<close> for a null result),
  \<open>des_set_key_checked\<close> (0 for an acceptable key), \<open>des_cbc_encrypt\<close> from a zero vector
  (whole blocks, the last one zero padded) and \<open>des_ecb_encrypt\<close> of one block.
\<close>

record crypto =
  md4 :: "byte list \<Rightarrow> byte list"
  md5 :: "byte list \<Rightarrow> byte list"
  sha1 :: "byte list \<Rightarrow> byte list"
  hmac_sha1 :: "byte list \<Rightarrow> byte list \<Rightarrow> byte list option"
  des_set_key_checked :: "byte list \<Rightarrow> int"
  des_cbc_encrypt :: "byte list \<Rightarrow> byte list \<Rightarrow> byte list"
  des_ecb_encrypt :: "byte list \<Rightarrow> byte list \<Rightarrow> byte list"

section \<open>Sample values\<close>

text \<open>
  A stand-in for the cryptographic library and a user, for evaluating the model on concrete
  inputs. The outputs of \<open>sample_crypto\<close> have the lengths of the real functions.
\<close>

definition sample_crypto :: crypto where
  "sample_crypto = \<lparr>md4 = (\<lambda>m. replicate 16 1), md5 = (\<lambda>m. replicate 16 2), sha1 = (\<lambda>m. replicate 20 3),
     hmac_sha1 = (\<lambda>k m. Some (drop 4 m @ m @ m)), des_set_key_checked = (\<lambda>k. 0),
     des_cbc_encrypt = (\<lambda>k m. replicate (8 * ((length m + 7) div 8)) 0x4e), des_ecb_encrypt = (\<lambda>k m. m)\<rparr>"

definition sample_user :: user_t where
  "sample_user = \<lparr>u_username = ''joe'', u_card = ''hotp-d6'', u_featuremask = 0, u_timeissued = 0,
     u_keystring = ''00112233445566778899aabbccddeeff'', u_key = [], u_ipinstring = [], u_pinstring = [],
     u_pin = [], u_gsmd = [], u_keyid = 0, u_encryptmode = EMODE_CLEAR, u_password = None,
     u_password_hash = [], u_rwindow_size = 0\<rparr>"

section \<open>Lemmas\<close>

lemmas cf_defs = OTP_CF_AM_def OTP_CF_ES_def OTP_CF_TS_def OTP_CF_SM_def OTP_CF_LEN0_def
  OTP_CF_LEN1_def OTP_CF_LEN2_def OTP_CF_LEN3_def OTP_CF_LEN4_def OTP_CF_LEN_def OTP_CF_FRW_def
  OTP_CF_VSA0_def OTP_CF_VSA1_def OTP_CF_VSA2_def cf_len_def cf_frw_def cf_has_def

lemmas max_defs = OTP_MAX_CHALLENGE_LEN_def OTP_MAX_USERNAME_LEN_def OTP_MAX_PASSCODE_LEN_def
  OTP_MAX_CHAP_CHALLENGE_LEN_def OTP_MAX_CHAP_RESPONSE_LEN_def OTP_MAX_RESPONSE_LEN_def
  OTP_MAX_CARDNAME_LEN_def OTP_MAX_KEY_LEN_def OTP_MAX_PIN_LEN_def OTP_MAX_CSD_LEN_def
  OTP_MAX_RD_LEN_def OTP_MAX_VENDORS_def

end
