(* ===== verification/Otpd_Uhash.thy ===== *)
theory Otpd_Uhash
  imports Otpd_Types
begin

text \<open>
  The small helpers of request processing: the user name hash of \<^verbatim>\<open>src/uhash.c\<close>, the table of
  global state managers of \<^verbatim>\<open>src/gsmd.c\<close> that is keyed by it, the site transform of
  \<^verbatim>\<open>src/site.c\<close> and the sequence numbers of \<^verbatim>\<open>src/nonce.c\<close>.
\<close>

section \<open>Definitions\<close>

subsection \<open>uhash.c\<close>

definition UHASH_SIZE :: nat where "UHASH_SIZE = 64"

definition base64 :: "nat list" where
  "base64 = replicate 48 0
     @ [0, 1, 2, 3, 4, 5, 6, 7, 8, 9, 0, 0, 0, 0, 0, 0]
     @ [0, 10, 11, 12, 13, 14, 15, 16, 17, 18, 19, 20, 21, 22, 23, 24]
     @ [25, 26, 27, 28, 29, 30, 31, 32, 33, 34, 35, 0, 0, 0, 0, 0]
     @ [0, 36, 37, 38, 39, 40, 41, 42, 43, 44, 45, 46, 47, 48, 49, 50]
     @ [51, 52, 53, 54, 55, 56, 57, 58, 59, 60, 61, 0, 0, 0, 0, 0]
     @ replicate 128 0"

definition uhash :: "string \<Rightarrow> nat" where
  "uhash username = foldl (\<lambda>bucket c. bucket XOR base64 ! of_char c) 0 (cstr username)"

subsection \<open>gsmd.c\<close>

text \<open>
  The configuration of a global state manager, of which the modelled code reads the name, the
  number of hosts, the active host, the timeouts and the key. A chain is the list of its nodes in \<open>next\<close> order;
  \<open>gsmd_chain\<close> is the array of chains.
\<close>

record 'k gsmd_t =
  g_name :: string
  g_n :: nat
  g_active :: nat
  g_fo_timeout :: int
  g_fb_timeout :: int
  g_scontext :: 'k

type_synonym 'k gsmd_chain = "'k gsmd_t list list"

definition gsmd_empty :: "'k gsmd_chain" where
  "gsmd_empty = replicate UHASH_SIZE []"

definition gsmd_hash :: "'k gsmd_chain \<Rightarrow> 'k gsmd_t \<Rightarrow> 'k gsmd_chain" where
  "gsmd_hash chain gsmd =
     (let bucket = uhash (g_name gsmd) in chain[bucket := gsmd # chain ! bucket])"

definition gsmd_get :: "'k gsmd_chain \<Rightarrow> string \<Rightarrow> 'k gsmd_t option" where
  "gsmd_get chain name = find (\<lambda>gsmd. g_name gsmd = name) (chain ! uhash name)"

text \<open>
  The iterator: a position is the static bucket counter and the node's index in that bucket
  (\<open>None\<close> for the argument NULL and the result NULL).
\<close>

fun first_chain :: "'k gsmd_chain \<Rightarrow> nat list \<Rightarrow> (nat \<times> nat) option" where
  "first_chain chain [] = None"
| "first_chain chain (i # is) = (if chain ! i \<noteq> [] then Some (i, 0) else first_chain chain is)"

definition gsmd_next :: "'k gsmd_chain \<Rightarrow> (nat \<times> nat) option \<Rightarrow> (nat \<times> nat) option" where
  "gsmd_next chain pos = (case pos of
     None \<Rightarrow> first_chain chain [0..<UHASH_SIZE]
   | Some (i, j) \<Rightarrow>
       if j + 1 < length (chain ! i) then Some (i, j + 1)
       else first_chain chain [i + 1..<UHASH_SIZE])"

subsection \<open>site.c\<close>

text \<open>
  The challenge buffer and the new length. With less than two octets of room the challenge is
  overwritten at its end; an index beyond the buffer is a fault.
\<close>

definition challenge_append :: "byte list \<times> nat \<Rightarrow> string \<Rightarrow> (byte list \<times> nat) cres" where
  "challenge_append cc u = (case (cc, u) of
     ((ch, clen), []) \<Rightarrow> COk (ch, clen)
   | ((ch, clen), c # _) \<Rightarrow>
       if clen < length ch then COk (ch[clen := byte_of c], clen + 1) else CFault)"

definition challenge_transform :: "string \<Rightarrow> byte list \<Rightarrow> nat \<Rightarrow> (byte list \<times> nat) cres" where
  "challenge_transform username challenge clen =
     (let clen = (if clen = OTP_MAX_CHALLENGE_LEN then clen - 2
                  else if clen + 1 = OTP_MAX_CHALLENGE_LEN then clen - 1
                  else clen)
      in cbind (challenge_append (challenge, clen) username)
           (\<lambda>cc. challenge_append cc (drop 1 username)))"

subsection \<open>nonce.c\<close>

text \<open>The static \<open>seq\<close>: its initial value, and \<open>nonce32\<close>, which returns the new value.\<close>

definition nonce_seq_init :: u32 where "nonce_seq_init = - 2"

definition nonce32 :: "u32 \<Rightarrow> u32" where
  "nonce32 seq = seq + 2"

section \<open>Lemmas\<close>

lemma length_base64: "length base64 = 256"
  by (simp add: base64_def)

lemma base64_lt: "n < 256 \<Longrightarrow> base64 ! n < 64"
proof -
  assume "n < 256"
  then have "base64 ! n \<in> set base64" by (simp add: length_base64)
  moreover have "\<forall>x \<in> set base64. x < 64" by (simp add: base64_def)
  ultimately show ?thesis by blast
qed

lemma xor_lt_64: "a < 64 \<Longrightarrow> b < 64 \<Longrightarrow> (a XOR b :: nat) < 64"
proof -
  assume "a < 64" "b < 64"
  then have "take_bit 6 a = a" "take_bit 6 b = b" by (simp_all add: take_bit_nat_eq_self)
  then have eq: "take_bit 6 (a XOR b) = a XOR b" by (simp only: take_bit_xor)
  have "take_bit 6 (a XOR b) < 2 ^ 6" by (rule take_bit_nat_less_exp)
  then show ?thesis unfolding eq by simp
qed

lemma uhash_fold_lt: "b < 64 \<Longrightarrow> foldl (\<lambda>bucket c. bucket XOR base64 ! of_char c) b s < 64"
proof (induction s arbitrary: b)
  case (Cons c s)
  then show ?case by (simp add: xor_lt_64 base64_lt)
qed simp

lemma uhash_lt [simp]: "uhash u < UHASH_SIZE"
  by (simp add: uhash_def uhash_fold_lt UHASH_SIZE_def)

section \<open>The table of global state managers\<close>

text \<open>
  The interface of a table of named entries: a later entry hides an earlier one of the same name.
\<close>

locale name_table =
  fixes empty :: 't
    and insert :: "'t \<Rightarrow> 'e \<Rightarrow> 't"
    and lookup :: "'t \<Rightarrow> string \<Rightarrow> 'e option"
    and name :: "'e \<Rightarrow> string"
    and wf :: "'t \<Rightarrow> bool"
  assumes wf_empty: "wf empty"
    and wf_insert: "wf t \<Longrightarrow> wf (insert t e)"
    and lookup_empty: "lookup empty n = None"
    and lookup_insert: "wf t \<Longrightarrow> lookup (insert t e) n = (if name e = n then Some e else lookup t n)"
begin

definition load :: "'e list \<Rightarrow> 't" where
  "load es = foldl insert empty es"

lemma wf_load: "wf (load es)"
  unfolding load_def by (induction es rule: rev_induct) (simp_all add: wf_empty wf_insert)

lemma lookup_load: "lookup (load es) n = find (\<lambda>e. name e = n) (rev es)"
proof (induction es rule: rev_induct)
  case (snoc e es)
  then show ?case
    using lookup_insert [OF wf_load, of es e n] by (simp add: load_def)
qed (simp add: load_def lookup_empty)

end

interpretation gsmds: name_table gsmd_empty gsmd_hash gsmd_get g_name "\<lambda>t. length t = UHASH_SIZE"
proof unfold_locales
  fix t :: "'a gsmd_chain" and e :: "'a gsmd_t" and n
  assume "length t = UHASH_SIZE"
  then show "gsmd_get (gsmd_hash t e) n = (if g_name e = n then Some e else gsmd_get t n)"
    by (cases "uhash (g_name e) = uhash n") (auto simp: gsmd_get_def gsmd_hash_def Let_def)
qed (simp_all add: gsmd_empty_def gsmd_hash_def gsmd_get_def Let_def)

definition gsmd_positions :: "'k gsmd_chain \<Rightarrow> nat list \<Rightarrow> (nat \<times> nat) list" where
  "gsmd_positions chain is = concat (map (\<lambda>i. map (Pair i) [0..<length (chain ! i)]) is)"

lemma gsmd_positions_simps [simp]:
  "gsmd_positions chain [] = []"
  "gsmd_positions chain (i # is) = map (Pair i) [0..<length (chain ! i)] @ gsmd_positions chain is"
  "gsmd_positions chain (is @ js) = gsmd_positions chain is @ gsmd_positions chain js"
  by (simp_all add: gsmd_positions_def)

lemma first_chain_eq: "first_chain chain is = (case gsmd_positions chain is of [] \<Rightarrow> None | p # _ \<Rightarrow> Some p)"
  by (induction "is") (auto simp: upt_conv_Cons split: list.splits)

lemma set_gsmd_positions: "(i, j) \<in> set (gsmd_positions chain is) \<longleftrightarrow> i \<in> set is \<and> j < length (chain ! i)"
  by (induction "is") auto

lemma distinct_gsmd_positions: "distinct is \<Longrightarrow> distinct (gsmd_positions chain is)"
  by (induction "is") (auto simp: distinct_map inj_on_def set_gsmd_positions)

lemma gsmd_positions_split:
  assumes "i < n" and "j < length (chain ! i)"
  shows "gsmd_positions chain [0..<n] =
    (gsmd_positions chain [0..<i] @ map (Pair i) [0..<j]) @ (i, j)
      # (map (Pair i) [j + 1..<length (chain ! i)] @ gsmd_positions chain [i + 1..<n])"
proof -
  have split: "[0..<m] = [0..<k] @ k # [k + 1..<m]" if "k < m" for k m :: nat
    using that upt_add_eq_append [of 0 k "m - k"] by (simp add: upt_conv_Cons)
  show ?thesis by (simp only: split [OF assms(1)] split [OF assms(2)] gsmd_positions_simps map_append list.map append_assoc append_Cons)
qed

lemma distinct_split_unique:
  "distinct (xs @ p # ys) \<Longrightarrow> xs @ p # ys = xs' @ p # ys' \<Longrightarrow> ys = ys'"
  by (metis append_Cons_eq_iff distinct_append distinct.simps(2) not_distinct_conv_prefix
      append_eq_append_conv_if disjoint_insert(1) list.set(2) Int_commute)

lemma gsmd_next_at:
  assumes "i < UHASH_SIZE" and "j < length (chain ! i)"
  shows "gsmd_next chain (Some (i, j)) =
    (case map (Pair i) [j + 1..<length (chain ! i)] @ gsmd_positions chain [i + 1..<UHASH_SIZE] of
       [] \<Rightarrow> None | q # _ \<Rightarrow> Some q)"
  using assms by (auto simp: gsmd_next_def first_chain_eq upt_conv_Cons split: list.splits)

section \<open>Properties\<close>

text \<open>
  The last configured state manager of a name is the one that \<open>gsmd_get\<close> finds, and a name that
  was never configured is not found, whatever buckets the names hash to.
\<close>

theorem gsmd_get_after_hash:
  "gsmd_get (foldl gsmd_hash gsmd_empty gs) name = find (\<lambda>g. g_name g = name) (rev gs)"
  using gsmds.lookup_load by (simp only: gsmds.load_def)

text \<open>
  The iterator \<open>gsmd_next\<close> visits every configured state manager exactly once: started with
  NULL it returns the first one, and after each one its successor in table order, and NULL after
  the last.
\<close>

theorem gsmd_next_enumerates:
  assumes "gsmd_positions chain [0..<UHASH_SIZE] = ps @ p # qs"
  shows "distinct (ps @ p # qs) \<and> gsmd_next chain None = Some (hd (ps @ [p]))
    \<and> gsmd_next chain (Some p) = (case qs of [] \<Rightarrow> None | q # _ \<Rightarrow> Some q)"
proof -
  obtain i j where p: "p = (i, j)" by (cases p)
  have dist: "distinct (ps @ p # qs)"
    using distinct_gsmd_positions [of "[0..<UHASH_SIZE]" chain] by (simp only: assms distinct_upt)
  have "(i, j) \<in> set (gsmd_positions chain [0..<UHASH_SIZE])" by (simp only: assms p) simp
  then have ij: "i < UHASH_SIZE" "j < length (chain ! i)" by (simp_all add: set_gsmd_positions)
  have "qs = map (Pair i) [j + 1..<length (chain ! i)] @ gsmd_positions chain [i + 1..<UHASH_SIZE]"
    using gsmd_positions_split [OF ij] dist unfolding assms p
    by (metis distinct_split_unique)
  then have "gsmd_next chain (Some p) = (case qs of [] \<Rightarrow> None | q # _ \<Rightarrow> Some q)"
    using gsmd_next_at [OF ij] by (simp only: p)
  moreover have "gsmd_next chain None = Some (hd (ps @ [p]))"
    by (cases ps) (simp_all add: gsmd_next_def first_chain_eq assms)
  ultimately show ?thesis using dist by blast
qed

theorem gsmd_next_enumerates_witness:
  "\<exists>chain :: nat gsmd_chain. gsmd_next chain None = Some (1, 0) \<and> gsmd_next chain (Some (1, 0)) = Some (1, 1)"
proof -
  define g :: "nat gsmd_t" where "g = \<lparr>g_name = ''1'', g_n = 1, g_active = 0, g_fo_timeout = 0, g_fb_timeout = 0, g_scontext = 0\<rparr>"
  define chain where "chain = [[], [g, g]] @ replicate 62 []"
  have "gsmd_positions chain [0..<UHASH_SIZE] = [] @ (1, 0) # [(1, 1)]"
    unfolding chain_def UHASH_SIZE_def g_def by code_simp
  from gsmd_next_enumerates [OF this] show ?thesis by auto
qed

text \<open>
  The site transform never leaves the challenge buffer. For every challenge of at most sixteen
  octets the first two characters of the user name follow the challenge, which is cut to fourteen
  octets where it is longer; the rest of the buffer is unchanged and the returned length counts
  exactly the kept octets and the appended characters.
\<close>

theorem challenge_transform_spec:
  assumes "length ch = OTP_MAX_CHALLENGE_LEN" and "clen \<le> OTP_MAX_CHALLENGE_LEN"
  shows "\<exists>n. n = min clen (OTP_MAX_CHALLENGE_LEN - 2) + min 2 (length username) \<and> n \<le> OTP_MAX_CHALLENGE_LEN
    \<and> challenge_transform username ch clen = COk
        (take (min clen (OTP_MAX_CHALLENGE_LEN - 2)) ch @ bytes_of (take 2 username) @ drop n ch, n)"
proof -
  define b where "b = min clen 14"
  have b: "b \<le> 14" "(if clen = 16 then clen - 2 else if clen + 1 = 16 then clen - 1 else clen) = b"
    using assms(2) by (auto simp: b_def max_defs)
  have len: "length ch = 16" using assms(1) by (simp add: max_defs)
  have upd: "ch[k := x] = take k ch @ x # drop (Suc k) ch" if "k < 16" for k x
    using that len by (simp add: upd_conv_take_nth_drop)
  have upd2: "(take k ch @ x # drop (Suc k) ch)[Suc k := y] = take k ch @ x # y # drop (Suc (Suc k)) ch"
    if "Suc k < 16" for k x y
    using that len by (simp add: list_update_append upd_conv_take_nth_drop Cons_nth_drop_Suc [symmetric] min_def)
  have "challenge_transform username ch clen =
      cbind (challenge_append (ch, b) username) (\<lambda>cc. challenge_append cc (drop 1 username))"
    by (simp only: challenge_transform_def max_defs b(2) Let_def)
  also have "\<dots> = COk (take b ch @ bytes_of (take 2 username) @ drop (b + min 2 (length username)) ch,
      b + min 2 (length username))"
    using b(1) len
    by (cases username rule: remdups_adj.cases)
      (simp_all add: challenge_append_def upd upd2 take_Suc_conv_app_nth numeral_2_eq_2)
  finally show ?thesis
    using b(1) by (simp add: b_def max_defs)
qed

theorem challenge_transform_spec_witness:
  "challenge_transform ''joe'' (replicate 16 0x39) 15 = COk (replicate 14 0x39 @ [0x6a, 0x6f], 16)"
  using challenge_transform_spec [of "replicate 16 0x39" 15 "''joe''"]
  by (simp add: max_defs byte_of_def numeral_eq_Suc)

end
