(* ===== verification/Otpd_Helix.thy ===== *)
theory Otpd_Helix
  imports Otpd_Prelude
begin

text \<open>
  The byte-order macros of \<^verbatim>\<open>src/bitmanip.h\<close> (on a little-endian host) and the Helix stream
  cipher of \<^verbatim>\<open>src/helix.c\<close>: key set-up, nonce set-up, encryption and decryption with a MAC.

  The interface between the cipher's block function and the two directions that use it is the
  locale \<open>keystream_block\<close>: a block yields as keystream the word that was visible in the state
  before it. Everything decryption needs follows from that law.
\<close>

section \<open>Definitions\<close>

subsection \<open>bitmanip.h\<close>

definition MOD8 :: "u64 \<Rightarrow> nat" where
  "MOD8 n = unat (n AND 0x07)"

definition MOD4 :: "u64 \<Rightarrow> nat" where
  "MOD4 n = unat (n AND 0x03)"

definition rol :: "u32 \<Rightarrow> nat \<Rightarrow> u32" where
  "rol w n = word_rotl n w"

text \<open>\<open>LEUCHAR2HEUINT32\<close> on four octets.\<close>

definition le32 :: "byte \<Rightarrow> byte \<Rightarrow> byte \<Rightarrow> byte \<Rightarrow> u32" where
  "le32 b0 b1 b2 b3 = ucast b0 OR push_bit 8 (ucast b1) OR push_bit 16 (ucast b2) OR push_bit 24 (ucast b3)"

text \<open>\<open>LEUCHAR2HEUINT32ZE\<close>: up to three octets, zero-extended.\<close>

definition le32ze :: "byte list \<Rightarrow> u32" where
  "le32ze bs = (case bs of
       [] \<Rightarrow> 0
     | [a] \<Rightarrow> le32 a 0 0 0
     | [a, b] \<Rightarrow> le32 a b 0 0
     | [a, b, c] \<Rightarrow> le32 a b c 0
     | a # b # c # d # _ \<Rightarrow> le32 a b c d)"

text \<open>\<open>HEUINT32TOLEUCHAR\<close>.\<close>

definition le32_bytes :: "u32 \<Rightarrow> byte list" where
  "le32_bytes w = [ucast w, ucast (drop_bit 8 w), ucast (drop_bit 16 w), ucast (drop_bit 24 w)]"

text \<open>\<open>HEUINT32P2LEUCHAR\<close>: the first \<open>n\<close> octets of a word.\<close>

definition le32_partial :: "u32 \<Rightarrow> nat \<Rightarrow> byte list" where
  "le32_partial w n = take n (le32_bytes w)"

text \<open>\<open>LEUCHARXORHEUINT32\<close>: four octets xor a word.\<close>

definition le32_xor :: "byte \<Rightarrow> byte \<Rightarrow> byte \<Rightarrow> byte \<Rightarrow> u32 \<Rightarrow> byte list" where
  "le32_xor b0 b1 b2 b3 y = le32_bytes (le32 b0 b1 b2 b3 XOR y)"

text \<open>\<open>LEUCHARXORHEUINT32P\<close>: the first octets of a word xored into as many octets.\<close>

definition le32_xor_partial :: "byte list \<Rightarrow> u32 \<Rightarrow> byte list" where
  "le32_xor_partial bs y = map2 (XOR) bs (le32_bytes y)"

subsection \<open>Contexts and the block function\<close>

definition HELIX_MAGIC :: u32 where
  "HELIX_MAGIC = 0x912d94f1"

record helix_scontext_t =
  sc_magic :: u32
  sc_l :: u32
  sc_k :: "u32 list"
  sc_x0 :: "u32 list"

text \<open>
  \<open>iplus8hp\<close> points at the high-order half of \<open>iplus8\<close>; the model reads that half directly
  (\<open>iplus8_high\<close>).
\<close>

record helix_dcontext_t =
  dc_n :: "u32 list"
  dc_z :: "u32 \<times> u32 \<times> u32 \<times> u32 \<times> u32"
  dc_x1 :: "u32 list"
  dc_iplus8 :: u64

definition dc_z0 :: "helix_dcontext_t \<Rightarrow> u32" where
  "dc_z0 dc = fst (dc_z dc)"

definition iplus8_high :: "helix_dcontext_t \<Rightarrow> u32" where
  "iplus8_high dc = ucast (drop_bit 32 (dc_iplus8 dc))"

text \<open>The key word \<open>x1\<close> of one block, from the precomputed table and the counter.\<close>

definition helix_x1 :: "helix_dcontext_t \<Rightarrow> u32" where
  "helix_x1 dc =
     (let x1 = dc_x1 dc ! MOD8 (dc_iplus8 dc) + ucast (dc_iplus8 dc)
      in if MOD4 (dc_iplus8 dc) = 3 then x1 + iplus8_high dc else x1)"

text \<open>The twenty rounds.\<close>

definition helix_rounds ::
  "u32 \<Rightarrow> u32 \<Rightarrow> u32 \<Rightarrow> u32 \<times> u32 \<times> u32 \<times> u32 \<times> u32 \<Rightarrow> u32 \<times> u32 \<times> u32 \<times> u32 \<times> u32" where
  "helix_rounds x0 x1 p z = (case z of (z0, z1, z2, z3, z4) \<Rightarrow>
     let z0 = z0 + z3;          z3 = rol z3 15;
         z1 = z1 + z4;          z4 = rol z4 25;
         z2 = z2 XOR z0;        z0 = rol z0 9;
         z3 = z3 XOR z1;        z1 = rol z1 10;
         z4 = z4 + z2;          z2 = rol z2 17;

         z0 = z0 XOR (z3 + x0); z3 = rol z3 30;
         z1 = z1 XOR z4;        z4 = rol z4 13;
         z2 = z2 + z0;          z0 = rol z0 20;
         z3 = z3 + z1;          z1 = rol z1 11;
         z4 = z4 XOR z2;        z2 = rol z2 5;

         z0 = z0 + (z3 XOR p);  z3 = rol z3 15;
         z1 = z1 + z4;          z4 = rol z4 25;
         z2 = z2 XOR z0;        z0 = rol z0 9;
         z3 = z3 XOR z1;        z1 = rol z1 10;
         z4 = z4 + z2;          z2 = rol z2 17;

         z0 = z0 XOR (z3 + x1); z3 = rol z3 30;
         z1 = z1 XOR z4;        z4 = rol z4 13;
         z2 = z2 + z0;          z0 = rol z0 20;
         z3 = z3 + z1;          z1 = rol z1 11;
         z4 = z4 XOR z2;        z2 = rol z2 5
     in (z0, z1, z2, z3, z4))"

definition helix_block ::
  "helix_scontext_t \<Rightarrow> helix_dcontext_t \<Rightarrow> u32 \<Rightarrow> u32 \<times> helix_dcontext_t" where
  "helix_block sc dc p =
     (dc_z0 dc,
      dc\<lparr>dc_z := helix_rounds (sc_x0 sc ! MOD8 (dc_iplus8 dc)) (helix_x1 dc) p (dc_z dc),
         dc_iplus8 := dc_iplus8 dc + 1\<rparr>)"

subsection \<open>Key and nonce set-up\<close>

fun words_of_bytes :: "byte list \<Rightarrow> u32 list" where
  "words_of_bytes (a # b # c # d # bs) = le32 a b c d # words_of_bytes bs"
| "words_of_bytes _ = []"

text \<open>One round of the key mix, at index \<open>i\<close>.\<close>

definition helix_mix_step ::
  "helix_scontext_t \<Rightarrow> u32 \<Rightarrow> nat \<Rightarrow> u32 list \<times> helix_dcontext_t \<Rightarrow> u32 list \<times> helix_dcontext_t" where
  "helix_mix_step sc l i st = (case st of (k, dc) \<Rightarrow>
     let dc = dc\<lparr>dc_z := (k ! (4 * i + 4), k ! (4 * i + 5), k ! (4 * i + 6), k ! (4 * i + 7), l + 64)\<rparr>;
         dc = snd (helix_block sc dc 0)
     in case dc_z dc of (z0, z1, z2, z3, _) \<Rightarrow>
       (k[4 * i + 0 := z0 XOR k ! (4 * i + 8), 4 * i + 1 := z1 XOR k ! (4 * i + 9),
          4 * i + 2 := z2 XOR k ! (4 * i + 10), 4 * i + 3 := z3 XOR k ! (4 * i + 11)], dc))"

definition helix_setkey :: "byte list \<Rightarrow> helix_scontext_t option" where
  "helix_setkey u =
     (let l = length u in
      if 32 < l then None
      else
        let k = replicate 32 0 @ words_of_bytes (u @ replicate (32 - l) 0);
            sc = \<lparr>sc_magic = 0, sc_l = 0, sc_k = replicate 8 0, sc_x0 = replicate 8 0\<rparr>;
            dc = \<lparr>dc_n = replicate 8 0, dc_z = (0, 0, 0, 0, 0),
                  dc_x1 = map (\<lambda>i. - word_of_nat i) [0..<8], dc_iplus8 = 0\<rparr>;
            k = fst (fold (helix_mix_step sc (word_of_nat l)) [7, 6, 5, 4, 3, 2, 1, 0] (k, dc))
        in Some \<lparr>sc_magic = HELIX_MAGIC, sc_l = word_of_nat l, sc_k = take 8 k, sc_x0 = take 8 k\<rparr>)"

text \<open>\<open>helix_nonce\<close> up to the eight blocks that initialise the stream.\<close>

definition helix_nonce_init :: "helix_scontext_t \<Rightarrow> byte list \<Rightarrow> helix_dcontext_t" where
  "helix_nonce_init sc nonce =
     (let n = take 4 (words_of_bytes nonce);
          n = n @ map (\<lambda>i. word_of_nat i - n ! i) [0..<4];
          x1 = map (\<lambda>i. sc_k sc ! ((i + 4) mod 8) + n ! i
                       + (if i mod 4 = 1 then 4 * sc_l sc else 0) - 0x80000000) [0..<8]
      in \<lparr>dc_n = n,
          dc_z = (sc_k sc ! 3 XOR n ! 0, sc_k sc ! 4 XOR n ! 1, sc_k sc ! 5 XOR n ! 2,
                  sc_k sc ! 6 XOR n ! 3, sc_k sc ! 7),
          dc_x1 = x1,
          dc_iplus8 = 0 + 0x80000000\<rparr>)"

text \<open>A run of blocks whose keystream is thrown away.\<close>

fun helix_run :: "helix_scontext_t \<Rightarrow> u32 list \<Rightarrow> helix_dcontext_t \<Rightarrow> helix_dcontext_t" where
  "helix_run sc [] dc = dc"
| "helix_run sc (p # ps) dc = helix_run sc ps (snd (helix_block sc dc p))"

definition helix_nonce :: "helix_scontext_t \<Rightarrow> byte list \<Rightarrow> helix_dcontext_t" where
  "helix_nonce sc nonce = helix_run sc (replicate 8 0) (helix_nonce_init sc nonce)"

subsection \<open>Encryption and decryption\<close>

text \<open>
  The loop over the full words, for a block function \<open>block\<close> on contexts: the output octets, the
  context after them, and the leftover octets (at most three).
\<close>

fun enc_full :: "('c \<Rightarrow> u32 \<Rightarrow> u32 \<times> 'c) \<Rightarrow> 'c \<Rightarrow> byte list \<Rightarrow> byte list \<times> 'c \<times> byte list" where
  "enc_full block dc (a # b # c # d # p) =
     (let (s, dc1) = block dc (le32 a b c d);
          (cs, dc2, rest) = enc_full block dc1 p
      in (le32_xor a b c d s @ cs, dc2, rest))"
| "enc_full block dc p = ([], dc, p)"

fun dec_full :: "('c \<Rightarrow> u32 \<Rightarrow> u32 \<times> 'c) \<Rightarrow> ('c \<Rightarrow> u32) \<Rightarrow> 'c \<Rightarrow> byte list \<Rightarrow>
    byte list \<times> 'c \<times> byte list" where
  "dec_full block z0 dc (a # b # c # d # cs) =
     (let (s, dc1) = block dc (le32 a b c d XOR z0 dc);
          (ps, dc2, rest) = dec_full block z0 dc1 cs
      in (le32_xor a b c d s @ ps, dc2, rest))"
| "dec_full block z0 dc cs = ([], dc, cs)"

text \<open>The leftover partial word of either direction.\<close>

definition enc_tail :: "('c \<Rightarrow> u32 \<Rightarrow> u32 \<times> 'c) \<Rightarrow> 'c \<Rightarrow> byte list \<Rightarrow> byte list \<times> 'c" where
  "enc_tail block dc p =
     (if p = [] then ([], dc)
      else let word = le32ze p; (s, dc1) = block dc word
           in (le32_partial (word XOR s) (length p), dc1))"

definition dec_tail :: "('c \<Rightarrow> u32 \<Rightarrow> u32 \<times> 'c) \<Rightarrow> ('c \<Rightarrow> u32) \<Rightarrow> 'c \<Rightarrow> byte list \<Rightarrow> byte list \<times> 'c" where
  "dec_tail block z0 dc c =
     (if c = [] then ([], dc)
      else let p = le32_xor_partial c (z0 dc); (_, dc1) = block dc (le32ze p) in (p, dc1))"

text \<open>
  MAC generation. The source runs the blocks with \<open>l - i\<close>, the number of leftover octets.
\<close>

definition helix_mac :: "helix_scontext_t \<Rightarrow> helix_dcontext_t \<Rightarrow> u32 \<Rightarrow> byte list \<times> helix_dcontext_t" where
  "helix_mac sc dc lo =
     (let (z0, z) = dc_z dc;
          dc = helix_run sc (replicate 8 lo) (dc\<lparr>dc_z := (z0 XOR HELIX_MAGIC, z)\<rparr>);
          (s0, dc) = helix_block sc dc lo;
          (s1, dc) = helix_block sc dc lo;
          (s2, dc) = helix_block sc dc lo;
          (s3, dc) = helix_block sc dc lo
      in (le32_bytes s0 @ le32_bytes s1 @ le32_bytes s2 @ le32_bytes s3, dc))"

text \<open>Results: the output octets, the MAC and the context; \<open>None\<close> for the return value -1.\<close>

definition helix_encrypt :: "helix_scontext_t \<Rightarrow> helix_dcontext_t \<Rightarrow> byte list \<Rightarrow>
    (byte list \<times> byte list \<times> helix_dcontext_t) option" where
  "helix_encrypt sc dc p =
     (if sc_magic sc \<noteq> HELIX_MAGIC then None
      else let (c1, dc, rest) = enc_full (helix_block sc) dc p;
               (c2, dc) = enc_tail (helix_block sc) dc rest;
               (m, dc) = helix_mac sc dc (word_of_nat (length rest))
           in Some (c1 @ c2, m, dc))"

definition helix_decrypt :: "helix_scontext_t \<Rightarrow> helix_dcontext_t \<Rightarrow> byte list \<Rightarrow>
    (byte list \<times> byte list \<times> helix_dcontext_t) option" where
  "helix_decrypt sc dc c =
     (if sc_magic sc \<noteq> HELIX_MAGIC then None
      else let (p1, dc, rest) = dec_full (helix_block sc) dc_z0 dc c;
               (p2, dc) = dec_tail (helix_block sc) dc_z0 dc rest;
               (m, dc) = helix_mac sc dc (word_of_nat (length rest))
           in Some (p1 @ p2, m, dc))"

subsection \<open>The key schedule as the cipher's specification gives it\<close>

text \<open>
  Helix, section 3.3, for block number \<open>i\<close>: the word is \<open>K[(i + 4) mod 8] + N[i mod 8] + X' + i + 8\<close>,
  where \<open>X'\<close> is \<open>(i + 8) div 2 ^ 31\<close> for \<open>i mod 4 = 3\<close>, four times the key length for
  \<open>i mod 4 = 1\<close>, and 0 otherwise. The argument \<open>i8\<close> is \<open>i + 8\<close>.
\<close>

definition helix_x1_spec :: "helix_scontext_t \<Rightarrow> u32 list \<Rightarrow> nat \<Rightarrow> u32" where
  "helix_x1_spec sc n i8 =
     sc_k sc ! ((i8 + 4) mod 8) + n ! (i8 mod 8)
     + (if i8 mod 4 = 3 then word_of_nat (i8 div 2 ^ 31)
        else if i8 mod 4 = 1 then 4 * sc_l sc else 0)
     + word_of_nat i8"

section \<open>Octets and words\<close>

lemma bit_ucast_byte: "bit (ucast (b :: byte) :: u32) n \<longleftrightarrow> n < 8 \<and> bit b n"
  by (auto simp: bit_simps dest: bit_imp_le_length)

lemma bit_byte_imp: "bit (b :: byte) n \<Longrightarrow> n < 8"
  by (auto dest: bit_imp_le_length)

lemma bit_le32:
  "bit (le32 b0 b1 b2 b3) n \<longleftrightarrow>
     (if n < 8 then bit b0 n else if n < 16 then bit b1 (n - 8)
      else if n < 24 then bit b2 (n - 16) else n < 32 \<and> bit b3 (n - 24))"
  by (auto simp: le32_def bit_simps bit_ucast_byte dest: bit_byte_imp)

lemma le32_bytes_le32 [simp]: "le32_bytes (le32 a b c d) = [a, b, c, d]"
  by (auto simp: le32_bytes_def bit_le32 bit_simps intro!: bit_word_eqI)

lemma le32_le32_bytes:
  "le32_bytes w = [a, b, c, d] \<Longrightarrow> le32 a b c d = w"
  by (auto simp: le32_bytes_def bit_le32 bit_simps split: if_splits intro!: bit_word_eqI)

lemma length_le32_bytes [simp, len_simps]: "length (le32_bytes w) = 4"
  by (simp add: le32_bytes_def)

lemma le32_bytes_cases:
  obtains a b c d where "le32_bytes w = [a, b, c, d]" "le32 a b c d = w"
  by (metis le32_bytes_def le32_le32_bytes)

lemma le32_bytes_xor: "le32_bytes (v XOR w) = map2 (XOR) (le32_bytes v) (le32_bytes w)"
  by (auto simp: le32_bytes_def bit_simps intro!: bit_word_eqI)

lemma length_le32_xor [simp, len_simps]: "length (le32_xor a b c d y) = 4"
  by (simp add: le32_xor_def)

lemma le32ze_take:
  "length p < 4 \<Longrightarrow> take (length p) (le32_bytes (le32ze p)) = p"
  by (auto simp: le32ze_def split: list.splits)

lemma map2_xor_cancel:
  "length ys = length zs \<Longrightarrow> length xs \<le> length ys \<Longrightarrow>
   map2 (XOR) (take (length xs) (map2 (XOR) ys zs)) zs = take (length xs) (ys :: byte list)"
  by (rule nth_equalityI) (auto simp: xor.assoc)

lemma dec_full_short: "length c < 4 \<Longrightarrow> dec_full block z0 dc c = ([], dc, c)"
  by (cases "(block, z0, dc, c)" rule: dec_full.cases) auto

section \<open>The keystream interface\<close>

locale keystream_block =
  fixes block :: "'c \<Rightarrow> u32 \<Rightarrow> u32 \<times> 'c"
    and z0 :: "'c \<Rightarrow> u32"
  assumes block_keystream: "fst (block dc p) = z0 dc"
begin

lemma dec_enc_full:
  "enc_full block dc p = (cs, dc', rest) \<Longrightarrow> length t = length rest \<Longrightarrow>
   \<exists>q. p = q @ rest \<and> length rest < 4 \<and> length cs = length q \<and> dec_full block z0 dc (cs @ t) = (q, dc', t)"
proof (induction p arbitrary: dc cs rule: words_of_bytes.induct)
  case (1 a b c d p)
  define w where "w = le32 a b c d"
  obtain s dc1 where blk: "block dc w = (s, dc1)" by fastforce
  with block_keystream [of dc w] have s: "s = z0 dc" by simp
  obtain cs' where full: "enc_full block dc1 p = (cs', dc', rest)" and cs: "cs = le32_bytes (w XOR s) @ cs'"
    using "1.prems"(1) blk by (auto simp: w_def le32_xor_def split: prod.splits)
  from "1.IH" [OF full "1.prems"(2)] obtain q where q: "p = q @ rest" "length rest < 4"
    "length cs' = length q" "dec_full block z0 dc1 (cs' @ t) = (q, dc', t)" by blast
  obtain a' b' c' d' where bs: "le32_bytes (w XOR s) = [a', b', c', d']" "le32 a' b' c' d' = w XOR s"
    by (rule le32_bytes_cases)
  from bs(2) have "le32 a' b' c' d' XOR z0 dc = w" by (simp add: s xor.assoc)
  then have "dec_full block z0 dc (cs @ t) = ([a, b, c, d] @ q, dc', t)"
    unfolding cs bs(1) using q(4) blk by (simp add: le32_xor_def s w_def)
  with q cs show ?case by auto
qed (auto simp: dec_full_short)

lemma dec_enc_tail:
  assumes "enc_tail block dc p = (c, dc')" and "length p < 4"
  shows "length c = length p \<and> dec_tail block z0 dc c = (p, dc')"
proof (cases "p = []")
  case False
  define w where "w = le32ze p"
  obtain s dc1 where blk: "block dc w = (s, dc1)" by fastforce
  with block_keystream [of dc w] have s: "s = z0 dc" by simp
  have c: "c = take (length p) (map2 (XOR) (le32_bytes w) (le32_bytes s))" and dc': "dc' = dc1"
    using assms(1) False blk by (auto simp: enc_tail_def le32_partial_def le32_bytes_xor w_def)
  have "le32_xor_partial c s = take (length p) (le32_bytes w)"
    using assms(2) by (simp add: c le32_xor_partial_def map2_xor_cancel)
  then have "le32_xor_partial c s = p"
    using assms(2) by (simp add: w_def le32ze_take)
  moreover have "length c = length p" using assms(2) by (simp add: c)
  ultimately show ?thesis
    using False blk by (auto simp: dec_tail_def s dc' w_def)
qed (use assms in \<open>auto simp: enc_tail_def dec_tail_def\<close>)

end

interpretation hx: keystream_block "helix_block sc" dc_z0 for sc
  by unfold_locales (simp add: helix_block_def)

section \<open>The counter and the precomputed key words\<close>

lemma helix_block_frame [simp]:
  "dc_x1 (snd (helix_block sc dc p)) = dc_x1 dc"
  "dc_n (snd (helix_block sc dc p)) = dc_n dc"
  "dc_iplus8 (snd (helix_block sc dc p)) = dc_iplus8 dc + 1"
  by (simp_all add: helix_block_def)

lemma helix_run_frame [simp]:
  "dc_x1 (helix_run sc ps dc) = dc_x1 dc"
  "dc_n (helix_run sc ps dc) = dc_n dc"
  "dc_iplus8 (helix_run sc ps dc) = dc_iplus8 dc + word_of_nat (length ps)"
  by (induction ps arbitrary: dc) (simp_all add: algebra_simps)

lemma unat_counter:
  "j < 2 ^ 32 \<Longrightarrow> unat (0x80000000 + word_of_nat j :: u64) = 2147483648 + j"
  by (simp add: unat_word_ariths unat_of_nat)

lemma MOD8_counter: "j < 2 ^ 32 \<Longrightarrow> MOD8 (0x80000000 + word_of_nat j) = j mod 8"
proof -
  assume j: "j < 2 ^ 32"
  have "(0x80000000 + word_of_nat j :: u64) AND 7 = take_bit 3 (0x80000000 + word_of_nat j)"
    by (simp add: take_bit_eq_mask mask_eq_decr_exp)
  then have "MOD8 (0x80000000 + word_of_nat j) = (2147483648 + j) mod 8"
    unfolding MOD8_def by (simp only: unsigned_take_bit_eq unat_counter [OF j]) (simp add: take_bit_nat_def)
  then show ?thesis by presburger
qed

lemma MOD4_counter: "j < 2 ^ 32 \<Longrightarrow> MOD4 (0x80000000 + word_of_nat j) = j mod 4"
proof -
  assume j: "j < 2 ^ 32"
  have "(0x80000000 + word_of_nat j :: u64) AND 3 = take_bit 2 (0x80000000 + word_of_nat j)"
    by (simp add: take_bit_eq_mask mask_eq_decr_exp)
  then have "MOD4 (0x80000000 + word_of_nat j) = (2147483648 + j) mod 4"
    unfolding MOD4_def by (simp only: unsigned_take_bit_eq unat_counter [OF j]) (simp add: take_bit_nat_def)
  then show ?thesis by presburger
qed

lemma counter_low:
  assumes "j < 2 ^ 32"
  shows "ucast (0x80000000 + word_of_nat j :: u64) = (0x80000000 + word_of_nat j :: u32)"
proof -
  have "ucast (0x80000000 + word_of_nat j :: u64) = (word_of_nat (2147483648 + j) :: u32)"
    using unat_counter [OF assms] by (metis of_nat_unat)
  then show ?thesis by simp
qed

lemma counter_high:
  assumes "j < 2 ^ 32"
  shows "ucast (drop_bit 32 (0x80000000 + word_of_nat j :: u64)) = (word_of_nat (j div 2 ^ 31) :: u32)"
proof -
  have "unat (drop_bit 32 (0x80000000 + word_of_nat j :: u64)) = (2147483648 + j) div 4294967296"
    using assms by (simp add: unsigned_drop_bit_eq drop_bit_nat_def take_bit_nat_def unat_counter)
  also have "\<dots> = j div 2147483648"
  proof (cases "j < 2147483648")
    case False
    with assms have "j div 2147483648 = 1" "(2147483648 + j) div 4294967296 = 1" by simp_all
    then show ?thesis by simp
  qed simp
  finally have "ucast (drop_bit 32 (0x80000000 + word_of_nat j :: u64)) = (word_of_nat (j div 2147483648) :: u32)"
    by (metis of_nat_unat)
  then show ?thesis by simp
qed

lemma length_words_of_bytes [len_simps]: "length (words_of_bytes bs) = length bs div 4"
  by (induction bs rule: words_of_bytes.induct) auto


lemma length_nonce_words: "length nonce = 16 \<Longrightarrow> length (dc_n (helix_nonce_init sc nonce)) = 8"
  by (simp add: helix_nonce_init_def Let_def length_words_of_bytes)

lemma helix_x1_matches_spec:
  assumes "j < 2 ^ 32" and "dc_iplus8 dc = 0x80000000 + word_of_nat j"
    and "dc_x1 dc = dc_x1 (helix_nonce_init sc nonce)" and "length nonce = 16"
  shows "helix_x1 dc = helix_x1_spec sc (dc_n (helix_nonce_init sc nonce)) j"
proof -
  have m: "j mod 8 < 8" "(j mod 8 + 4) mod 8 = (j + 4) mod 8" "j mod 8 mod 4 = j mod 4"
    by (simp_all add: mod_simps mod_mod_cancel)
  have tab: "dc_x1 dc ! (j mod 8) = sc_k sc ! ((j + 4) mod 8) + dc_n (helix_nonce_init sc nonce) ! (j mod 8)
      + (if j mod 4 = 1 then 4 * sc_l sc else 0) - 0x80000000"
    using m unfolding assms(3) by (simp add: helix_nonce_init_def Let_def)
  have "helix_x1 dc = dc_x1 dc ! (j mod 8) + (0x80000000 + word_of_nat j)
      + (if j mod 4 = 3 then word_of_nat (j div 2 ^ 31) else 0)"
    using assms(1) by (simp add: helix_x1_def Let_def assms(2) MOD8_counter MOD4_counter counter_low
        iplus8_high_def counter_high)
  then show ?thesis
    by (auto simp: tab helix_x1_spec_def)
qed

lemma helix_decrypt_encrypt:
  assumes "helix_encrypt sc dc p = Some (c, m, dc')"
  shows "helix_decrypt sc dc c = Some (p, m, dc') \<and> length c = length p"
proof -
  obtain c1 dc1 rest c2 dc2 where full: "enc_full (helix_block sc) dc p = (c1, dc1, rest)"
    and tail: "enc_tail (helix_block sc) dc1 rest = (c2, dc2)"
    and mac: "helix_mac sc dc2 (word_of_nat (length rest)) = (m, dc')"
    and c: "c = c1 @ c2" and magic: "sc_magic sc = HELIX_MAGIC"
    using assms by (auto simp: helix_encrypt_def split: prod.splits if_splits)
  have rest: "length rest < 4" using hx.dec_enc_full [OF full refl] by blast
  note t = hx.dec_enc_tail [OF tail rest]
  then obtain q where q: "p = q @ rest" "length c1 = length q"
      "dec_full (helix_block sc) dc_z0 dc (c1 @ c2) = (q, dc1, c2)"
    using hx.dec_enc_full [OF full, of c2] by auto
  show ?thesis
    using t q mac magic by (simp add: helix_decrypt_def c)
qed

lemma length_helix_mac: "helix_encrypt sc dc p = Some (c, m, dc') \<Longrightarrow> length m = 16"
  by (auto simp: helix_encrypt_def helix_mac_def Let_def split: prod.splits if_splits)


section \<open>Properties\<close>

text \<open>
  C13: decryption under the same key and nonce context recovers every plaintext, of any length,
  and recomputes the MAC that encryption appended, so an unmodified message always passes the
  integrity check of its receiver. The ciphertext is as long as the plaintext.
\<close>

theorem helix_roundtrip:
  assumes "helix_encrypt sc dc p = Some (c, m, dc')"
  shows "helix_decrypt sc dc c = Some (p, m, dc') \<and> length c = length p"
  using assms by (rule helix_decrypt_encrypt)

theorem helix_roundtrip_witness:
  "\<exists>sc dc c m dc'. helix_encrypt sc dc [1, 2, 3, 4, 5] = Some (c, m, dc')
     \<and> helix_decrypt sc dc c = Some ([1, 2, 3, 4, 5], m, dc')"
proof -
  define sc where "sc = \<lparr>sc_magic = HELIX_MAGIC, sc_l = 16, sc_k = replicate 8 0, sc_x0 = replicate 8 0\<rparr>"
  define dc where "dc = helix_nonce sc (replicate 16 0)"
  obtain c m dc' where enc: "helix_encrypt sc dc [1, 2, 3, 4, 5] = Some (c, m, dc')"
    by (cases "helix_encrypt sc dc [1, 2, 3, 4, 5]")
      (auto simp: helix_encrypt_def sc_def split: prod.splits)
  show ?thesis using enc helix_roundtrip [OF enc] by blast
qed

text \<open>
  The optimised key schedule is the specified one. The code keeps \<open>i + 8 + 2 ^ 31\<close> in a
  64-bit counter and subtracts \<open>2 ^ 31\<close> from the precomputed words, so that the high half of the
  counter can be added directly; the key word of every one of the first \<open>2 ^ 32\<close> blocks after
  \<open>helix_nonce\<close> starts equals the specification's word.
\<close>

theorem helix_key_schedule:
  assumes "length nonce = 16" and "length ps < 2 ^ 32"
  shows "helix_x1 (helix_run sc ps (helix_nonce_init sc nonce))
    = helix_x1_spec sc (dc_n (helix_nonce_init sc nonce)) (length ps)"
  by (rule helix_x1_matches_spec)
    (use assms in \<open>simp_all, simp add: helix_nonce_init_def Let_def\<close>)

theorem helix_key_schedule_witness:
  "\<exists>sc. helix_x1 (helix_run sc [5] (helix_nonce_init sc (replicate 16 0))) = 71"
proof -
  define sc where "sc = \<lparr>sc_magic = HELIX_MAGIC, sc_l = 16, sc_k = [1, 2, 3, 4, 5, 6, 7, 8], sc_x0 = replicate 8 0\<rparr>"
  have "helix_x1 (helix_run sc [5] (helix_nonce_init sc (replicate 16 0)))
      = helix_x1_spec sc (dc_n (helix_nonce_init sc (replicate 16 0))) (length [5 :: u32])"
    by (rule helix_key_schedule) simp_all
  also have "\<dots> = 71"
    unfolding sc_def by code_simp
  finally show ?thesis by blast
qed

text \<open>
  The bound is sharp in practice. At block count \<open>2 ^ 32 + 3\<close> the code's word is one less
  than the specification's, because the high half of the shifted counter is 1 where bits 31 to 62
  of the counter are 2: the comment in \<open>helix_block\<close> that the shift encodes bits 31..62 holds only
  below \<open>2 ^ 32\<close> blocks.
\<close>

theorem helix_key_schedule_limit:
  assumes "length nonce = 16" and "length ps = 2 ^ 32 + 3"
  shows "helix_x1 (helix_run sc ps (helix_nonce_init sc nonce)) + 1
    = helix_x1_spec sc (dc_n (helix_nonce_init sc nonce)) (length ps)"
proof -
  define dc where "dc = helix_run sc ps (helix_nonce_init sc nonce)"
  have i8: "dc_iplus8 dc = 0x180000003"
    using assms(2) by (simp add: dc_def, simp add: helix_nonce_init_def Let_def)
  have tab: "dc_x1 dc ! 3 = sc_k sc ! 7 + dc_n (helix_nonce_init sc nonce) ! 3 - 0x80000000"
    by (simp add: dc_def, simp add: helix_nonce_init_def Let_def)
  have "helix_x1 dc = dc_x1 dc ! 3 + 0x80000003 + 1"
    by (simp add: helix_x1_def i8 iplus8_high_def MOD8_def MOD4_def Let_def)
  then have "helix_x1 dc + 1 = sc_k sc ! 7 + dc_n (helix_nonce_init sc nonce) ! 3 + 5"
    by (simp add: tab)
  moreover have "helix_x1_spec sc (dc_n (helix_nonce_init sc nonce)) (length ps)
      = sc_k sc ! 7 + dc_n (helix_nonce_init sc nonce) ! 3 + 5"
    using assms(2) by (simp add: helix_x1_spec_def)
  ultimately show ?thesis by (simp add: dc_def)
qed

theorem helix_key_schedule_limit_witness:
  "\<exists>sc nonce ps. helix_x1 (helix_run sc ps (helix_nonce_init sc nonce))
     \<noteq> helix_x1_spec sc (dc_n (helix_nonce_init sc nonce)) (length ps)"
proof -
  fix sc :: helix_scontext_t
  have "helix_x1 (helix_run sc (replicate (2 ^ 32 + 3) 0) (helix_nonce_init sc (replicate 16 0))) + 1
    = helix_x1_spec sc (dc_n (helix_nonce_init sc (replicate 16 0))) (length (replicate (2 ^ 32 + 3) (0 :: u32)))"
    by (rule helix_key_schedule_limit) (simp_all only: length_replicate)
  then have "helix_x1 (helix_run sc (replicate (2 ^ 32 + 3) 0) (helix_nonce_init sc (replicate 16 0)))
    \<noteq> helix_x1_spec sc (dc_n (helix_nonce_init sc (replicate 16 0))) (length (replicate (2 ^ 32 + 3) (0 :: u32)))"
    by (metis add_cancel_left_right zero_neq_one)
  then show ?thesis by blast
qed

end
