(* ===== verification/Otpd_State_File.thy ===== *)
theory Otpd_State_File
  imports Otpd_Types
begin

text \<open>
  The user state on disk, \<^verbatim>\<open>src/state.c\<close>: the text format (\<open>state_parse\<close>, \<open>state_unparse\<close>) and the
  state file (\<open>state_read\<close>, \<open>state_write\<close>, \<open>_xwrite\<close> of \<^verbatim>\<open>src/xfunc.c\<close>).

  The file system is a map from path names to contents. What a system call returns is a parameter:
  \<open>io_t\<close> holds, for one pass through the code, whether \<open>open\<close>, \<open>lseek\<close> and \<open>rename\<close> fail, the name
  \<open>mkstemp\<close> picks, and the sequence of results of \<open>read\<close> and \<open>write\<close> (errors and short counts; when
  the sequence is used up the calls transfer all they are asked to). The theorems hold for every
  such behaviour.
\<close>

section \<open>Definitions\<close>

definition GSM_MAX_STATE_LEN :: nat where "GSM_MAX_STATE_LEN = 892"
definition PATH_MAX :: nat where "PATH_MAX = 4096"

subsection \<open>The text format\<close>

text \<open>One field: \<open>q = strchr (p, ':')\<close>, an error where there is none, then \<open>*q++ = 0\<close>.\<close>

definition next_field :: "string \<Rightarrow> (string \<times> string) cres" where
  "next_field p = (case strsep (CHR '':'') p of None \<Rightarrow> CErr (-1) | Some pq \<Rightarrow> COk pq)"

text \<open>\<open>sscanf (p, "%" SCNx32, &v) != 1\<close> is an error.\<close>

definition scan_field :: "string \<Rightarrow> (u32 \<times> string) cres" where
  "scan_field p = cbind (next_field p) (\<lambda>(f, q).
     case sscanf_x32 f of None \<Rightarrow> CErr (-1) | Some v \<Rightarrow> COk (v, q))"

definition challenge_field :: "string \<Rightarrow> state_t \<Rightarrow> (state_t \<times> string) cres" where
  "challenge_field p state = cbind (next_field p) (\<lambda>(f, q).
     if OTP_MAX_CHALLENGE_LEN * 2 < length f then CErr (-1)
     else if odd (length f) then CErr (-1)
     else case a2x f of
       None \<Rightarrow> CErr (-1)
     | Some bs \<Rightarrow> COk (state\<lparr>s_clen := length bs, s_challenge := memcpy (s_challenge state) bs (length bs)\<rparr>, q))"

definition csd_field :: "string \<Rightarrow> state_t \<Rightarrow> (state_t \<times> string) cres" where
  "csd_field p state = cbind (next_field p) (\<lambda>(f, q).
     if OTP_MAX_CSD_LEN < length f then CErr (-1) else COk (state\<lparr>s_csd := f\<rparr>, q))"

definition rd_field :: "string \<Rightarrow> state_t \<Rightarrow> (state_t \<times> string) cres" where
  "rd_field p state = cbind (next_field p) (\<lambda>(f, q).
     if OTP_MAX_RD_LEN < length f then CErr (-1) else COk (state\<lparr>s_rd := f\<rparr>, q))"

definition counter_fields :: "string \<Rightarrow> state_t \<Rightarrow> state_t cres" where
  "counter_fields p state =
     cbind (scan_field p) (\<lambda>(failcount, p).
     cbind (scan_field p) (\<lambda>(authtime, p).
     cbind (scan_field p) (\<lambda>(mincardtime, p).
       COk (state\<lparr>s_failcount := failcount, s_authtime := authtime, s_mincardtime := mincardtime\<rparr>))))"

text \<open>
  \<open>buf\<close> is the buffer up to \<open>buflen\<close>, which counts the terminator; all accesses after the length
  check stop at the first NUL, so they see \<open>cstr buf\<close>. On an error the caller drops the state.
\<close>

definition state_parse :: "string \<Rightarrow> string \<Rightarrow> state_t \<Rightarrow> state_t cres" where
  "state_parse buf username state =
     (if length buf = 0 then COk (state\<lparr>s_nullstate := True\<rparr>)
      else
        let state = state\<lparr>s_nullstate := False\<rparr>;
            ulen = length username;
            p = cstr buf
        in if length buf < 4 + ulen then CErr (-1)
           else if take 2 p \<noteq> ''5:'' then CErr (-1)
           else if \<not> (strneq (drop 2 p) username ulen \<and> take 1 (drop (2 + ulen) p) = '':'') then CErr (-1)
           else
             cbind (challenge_field (drop (2 + ulen + 1) p) state) (\<lambda>(state, p).
             cbind (csd_field p state) (\<lambda>(state, p).
             cbind (rd_field p state) (\<lambda>(state, p).
             counter_fields p state))))"

definition state_unparse :: "user_t \<Rightarrow> state_t \<Rightarrow> string" where
  "state_unparse user state =
     ''5:'' @ u_username user @ '':''
     @ x2a (s_challenge state) (s_clen state) x2a_hex_conversion @ '':''
     @ s_csd state @ '':'' @ s_rd state @ '':''
     @ fmt_x32 (s_failcount state) @ '':'' @ fmt_x32 (s_authtime state) @ '':''
     @ fmt_x32 (s_mincardtime state) @ '':''"

subsection \<open>The state file\<close>

datatype read_ev = ReadErr | ReadAgain | ReadN nat
datatype write_ev = WriteErr | WriteN nat

record io_t =
  io_open_err :: bool
  io_reads :: "read_ev list"
  io_lseek_err :: bool
  io_mkstemp :: "string option"
  io_writes :: "write_ev list"
  io_rename_err :: bool

type_synonym fs_t = "string \<Rightarrow> string option"

definition state_filename :: "string \<Rightarrow> string \<Rightarrow> string" where
  "state_filename statedir username = take (PATH_MAX - 1) (statedir @ ''/'' @ username)"

text \<open>
  The read loop: \<open>room\<close> octets of the buffer left, \<open>rest\<close> what is left of the file. A call returns at
  least one octet unless there is no room or no data left.
\<close>

fun read_loop :: "read_ev list \<Rightarrow> nat \<Rightarrow> string \<Rightarrow> string cres" where
  "read_loop [] room rest = COk (take room rest)"
| "read_loop (ev # evs) room rest =
     (if room = 0 \<or> rest = [] then COk []
      else case ev of
        ReadErr \<Rightarrow> CErr (-1)
      | ReadAgain \<Rightarrow> read_loop evs room rest
      | ReadN n \<Rightarrow>
          let r = min (Suc n) (min room (length rest))
          in cbind (read_loop evs (room - r) (drop r rest)) (\<lambda>b. COk (take r rest @ b)))"

definition state_read :: "io_t \<Rightarrow> fs_t \<Rightarrow> string \<Rightarrow> string \<Rightarrow> string cres" where
  "state_read io fs statedir username =
     (if io_open_err io then CErr (-1)
      else case fs (state_filename statedir username) of
        None \<Rightarrow> COk []
      | Some contents \<Rightarrow>
          cbind (read_loop (io_reads io) GSM_MAX_STATE_LEN contents) (\<lambda>buf.
            if length buf = GSM_MAX_STATE_LEN \<and> io_lseek_err io then CErr (-1)
            else if length buf = GSM_MAX_STATE_LEN \<and> length contents \<noteq> GSM_MAX_STATE_LEN then CErr (-1)
            else if buf = [] then COk []
            else if last buf = CHR 0x0A then COk (butlast buf @ [NUL])
            else COk (buf @ [NUL])))"

text \<open>\<open>_xwrite\<close>: what has been written, and whether all of it was.\<close>

fun xwrite :: "write_ev list \<Rightarrow> string \<Rightarrow> string \<times> bool" where
  "xwrite [] buf = (buf, True)"
| "xwrite (ev # evs) buf =
     (if buf = [] then ([], True)
      else case ev of
        WriteErr \<Rightarrow> ([], False)
      | WriteN n \<Rightarrow>
          let r = min n (length buf); (w, ok) = xwrite evs (drop r buf) in (take r buf @ w, ok))"

definition XXXXXX :: string where "XXXXXX = ''XXXXXX''"

text \<open>
  \<open>mkstemp\<close> needs a template that ends in six X and replaces them; it creates the file exclusively,
  so it fails where the name is taken.
\<close>

definition mkstemp :: "io_t \<Rightarrow> fs_t \<Rightarrow> string \<Rightarrow> string option" where
  "mkstemp io fs template =
     (case io_mkstemp io of
        None \<Rightarrow> None
      | Some suffix \<Rightarrow>
          let base = take (length template - 6) template; name = base @ take 6 suffix
          in if drop (length template - 6) template = XXXXXX \<and> fs name = None then Some name else None)"

definition add_newline :: "string \<Rightarrow> string" where
  "add_newline buf = (if buf \<noteq> [] \<and> last buf \<noteq> CHR 0x0A then buf @ [CHR 0x0A] else buf)"

definition state_write :: "io_t \<Rightarrow> fs_t \<Rightarrow> string \<Rightarrow> string \<Rightarrow> string \<Rightarrow> (unit cres \<times> fs_t)" where
  "state_write io fs statedir username buf =
     (case mkstemp io fs (take (PATH_MAX - 1) (statedir @ ''/'' @ username @ XXXXXX)) of
        None \<Rightarrow> (CErr (-1), fs)
      | Some tmp \<Rightarrow>
          (case xwrite (io_writes io) (add_newline buf) of
             (written, ok) \<Rightarrow>
               let fs1 = fs(tmp \<mapsto> written) in
               if \<not> ok then (CErr (-1), fs1(tmp := None))
               else if io_rename_err io then (CErr (-1), fs1(tmp := None))
               else (COk (), fs1(tmp := None, state_filename statedir username \<mapsto> written))))"

section \<open>Lemmas\<close>

text \<open>The well-formedness of a state that the format can carry.\<close>

definition state_wf :: "state_t \<Rightarrow> bool" where
  "state_wf st \<longleftrightarrow> length (s_challenge st) = OTP_MAX_CHALLENGE_LEN \<and> s_clen st \<le> OTP_MAX_CHALLENGE_LEN
     \<and> length (s_csd st) \<le> OTP_MAX_CSD_LEN \<and> CHR '':'' \<notin> set (s_csd st) \<and> no_nul (s_csd st)
     \<and> length (s_rd st) \<le> OTP_MAX_RD_LEN \<and> CHR '':'' \<notin> set (s_rd st) \<and> no_nul (s_rd st)"

lemma next_field_append [simp]: "CHR '':'' \<notin> set f \<Longrightarrow> next_field (f @ CHR '':'' # q) = COk (f, q)"
  by (simp add: next_field_def strsep_append)

lemma scan_field_fmt [simp]: "scan_field (fmt_x32 w @ CHR '':'' # q) = COk (w, q)"
  by (simp add: scan_field_def fmt_x32_no_colon)

lemma x2a_hex_chars: "c \<in> set (x2a bs n x2a_hex_conversion) \<Longrightarrow> c \<noteq> CHR '':'' \<and> c \<noteq> NUL"
  by (drule x2a_set) (auto simp: x2a_hex_conversion_def)

lemma x2a_hex_ok [simp]:
  "CHR '':'' \<notin> set (x2a bs n x2a_hex_conversion)" "no_nul (x2a bs n x2a_hex_conversion)"
  using x2a_hex_chars by (auto simp: no_nul_def)

lemma challenge_field_x2a:
  assumes "n \<le> length bs" and "n \<le> OTP_MAX_CHALLENGE_LEN"
  shows "challenge_field (x2a bs n x2a_hex_conversion @ CHR '':'' # q) st =
    COk (st\<lparr>s_clen := n, s_challenge := memcpy (s_challenge st) (take n bs) n\<rparr>, q)"
  using assms by (simp add: challenge_field_def length_x2a a2x_def a2nx_x2a)

lemma no_nul_state_unparse:
  "state_wf st \<Longrightarrow> no_nul (u_username user) \<Longrightarrow> no_nul (state_unparse user st)"
  by (simp add: state_unparse_def state_wf_def fmt_x32_no_nul)

lemma read_loop_complete:
  "read_loop evs room rest = COk (take room rest) \<or> read_loop evs room rest = CErr (-1)"
proof (induction evs arbitrary: room rest)
  case (Cons ev evs)
  show ?case
  proof (cases ev)
    case (ReadN n)
    define r where "r = min (Suc n) (min room (length rest))"
    have "r \<le> room" by (simp add: r_def)
    then have join: "take r rest @ take (room - r) (drop r rest) = take room rest"
      by (metis le_add_diff_inverse take_add)
    show ?thesis
    proof (cases "room = 0 \<or> rest = []")
      case False
      then have "read_loop (ev # evs) room rest =
          cbind (read_loop evs (room - r) (drop r rest)) (\<lambda>b. COk (take r rest @ b))"
        by (simp add: ReadN r_def Let_def)
      with Cons.IH [of "room - r" "drop r rest"] join show ?thesis by auto
    qed auto
  qed (use Cons in auto)
qed simp

lemma xwrite_complete: "xwrite evs buf = (w, True) \<Longrightarrow> w = buf"
proof (induction evs arbitrary: buf w)
  case (Cons ev evs)
  then show ?case
    by (cases ev) (auto simp: Let_def split: if_splits prod.splits, metis append_take_drop_id)
qed simp

lemma mkstemp_fresh: "mkstemp io fs template = Some tmp \<Longrightarrow> fs tmp = None"
  by (auto simp: mkstemp_def Let_def split: option.splits if_splits)

text \<open>Writing the state is all or nothing.\<close>

lemma state_write_cases:
  "state_write io fs dir u buf = (CErr (-1), fs)
   \<or> state_write io fs dir u buf = (COk (), fs(state_filename dir u \<mapsto> add_newline buf))"
proof (cases "mkstemp io fs (take (PATH_MAX - 1) (dir @ ''/'' @ u @ XXXXXX))")
  case (Some tmp)
  obtain w ok where w: "xwrite (io_writes io) (add_newline buf) = (w, ok)" by fastforce
  have fresh: "fs tmp = None" using mkstemp_fresh [OF Some] .
  then have undo: "(fs(tmp \<mapsto> w))(tmp := None) = fs" by auto
  show ?thesis
    using Some w undo xwrite_complete [of "io_writes io" "add_newline buf" w]
    by (cases ok) (auto simp: state_write_def Let_def)
qed (simp add: state_write_def)

text \<open>What a complete write leaves is what a complete read returns.\<close>

lemma state_read_cases:
  "state_read io fs dir u = CErr (-1)
   \<or> (state_read io fs dir u = COk [] \<and> fs (state_filename dir u) \<in> {None, Some []})
   \<or> (\<exists>c. fs (state_filename dir u) = Some c \<and> c \<noteq> [] \<and> length c \<le> GSM_MAX_STATE_LEN
        \<and> state_read io fs dir u = COk ((if last c = CHR 0x0A then butlast c else c) @ [NUL]))"
proof (cases "fs (state_filename dir u)")
  case (Some c)
  define rd where "rd = read_loop (io_reads io) GSM_MAX_STATE_LEN c"
  have eq: "state_read io fs dir u = (if io_open_err io then CErr (-1) else cbind rd (\<lambda>buf.
      if length buf = GSM_MAX_STATE_LEN \<and> io_lseek_err io then CErr (-1)
      else if length buf = GSM_MAX_STATE_LEN \<and> length c \<noteq> GSM_MAX_STATE_LEN then CErr (-1)
      else if buf = [] then COk []
      else if last buf = CHR 0x0A then COk (butlast buf @ [NUL])
      else COk (buf @ [NUL])))"
    by (simp add: state_read_def Some rd_def)
  from read_loop_complete [of "io_reads io" GSM_MAX_STATE_LEN c]
  consider "rd = CErr (-1)" | "rd = COk c" "length c \<le> GSM_MAX_STATE_LEN"
    | "rd = COk (take GSM_MAX_STATE_LEN c)" "GSM_MAX_STATE_LEN < length c"
    unfolding rd_def by (metis not_le take_all)
  then show ?thesis
  proof cases
    case 2
    then show ?thesis by (cases "c = []") (simp_all add: eq Some)
  qed (simp_all add: eq)
qed (simp add: state_read_def)

lemma state_read_written:
  assumes "fs (state_filename dir u) = Some (add_newline s)" and "s \<noteq> []" and "last s \<noteq> CHR 0x0A"
  shows "state_read io fs dir u = CErr (-1) \<or> state_read io fs dir u = COk (s @ [NUL])"
  using state_read_cases [of io fs dir u] assms by (auto simp: add_newline_def)

text \<open>The text format is self-delimiting: the state comes back, but for its bookkeeping members.\<close>

definition same_state :: "state_t \<Rightarrow> state_t \<Rightarrow> bool" where
  "same_state st' st \<longleftrightarrow> take (s_clen st) (s_challenge st') = take (s_clen st) (s_challenge st) \<and> s_clen st' = s_clen st
     \<and> s_csd st' = s_csd st \<and> s_rd st' = s_rd st \<and> s_failcount st' = s_failcount st
     \<and> s_authtime st' = s_authtime st \<and> s_mincardtime st' = s_mincardtime st \<and> \<not> s_nullstate st'"

lemma state_parse_unparse_eq:
  assumes wf: "state_wf st" and u: "no_nul (u_username user)"
  shows "state_parse (state_unparse user st @ [NUL]) (u_username user) st0 =
    COk (st0\<lparr>s_nullstate := False, s_clen := s_clen st,
      s_challenge := memcpy (s_challenge st0) (take (s_clen st) (s_challenge st)) (s_clen st),
      s_csd := s_csd st, s_rd := s_rd st, s_failcount := s_failcount st, s_authtime := s_authtime st,
      s_mincardtime := s_mincardtime st\<rparr>)"
proof -
  have c: "cstr (state_unparse user st @ [NUL]) = state_unparse user st"
    using no_nul_state_unparse [OF wf u] by simp
  show ?thesis
    using wf unfolding state_parse_def c
    by (simp add: state_unparse_def strneq_def state_wf_def challenge_field_x2a csd_field_def rd_field_def
        counter_fields_def Let_def)
qed

section \<open>Properties\<close>

text \<open>
  C14: the state file format round trip. What \<open>state_unparse\<close> writes for a well-formed state,
  \<open>state_parse\<close> accepts for the same user name (colons in it included) and reads back: the previous
  challenge, card and resynchronisation data, and all three counters at full width.
\<close>

theorem state_parse_unparse:
  assumes "state_wf st" and "no_nul (u_username user)"
  shows "\<exists>st'. state_parse (state_unparse user st @ [NUL]) (u_username user) st0 = COk st' \<and> same_state st' st"
  using state_parse_unparse_eq [OF assms, of st0] assms(1)
  by (simp add: same_state_def state_wf_def memcpy_def min_def)

theorem state_parse_unparse_witness:
  "\<exists>st'. state_parse (state_unparse sample_user (state_zero\<lparr>s_clen := 8, s_rd := ''1f'', s_failcount := 3\<rparr>) @ [NUL]) ''joe'' state_zero = COk st'
     \<and> s_failcount st' = 3 \<and> s_rd st' = ''1f''"
proof -
  define st where "st = state_zero\<lparr>s_clen := 8, s_rd := ''1f'', s_failcount := 3\<rparr>"
  have "state_wf st" by (simp add: st_def state_wf_def state_zero_def max_defs)
  from state_parse_unparse [OF this, of sample_user state_zero] show ?thesis
    by (auto simp: same_state_def st_def [symmetric] sample_user_def) (auto simp: st_def)
qed

text \<open>
  C18: updating the state file is atomic. Whatever \<open>mkstemp\<close>, \<open>write\<close> and \<open>rename\<close> return, the file
  system afterwards either is unchanged and the call reports failure, or differs exactly in the
  user's state file, which holds the complete new state.
\<close>

theorem state_write_atomic:
  "state_write io fs dir u buf = (CErr (-1), fs)
   \<or> state_write io fs dir u buf = (COk (), fs(state_filename dir u \<mapsto> add_newline buf))"
  by (rule state_write_cases)

text \<open>
  Reading a state file. Short reads and interrupted calls do not change what is read: the result
  is an error, or null state for a missing or empty file, or the whole contents with the final line
  feed replaced by the terminator; contents beyond the buffer are never cut silently.
\<close>

theorem state_read_complete:
  "state_read io fs dir u = CErr (-1)
   \<or> (state_read io fs dir u = COk [] \<and> fs (state_filename dir u) \<in> {None, Some []})
   \<or> (\<exists>c. fs (state_filename dir u) = Some c \<and> c \<noteq> [] \<and> length c \<le> GSM_MAX_STATE_LEN
        \<and> state_read io fs dir u = COk ((if last c = CHR 0x0A then butlast c else c) @ [NUL]))"
  by (rule state_read_cases)

end
