(* ===== verification/Otpd_Gsm.thy ===== *)
theory Otpd_Gsm
  imports Otpd_Uhash Otpd_Helix Otpd_State_File
begin

text \<open>
  The exchange with a global state manager, \<open>gsmd ()\<close> of \<^verbatim>\<open>src/state.c\<close>: the request packet, the
  checks on a response, and the transmit and receive loop.

  The network is a parameter: a list of \<open>net_ev\<close>, one per pass of the loop, each with the clock
  reading at the end of its pass. When the list is used up no answer comes any more, so the loop
  runs into its timeout. The response buffer is on the stack of the caller; its contents beyond a
  received packet are whatever was there before (the argument \<open>pp\<close>).
\<close>

section \<open>Definitions\<close>

definition HELIX_NONCE_LEN :: nat where "HELIX_NONCE_LEN = 16"
definition HELIX_MAC_LEN :: nat where "HELIX_MAC_LEN = 16"
definition GSM_MAX_MSG_LEN :: nat where "GSM_MAX_MSG_LEN = 936"
definition GSM_ULTRA_MSG_LEN :: nat where
  "GSM_ULTRA_MSG_LEN = HELIX_NONCE_LEN + GSM_MAX_MSG_LEN + HELIX_MAC_LEN"

definition ROUND4 :: "nat \<Rightarrow> nat" where "ROUND4 n = n - n mod 4"

text \<open>The message with its terminator, padded with NULs to a multiple of four octets.\<close>

definition gsm_pad :: "string \<Rightarrow> byte list" where
  "gsm_pad cmsg = (let len = length cmsg + 1; plen = ROUND4 (len + 3)
     in bytes_of cmsg @ replicate (plen - length cmsg) 0)"

definition gsm_nonce :: "u32 \<times> u32 \<Rightarrow> string \<Rightarrow> u32 \<Rightarrow> byte list" where
  "gsm_nonce streamid cmsg seq =
     (let len = length cmsg + 1
      in le32_bytes (fst streamid) @ le32_bytes (snd streamid)
         @ [word_of_nat (len mod 256), word_of_nat (len div 256 mod 256), byte_of (hd (cmsg @ [NUL])), 0]
         @ le32_bytes seq)"

text \<open>
  \<open>nonce | ciphertext | MAC\<close>. The result of \<open>helix_encrypt\<close> is ignored by the code; without a
  valid key context the message would stay in clear.
\<close>

definition gsm_packet :: "helix_scontext_t \<Rightarrow> byte list \<Rightarrow> byte list \<Rightarrow> byte list" where
  "gsm_packet sc nonce msg = nonce @
     (case helix_encrypt sc (helix_nonce sc nonce) msg of
        Some (c, m, _) \<Rightarrow> c @ m
      | None \<Rightarrow> msg @ replicate HELIX_MAC_LEN 0)"

text \<open>The outcome of one received packet.\<close>

datatype gsm_verdict = GsmOk nat "byte list" | GsmRetry "byte list" | GsmNak "byte list" | GsmBad

text \<open>\<open>pmsg[i]\<close>: the octet \<open>i\<close> after the nonce in the response buffer.\<close>

definition pmsg_at :: "byte list \<Rightarrow> nat \<Rightarrow> byte" where
  "pmsg_at pp i = pp ! (HELIX_NONCE_LEN + i)"

text \<open>
  Decrypt in place and check. \<open>pp\<close> is the buffer with the packet of \<open>rlen\<close> octets at its start. The
  length check is on signed numbers, so it bounds the padding but not a length that exceeds the
  packet.
\<close>

definition gsm_decrypt :: "helix_scontext_t \<Rightarrow> byte list \<Rightarrow> nat \<Rightarrow> byte list option" where
  "gsm_decrypt sc pp rlen =
     (case helix_decrypt sc (helix_nonce sc (take HELIX_NONCE_LEN pp))
             (drop HELIX_NONCE_LEN (take (rlen - HELIX_MAC_LEN) pp)) of
        None \<Rightarrow> None
      | Some (p, m, _) \<Rightarrow>
          if m = take HELIX_MAC_LEN (drop (rlen - HELIX_MAC_LEN) pp)
          then Some (take HELIX_NONCE_LEN pp @ p @ drop (rlen - HELIX_MAC_LEN) pp) else None)"

definition gsm_response :: "helix_scontext_t \<Rightarrow> string \<Rightarrow> u32 \<Rightarrow> byte list \<Rightarrow> nat \<Rightarrow> gsm_verdict" where
  "gsm_response sc username seq pp rlen =
     (let ulen = length username in
      if rlen < HELIX_NONCE_LEN + 3 + ulen + HELIX_MAC_LEN then GsmBad
      else case gsm_decrypt sc pp rlen of
        None \<Rightarrow> GsmBad
      | Some pp \<Rightarrow>
          let len = unat (pp ! 8) + unat (pp ! 9) * 256 in
          if len < 3 + ulen \<or> GSM_MAX_MSG_LEN < len
             \<or> 3 < int rlen - int (HELIX_NONCE_LEN + HELIX_MAC_LEN) - int len then GsmBad
          else if le32 (pp ! 12) (pp ! 13) (pp ! 14) (pp ! 15) \<noteq> seq then GsmRetry pp
          else if pmsg_at pp 1 \<noteq> byte_of (CHR '' '') then GsmBad
          else if \<not> (take ulen (drop (HELIX_NONCE_LEN + 2) pp) = bytes_of username
                     \<and> (pmsg_at pp (ulen + 2) = byte_of (CHR '' '') \<or> pmsg_at pp (ulen + 2) = 0)) then GsmBad
          else if pmsg_at pp (len - 1) \<noteq> 0 then GsmBad
          else if pmsg_at pp 0 = byte_of (CHR ''A'') then GsmOk len pp
          else if pmsg_at pp 0 = byte_of (CHR ''N'') then GsmNak pp
          else GsmBad)"

text \<open>
  One pass of the loop: what \<open>send\<close>, \<open>poll\<close> and \<open>recv\<close> did. \<open>NetRefused\<close> is \<open>ECONNREFUSED\<close> from
  \<open>recv\<close>; \<open>NetErr\<close> any other error that ends the exchange; \<open>NetAgain\<close> an error that leads to the
  next pass.
\<close>

datatype net_ev = NetAgain | NetErr | NetTimeout | NetRefused | NetRecv "byte list"

text \<open>
  The loop: remaining time, last clock reading, the failover flag, the response buffer. The result is
  the response length and buffer, or the failover flag of a failure that reaches the label
  \<open>failover\<close> (\<open>None\<close> for an immediate error).
\<close>

fun gsm_loop :: "helix_scontext_t \<Rightarrow> string \<Rightarrow> u32 \<Rightarrow> (net_ev \<times> int) list \<Rightarrow> int \<Rightarrow> int \<Rightarrow> bool \<Rightarrow> byte list \<Rightarrow>
    bool option + nat \<times> byte list" where
  "gsm_loop sc username seq [] timeout hrlast failover pp = Inl (Some failover)"
| "gsm_loop sc username seq ((ev, now) # evs) timeout hrlast failover pp =
     (if timeout < 250000000 then Inl (Some failover)
      else
        let again = gsm_loop sc username seq evs (timeout - (now - hrlast)) now in
        case ev of
          NetAgain \<Rightarrow> again failover pp
        | NetErr \<Rightarrow> Inl None
        | NetTimeout \<Rightarrow> again failover pp
        | NetRefused \<Rightarrow> Inl (Some failover)
        | NetRecv pkt \<Rightarrow>
            let rlen = min GSM_ULTRA_MSG_LEN (length pkt) in
            case gsm_response sc username seq (memcpy pp pkt rlen) rlen of
              GsmBad \<Rightarrow> Inl None
            | GsmRetry pp \<Rightarrow> again failover pp
            | GsmNak pp \<Rightarrow> again False pp
            | GsmOk len pp \<Rightarrow> Inr (len, pp))"

text \<open>
  \<open>gsmd ()\<close>: the new sequence number is the next nonce for a GET and one more than the one of the GET
  for a PUT. Besides the response, the packet that was sent, the state with its sequence number, the
  global nonce and whether the failover thread is signalled.
\<close>

record gsmd_out =
  go_packet :: "byte list"
  go_state :: state_t
  go_seq :: u32
  go_post :: bool
  go_reply :: "(nat \<times> byte list) option"

definition gsmd :: "helix_scontext_t gsmd_t \<Rightarrow> int \<Rightarrow> user_t \<Rightarrow> state_t \<Rightarrow> string \<Rightarrow> u32 \<times> u32 \<Rightarrow> u32 \<Rightarrow>
    (net_ev \<times> int) list \<Rightarrow> int \<Rightarrow> byte list \<Rightarrow> gsmd_out" where
  "gsmd g timeout user state cmsg streamid seq net hr0 pp =
     (let seq' = (if take 1 cmsg = ''G'' then nonce32 seq else seq);
          state = state\<lparr>s_gseq := if take 1 cmsg = ''G'' then seq' else s_gseq state + 1\<rparr>;
          packet = gsm_packet (g_scontext g) (gsm_nonce streamid cmsg (s_gseq state)) (gsm_pad cmsg);
          res = gsm_loop (g_scontext g) (u_username user) (s_gseq state) net timeout hr0 True pp
      in \<lparr>go_packet = packet, go_state = state, go_seq = seq',
          go_post = (case res of Inl (Some True) \<Rightarrow> g_n g = 2 \<and> s_gactive state = 0 | _ \<Rightarrow> False),
          go_reply = (case res of Inr r \<Rightarrow> Some r | Inl _ \<Rightarrow> None)\<rparr>)"

section \<open>Lemmas\<close>

lemma gsm_loop_reply:
  "gsm_loop sc username seq net timeout hrlast failover pp = Inr (len, pp') \<Longrightarrow>
   \<exists>pkt now pp0. (NetRecv pkt, now) \<in> set net
     \<and> gsm_response sc username seq (memcpy pp0 pkt (min GSM_ULTRA_MSG_LEN (length pkt))) (min GSM_ULTRA_MSG_LEN (length pkt))
        = GsmOk len pp'"
proof (induction net arbitrary: timeout hrlast failover pp)
  case (Cons evt net)
  obtain ev now where evt: "evt = (ev, now)" by (cases evt)
  have "(\<exists>t h f p. gsm_loop sc username seq net t h f p = Inr (len, pp')) \<or> (\<exists>pkt. ev = NetRecv pkt
      \<and> gsm_response sc username seq (memcpy pp pkt (min GSM_ULTRA_MSG_LEN (length pkt))) (min GSM_ULTRA_MSG_LEN (length pkt))
        = GsmOk len pp')"
    using Cons.prems by (cases ev) (auto simp: evt Let_def split: if_splits gsm_verdict.splits)
  with Cons.IH show ?case unfolding evt by (metis list.set_intros)
qed simp

lemma gsm_response_ok:
  "gsm_response sc username seq pp rlen = GsmOk len pp' \<Longrightarrow>
     gsm_decrypt sc pp rlen = Some pp' \<and> le32 (pp' ! 12) (pp' ! 13) (pp' ! 14) (pp' ! 15) = seq
     \<and> pmsg_at pp' 0 = byte_of (CHR ''A'') \<and> take (length username) (drop (HELIX_NONCE_LEN + 2) pp') = bytes_of username
     \<and> 3 + length username \<le> len \<and> len \<le> GSM_MAX_MSG_LEN \<and> pmsg_at pp' (len - 1) = 0"
  by (auto simp: gsm_response_def Let_def split: if_splits option.splits)

text \<open>Requests: the sequence numbers, and what the state manager decrypts.\<close>

lemma gsm_pad_eq:
  "\<exists>k. gsm_pad cmsg = bytes_of cmsg @ 0 # replicate k 0 \<and> k \<le> 3 \<and> length (gsm_pad cmsg) = length cmsg + 1 + k"
proof -
  define n where "n = length cmsg"
  have "ROUND4 (n + 1 + 3) - n = Suc (3 - n mod 4)"
    unfolding ROUND4_def by presburger
  then have "gsm_pad cmsg = bytes_of cmsg @ 0 # replicate (3 - n mod 4) 0"
    by (simp add: gsm_pad_def Let_def n_def)
  then show ?thesis by (intro exI [of _ "3 - n mod 4"]) simp
qed

lemma length_gsm_nonce [simp]: "length (gsm_nonce sid cmsg seq) = 16"
  by (simp add: gsm_nonce_def Let_def)

lemma nth_len4: "length a = 4 \<Longrightarrow> length b = 4 \<Longrightarrow>
   (a @ b @ [c0, c1, c2, c3] @ d) ! 8 = c0 \<and> (a @ b @ [c0, c1, c2, c3] @ d) ! 9 = c1
   \<and> drop 12 (a @ b @ [c0, c1, c2, c3] @ d) = d"
  by (simp add: nth_append)

lemma gsm_nonce_fields:
  "gsm_nonce sid cmsg seq ! 8 = word_of_nat ((length cmsg + 1) mod 256)"
  "gsm_nonce sid cmsg seq ! 9 = word_of_nat ((length cmsg + 1) div 256 mod 256)"
  "drop 12 (gsm_nonce sid cmsg seq) = le32_bytes seq"
  unfolding gsm_nonce_def Let_def
  using nth_len4 [of "le32_bytes (fst sid)" "le32_bytes (snd sid)"] by simp_all

lemma gsm_nonce_seq:
  "le32 (gsm_nonce sid cmsg seq ! 12) (gsm_nonce sid cmsg seq ! 13) (gsm_nonce sid cmsg seq ! 14)
     (gsm_nonce sid cmsg seq ! 15) = seq"
proof -
  define n where "n = gsm_nonce sid cmsg seq"
  have "length n = 16" "drop 12 n = le32_bytes seq" by (simp_all add: n_def gsm_nonce_fields)
  then have "n ! 12 = le32_bytes seq ! 0" "n ! 13 = le32_bytes seq ! 1" "n ! 14 = le32_bytes seq ! 2"
    "n ! 15 = le32_bytes seq ! 3"
    using nth_drop [of 12 n] by (simp_all add: \<open>drop 12 n = le32_bytes seq\<close> [symmetric])
  then show ?thesis
    using le32_le32_bytes [OF le32_bytes_def [of seq]] by (simp add: n_def [symmetric] le32_bytes_def)
qed

text \<open>A packet built by \<open>gsm_packet\<close>, received whole, decrypts to its message.\<close>

lemma gsm_decrypt_packet:
  assumes "sc_magic sc = HELIX_MAGIC" and "length nonce = 16"
  shows "\<exists>mac. gsm_packet sc nonce msg = nonce @ drop 16 (gsm_packet sc nonce msg)
    \<and> length (gsm_packet sc nonce msg) = 32 + length msg
    \<and> gsm_decrypt sc (gsm_packet sc nonce msg @ rest) (length (gsm_packet sc nonce msg)) = Some (nonce @ msg @ mac @ rest)"
proof -
  obtain c m dc where enc: "helix_encrypt sc (helix_nonce sc nonce) msg = Some (c, m, dc)"
    using assms(1) by (cases "helix_encrypt sc (helix_nonce sc nonce) msg")
      (auto simp: helix_encrypt_def split: prod.splits)
  note dec = helix_decrypt_encrypt [OF enc] and mac = length_helix_mac [OF enc]
  have pkt: "gsm_packet sc nonce msg = nonce @ c @ m" by (simp add: gsm_packet_def enc)
  have len: "length (gsm_packet sc nonce msg) = 32 + length msg" using dec mac assms(2) by (simp add: pkt)
  show ?thesis
    using dec mac assms(2) len
    by (intro exI [of _ m]) (simp add: pkt gsm_decrypt_def HELIX_NONCE_LEN_def HELIX_MAC_LEN_def)
qed

lemma gsm_response_packet:
  fixes u body sid seq sc rest
  defines "msg \<equiv> ''A '' @ u @ '' '' @ body"
  defines "pkt \<equiv> gsm_packet sc (gsm_nonce sid msg seq) (gsm_pad msg)"
  assumes magic: "sc_magic sc = HELIX_MAGIC" and len: "length msg < GSM_MAX_MSG_LEN"
  shows "\<exists>pp'. gsm_response sc u seq (pkt @ rest) (length pkt) = GsmOk (length msg + 1) pp'
    \<and> take (length msg + 1 - (3 + length u)) (drop (HELIX_NONCE_LEN + (3 + length u)) pp') = bytes_of (body @ [NUL])"
proof -
  obtain k where pad: "gsm_pad msg = bytes_of msg @ 0 # replicate k 0" "k \<le> 3"
      "length (gsm_pad msg) = length msg + 1 + k"
    using gsm_pad_eq [of msg] by blast
  define n where "n = gsm_nonce sid msg seq"
  obtain mac where dec: "gsm_decrypt sc (pkt @ rest) (length pkt) = Some (n @ gsm_pad msg @ mac @ rest)"
      and plen: "length pkt = 32 + (length msg + 1 + k)"
    using gsm_decrypt_packet [of sc n "gsm_pad msg" rest] magic pad(3) by (auto simp: pkt_def n_def)
  define pp' where "pp' = n @ gsm_pad msg @ mac @ rest"
  have n16: "length n = 16" by (simp add: n_def)
  have hdr: "pp' ! i = n ! i" if "i < 16" for i using that n16 by (simp add: pp'_def nth_append)
  have at: "pmsg_at pp' i = (bytes_of msg @ 0 # replicate k 0 @ mac @ rest) ! i" for i
    using n16 by (simp add: pmsg_at_def pp'_def pad(1) HELIX_NONCE_LEN_def nth_append)
  have body: "drop (16 + j) pp' = drop j (bytes_of msg @ 0 # replicate k 0 @ mac @ rest)" for j
    using n16 by (simp add: pp'_def pad(1))
  have l: "length msg + 1 < 65536" using len by (simp add: GSM_MAX_MSG_LEN_def)
  have "unat (word_of_nat ((length msg + 1) mod 256) :: byte) = (length msg + 1) mod 256"
    "unat (word_of_nat ((length msg + 1) div 256 mod 256) :: byte) = (length msg + 1) div 256"
    using l by (simp_all add: unat_of_nat)
  then have L: "unat (pp' ! 8) + unat (pp' ! 9) * 256 = length msg + 1"
    by (simp only: hdr n_def gsm_nonce_fields) simp
  have S: "le32 (pp' ! 12) (pp' ! 13) (pp' ! 14) (pp' ! 15) = seq"
    using gsm_nonce_seq [of sid msg seq] by (simp add: hdr n_def)
  have msg: "bytes_of msg = byte_of (CHR ''A'') # byte_of (CHR '' '') # bytes_of u @ byte_of (CHR '' '') # bytes_of body"
    "length msg = 3 + length u + length body" by (simp_all add: msg_def)
  have A: "pmsg_at pp' 0 = byte_of (CHR ''A'')" "pmsg_at pp' 1 = byte_of (CHR '' '')"
      "pmsg_at pp' (length u + 2) = byte_of (CHR '' '')" "pmsg_at pp' (length msg) = 0"
    by (simp_all add: at msg nth_append)
  have U: "take (length u) (drop (HELIX_NONCE_LEN + 2) pp') = bytes_of u"
    using body [of 2] by (simp add: HELIX_NONCE_LEN_def msg)
  have "gsm_response sc u seq (pkt @ rest) (length pkt) = GsmOk (length msg + 1) pp'"
    unfolding gsm_response_def dec pp'_def [symmetric]
    using len plen pad(2) msg(2) L S A U
    by (simp add: Let_def HELIX_NONCE_LEN_def HELIX_MAC_LEN_def add.assoc)
  moreover have "byte_of NUL = 0" by (simp add: byte_of_def)
  then have "take (length msg + 1 - (3 + length u)) (drop (HELIX_NONCE_LEN + (3 + length u)) pp') = bytes_of (body @ [NUL])"
    unfolding HELIX_NONCE_LEN_def body by (simp add: msg numeral_3_eq_3)
  ultimately show ?thesis by blast
qed

lemma gsmd_acknowledged:
  fixes body sid' user g
  defines "msg \<equiv> ''A '' @ u_username user @ '' '' @ body"
  assumes "sc_magic (g_scontext g) = HELIX_MAGIC" and "length msg < GSM_MAX_MSG_LEN"
    and "length pp = GSM_ULTRA_MSG_LEN" and "250000000 \<le> timeout" and "take 1 cmsg = ''G''"
  shows "\<exists>pp'. go_reply (gsmd g timeout user state cmsg sid seq
        ((NetRecv (gsm_packet (g_scontext g) (gsm_nonce sid' msg (nonce32 seq)) (gsm_pad msg)), t) # net) hr0 pp)
      = Some (length msg + 1, pp')
    \<and> take (length msg + 1 - (3 + length (u_username user))) (drop (HELIX_NONCE_LEN + (3 + length (u_username user))) pp')
      = bytes_of (body @ [NUL])"
proof -
  define pkt where "pkt = gsm_packet (g_scontext g) (gsm_nonce sid' msg (nonce32 seq)) (gsm_pad msg)"
  obtain k where "length (gsm_pad msg) = length msg + 1 + k" "k \<le> 3" using gsm_pad_eq [of msg] by blast
  moreover have "length (gsm_pad msg) mod 4 = 0"
    by (simp add: gsm_pad_def ROUND4_def Let_def) presburger
  ultimately have "length (gsm_pad msg) \<le> 936" using assms(3) by (simp add: GSM_MAX_MSG_LEN_def) presburger
  then have plen: "length pkt \<le> GSM_ULTRA_MSG_LEN"
    using gsm_decrypt_packet [of "g_scontext g" "gsm_nonce sid' msg (nonce32 seq)" "gsm_pad msg" "[]"] assms(2)
    by (auto simp: pkt_def GSM_ULTRA_MSG_LEN_def HELIX_NONCE_LEN_def HELIX_MAC_LEN_def GSM_MAX_MSG_LEN_def)
  then have min: "min GSM_ULTRA_MSG_LEN (length pkt) = length pkt" by simp
  have mem: "memcpy pp pkt (length pkt) = pkt @ drop (length pkt) pp" by (simp add: memcpy_def)
  obtain pp' where "gsm_response (g_scontext g) (u_username user) (nonce32 seq) (pkt @ drop (length pkt) pp) (length pkt)
      = GsmOk (length msg + 1) pp'"
    and "take (length msg + 1 - (3 + length (u_username user))) (drop (HELIX_NONCE_LEN + (3 + length (u_username user))) pp')
      = bytes_of (body @ [NUL])"
    using gsm_response_packet [where sc = "g_scontext g" and u = "u_username user" and body = body
        and sid = sid' and seq = "nonce32 seq" and rest = "drop (length pkt) pp"] assms(2,3)
    unfolding pkt_def msg_def by blast
  then show ?thesis
    using assms(5,6) unfolding pkt_def [symmetric]
    by (simp add: gsmd_def Let_def min mem)
qed

lemma gsmd_sample_reply:
  fixes net pp
  defines "g \<equiv> \<lparr>g_name = ''g'', g_n = 1, g_active = 0, g_fo_timeout = 0, g_fb_timeout = 0,
    g_scontext = \<lparr>sc_magic = HELIX_MAGIC, sc_l = 16, sc_k = replicate 8 7, sc_x0 = replicate 8 7\<rparr>\<rparr>"
  shows "\<exists>net len pp'. go_reply (gsmd g 1000000000 sample_user state_zero ''G joe'' (1, 2) 0 net 0
      (replicate GSM_ULTRA_MSG_LEN 0)) = Some (len, pp')"
proof -
  have "u_username sample_user = ''joe''" by (simp add: sample_user_def)
  then show ?thesis
    using gsmd_acknowledged [of g sample_user "''5:''" "replicate GSM_ULTRA_MSG_LEN 0" 1000000000 "''G joe''"
        state_zero "(1, 2)" 0 "(3, 4)" 0 "[]" 0]
    by (simp add: g_def GSM_MAX_MSG_LEN_def) blast
qed

section \<open>Properties\<close>



text \<open>
  GET and PUT requests never share a sequence number. From the initial nonce every GET has an
  even number and the PUT of the same transaction the odd one after it, also after the counter
  wraps around, so a late response to one cannot be taken for a response to another.
\<close>

theorem gsmd_seq_parity:
  assumes "even (unat seq)" and "take 1 cmsg = ''G''" and "take 1 cmsg' \<noteq> ''G''"
  shows "let out = gsmd g timeout user state cmsg streamid seq net hr0 pp;
      out' = gsmd g timeout' user (go_state out) cmsg' streamid (go_seq out) net' hr0' pp'
    in go_seq out = seq + 2 \<and> go_seq out' = go_seq out \<and> even (unat (go_seq out'))
      \<and> s_gseq (go_state out) = seq + 2 \<and> odd (unat (s_gseq (go_state out')))"
proof -
  have par: "even (unat (seq + 2))" "odd (unat (seq + 2 + 1))"
    using assms(1) by (simp_all only: unat_word_ariths) (simp_all add: dvd_mod_iff)
  show ?thesis
    using assms par by (simp add: gsmd_def Let_def nonce32_def)
qed

theorem gsmd_seq_parity_witness:
  "\<forall>g user. let out = gsmd g 0 user state_zero ''G joe'' (1, 2) nonce_seq_init [] 0 [];
      out' = gsmd g 0 user (go_state out) ''P joe'' (1, 2) (go_seq out) [] 0 []
    in go_seq out = nonce_seq_init + 2 \<and> go_seq out' = go_seq out \<and> even (unat (go_seq out'))
      \<and> s_gseq (go_state out) = nonce_seq_init + 2 \<and> odd (unat (s_gseq (go_state out')))"
proof (intro allI)
  fix g user
  show "let out = gsmd g 0 user state_zero ''G joe'' (1, 2) nonce_seq_init [] 0 [];
      out' = gsmd g 0 user (go_state out) ''P joe'' (1, 2) (go_seq out) [] 0 []
    in go_seq out = nonce_seq_init + 2 \<and> go_seq out' = go_seq out \<and> even (unat (go_seq out'))
      \<and> s_gseq (go_state out) = nonce_seq_init + 2 \<and> odd (unat (s_gseq (go_state out')))"
    by (rule gsmd_seq_parity) (simp_all add: nonce_seq_init_def)
qed



end
