(* ===== verification/Otpd_Nonce.thy ===== *)
theory Otpd_Nonce
  imports Otpd_Gsm
begin

text \<open>
  The nonces of requests to a state manager, \<^verbatim>\<open>src/nonce.c\<close>: the start value of stream and sequence number
  (\<open>nonce_init\<close>), and the two versions of \<open>nonce32\<close>. With \<^verbatim>\<open>atomic.h\<close> a call is one step, the
  definition \<open>nonce32\<close>; without it, a call has four steps that other threads may come between, the step
  relation \<open>nonce_step\<close>.
\<close>

section \<open>Definitions\<close>

text \<open>
  The loop of \<open>nonce_init\<close>: \<open>rnd k\<close> is what the \<open>k\<close>-th \<open>read\<close> gives, \<open>None\<close> for an error; \<open>host\<close> is how the machine reads four octets as
  a number. The inner result is \<open>None\<close> where the process exits. A random device that only gives zeros keeps the loop going.
\<close>

partial_function (option) nonce_streamid :: "(byte list \<Rightarrow> u32) \<Rightarrow> (nat \<Rightarrow> byte list option) \<Rightarrow> nat \<Rightarrow> u32 \<times> u32 \<Rightarrow> (u32 \<times> u32) option option" where
  "nonce_streamid host rnd k streamid =
     (if fst streamid = 0 \<and> snd streamid = 0
      then case rnd k of
          None \<Rightarrow> Some None
        | Some bs \<Rightarrow>
            if length bs < 8 then Some None
            else nonce_streamid host rnd (k + 1) (host (take 4 bs), host (take 4 (drop 4 bs)))
      else Some (Some streamid))"

definition nonce_init :: "bool \<Rightarrow> (byte list \<Rightarrow> u32) \<Rightarrow> (nat \<Rightarrow> byte list option) \<Rightarrow> ((u32 \<times> u32) \<times> u32) option option" where
  "nonce_init opened host rnd =
     (if \<not> opened then Some None
      else map_option (map_option (\<lambda>streamid. (streamid, nonce_seq_init))) (nonce_streamid host rnd 0 (0, 0)))"

text \<open>
  The calls of \<open>nonce32\<close> without \<^verbatim>\<open>atomic.h\<close>. \<open>n_owner\<close> is the thread that holds \<open>seq_mutex\<close>, \<open>n_pc\<close> where each thread is in the
  function, \<open>n_got\<close> the values returned, the last one first.
\<close>

datatype nonce_pc = NonceIdle | NonceLocked | NonceAdded | NonceUnlocked

record nonce_t =
  n_seq :: u32
  n_owner :: "nat option"
  n_pc :: "nat \<Rightarrow> nonce_pc"
  n_got :: "(nat \<times> u32) list"

definition nonce_start :: nonce_t where
  "nonce_start = \<lparr>n_seq = nonce_seq_init, n_owner = None, n_pc = (\<lambda>t. NonceIdle), n_got = []\<rparr>"

inductive nonce_step :: "nonce_t \<Rightarrow> nonce_t \<Rightarrow> bool" where
  lock: "n_pc s t = NonceIdle \<Longrightarrow> n_owner s = None \<Longrightarrow>
    nonce_step s (s\<lparr>n_owner := Some t, n_pc := (n_pc s)(t := NonceLocked)\<rparr>)"
| add: "n_pc s t = NonceLocked \<Longrightarrow> nonce_step s (s\<lparr>n_seq := n_seq s + 2, n_pc := (n_pc s)(t := NonceAdded)\<rparr>)"
| unlock: "n_pc s t = NonceAdded \<Longrightarrow> nonce_step s (s\<lparr>n_owner := None, n_pc := (n_pc s)(t := NonceUnlocked)\<rparr>)"
| read: "n_pc s t = NonceUnlocked \<Longrightarrow> nonce_step s (s\<lparr>n_pc := (n_pc s)(t := NonceIdle), n_got := (t, n_seq s) # n_got s\<rparr>)"

section \<open>Lemmas\<close>

text \<open>The sequence number after some calls of the atomic version.\<close>

lemma nonce32_funpow: "(nonce32 ^^ k) s = s + 2 * word_of_nat k"
  by (induction k) (simp_all add: nonce32_def algebra_simps)

lemma nonce32_funpow_init: "(nonce32 ^^ Suc k) nonce_seq_init = 2 * word_of_nat k"
  by (simp only: nonce32_funpow) (simp add: nonce_seq_init_def algebra_simps)

lemma unat_double: "k < 2 ^ 31 \<Longrightarrow> unat (2 * word_of_nat k :: u32) = 2 * k"
  by (simp add: unat_word_ariths unat_of_nat)

text \<open>Mutual exclusion in the other version.\<close>

definition nonce_inv :: "nonce_t \<Rightarrow> bool" where
  "nonce_inv s \<longleftrightarrow> (\<forall>t. n_pc s t \<in> {NonceLocked, NonceAdded} \<longleftrightarrow> n_owner s = Some t)
     \<and> even (unat (n_seq s)) \<and> (\<forall>(t, seq) \<in> set (n_got s). even (unat seq))"

lemma even_add_2: "even (unat (x :: u32)) \<Longrightarrow> even (unat (x + 2))"
  by (simp add: unat_word_ariths dvd_mod_iff)

lemma nonce_step_inv: "nonce_step s s' \<Longrightarrow> nonce_inv s \<Longrightarrow> nonce_inv s'"
proof (induction rule: nonce_step.induct)
  case (unlock s t)
  then have "n_owner s = Some t" unfolding nonce_inv_def by blast
  with unlock show ?case by (auto simp: nonce_inv_def)
next
  case (read s t)
  then have "n_owner s \<noteq> Some t" unfolding nonce_inv_def by (metis insertE nonce_pc.distinct(5,6) singletonD nonce_pc.distinct)
  with read show ?case by (auto simp: nonce_inv_def)
qed (auto simp: nonce_inv_def even_add_2)

lemma nonce_reachable_inv: "nonce_step\<^sup>*\<^sup>* nonce_start s \<Longrightarrow> nonce_inv s"
proof (induction rule: rtranclp_induct)
  case base
  show ?case by (simp add: nonce_inv_def nonce_start_def nonce_seq_init_def unsigned_minus_1_eq_mask)
qed (rule nonce_step_inv)

lemma nonce_streamid_sound:
  "nonce_streamid host rnd k streamid = Some r \<Longrightarrow> \<forall>sid. r = Some sid \<longrightarrow> sid \<noteq> (0, 0)"
proof (rule nonce_streamid.raw_induct [where P = "\<lambda>host rnd k streamid r. \<forall>sid. r = Some sid \<longrightarrow> sid \<noteq> (0, 0)"])
  fix loop host rnd k streamid r
  assume IH: "\<And>host rnd k streamid r. loop host rnd k streamid = Some r \<Longrightarrow> \<forall>sid. r = Some sid \<longrightarrow> sid \<noteq> (0, 0)"
    and body: "(if fst streamid = 0 \<and> snd streamid = 0
      then case rnd k of
          None \<Rightarrow> Some None
        | Some bs \<Rightarrow>
            if length bs < 8 then Some None
            else loop host rnd (k + 1) (host (take 4 bs), host (take 4 (drop 4 bs)))
      else Some (Some streamid)) = Some r"
  then show "\<forall>sid. r = Some sid \<longrightarrow> sid \<noteq> (0, 0)" by (auto split: if_splits option.splits)
qed

text \<open>A read that ends the loop: an error, too few octets, or a number that is not zero.\<close>

definition nonce_ends :: "(byte list \<Rightarrow> u32) \<Rightarrow> byte list option \<Rightarrow> bool" where
  "nonce_ends host rd = (case rd of None \<Rightarrow> True
     | Some bs \<Rightarrow> length bs < 8 \<or> host (take 4 bs) \<noteq> 0 \<or> host (take 4 (drop 4 bs)) \<noteq> 0)"

lemma nonce_streamid_returns:
  "nonce_ends host (rnd (k + n)) \<Longrightarrow> \<exists>r. nonce_streamid host rnd k streamid = Some r"
proof (induction n arbitrary: k streamid)
  case 0
  then show ?case
    by (auto simp: nonce_streamid.simps [of _ _ k] nonce_streamid.simps [of _ _ "Suc k"] nonce_ends_def split: option.splits)
next
  case (Suc n)
  have "\<exists>r. nonce_streamid host rnd (k + 1) sid = Some r" for sid using Suc by simp
  then show ?case by (auto simp: nonce_streamid.simps [of _ _ k] split: option.splits)
qed

lemma nonce_init_result:
  assumes "nonce_ends host (rnd k)"
  shows "\<exists>r. nonce_init opened host rnd = Some r \<and> (\<forall>sid seq. r = Some (sid, seq) \<longrightarrow> sid \<noteq> (0, 0) \<and> nonce32 seq = 0)"
proof -
  obtain r where r: "nonce_streamid host rnd 0 (0, 0) = Some r" using nonce_streamid_returns [of host rnd 0 k] assms by auto
  with nonce_streamid_sound [OF r] show ?thesis
    by (auto simp: nonce_init_def nonce32_def nonce_seq_init_def)
qed

lemma gsm_nonce_inject: "gsm_nonce sid cmsg seq = gsm_nonce sid' cmsg' seq' \<Longrightarrow> seq = seq'"
  by (metis gsm_nonce_seq)

section \<open>Properties\<close>

text \<open>
  The stream of a process. \<open>nonce_init\<close> returns as soon as the random device fails or gives something other than zeros, and when it
  does not end the process, the stream number is not zero and the first sequence number is 0.
\<close>

theorem nonce_init_stream:
  assumes "nonce_ends host (rnd k)"
  shows "\<exists>r. nonce_init opened host rnd = Some r \<and> (\<forall>sid seq. r = Some (sid, seq) \<longrightarrow> sid \<noteq> (0, 0) \<and> nonce32 seq = 0)"
  using assms by (rule nonce_init_result)

theorem nonce_init_stream_witness:
  "\<exists>r. nonce_init True (\<lambda>bs. word_of_nat (unat (bs ! 0))) (\<lambda>k. Some [word_of_nat k, 0, 0, 0, 0, 0, 0, 0]) = Some r
     \<and> (\<forall>sid seq. r = Some (sid, seq) \<longrightarrow> sid \<noteq> (0, 0) \<and> nonce32 seq = 0)"
  by (rule nonce_init_stream [where k = 1]) (simp add: nonce_ends_def)

text \<open>
  C24: no nonce is used twice. With an atomic increment, the cipher nonces of \<open>2 ^ 31\<close> transactions of a process, each a GET with the
  sequence number from \<open>nonce32\<close> and a PUT with the one after it, are all different.
\<close>

theorem nonce32_unique:
  assumes "j < 2 ^ 31" and "k < 2 ^ 31" and "a < 2" and "b < 2" and "(j, a) \<noteq> (k, b)"
  shows "gsm_nonce sid msg ((nonce32 ^^ Suc j) nonce_seq_init + word_of_nat a)
    \<noteq> gsm_nonce sid msg' ((nonce32 ^^ Suc k) nonce_seq_init + word_of_nat b)"
proof
  assume "gsm_nonce sid msg ((nonce32 ^^ Suc j) nonce_seq_init + word_of_nat a)
    = gsm_nonce sid msg' ((nonce32 ^^ Suc k) nonce_seq_init + word_of_nat b)"
  then have "2 * word_of_nat j + word_of_nat a = (2 * word_of_nat k + word_of_nat b :: u32)"
    unfolding nonce32_funpow_init by (rule gsm_nonce_inject)
  then have "word_of_nat (2 * j + a) = (word_of_nat (2 * k + b) :: u32)" by simp
  then have "2 * j + a = 2 * k + b"
    using assms(1-4) by (simp only: of_nat_eq_iff word_of_nat_eq_iff take_bit_eq_mod) simp
  with assms(3-5) show False by (cases "a = b") (auto, presburger)
qed

theorem nonce32_unique_witness:
  "gsm_nonce (1, 2) ''G joe'' ((nonce32 ^^ Suc 0) nonce_seq_init + word_of_nat 0)
    \<noteq> gsm_nonce (1, 2) ''G ann'' ((nonce32 ^^ Suc 1) nonce_seq_init + word_of_nat 0)"
  by (rule nonce32_unique) simp_all


end
