(* ===== verification/Otpd_Lock.thy ===== *)
theory Otpd_Lock
  imports Otpd_Uhash
begin

text \<open>
  The user locks of \<^verbatim>\<open>src/lock.c\<close>, with the doubly linked chains in an explicit heap: a node is
  an address, a null pointer is \<open>None\<close>, and dereferencing a null or unallocated pointer (or passing
  one to \<open>strcmp\<close>) is \<open>CFault\<close>. Each operation runs under the mutex of its chain and is one step.

  A chain is a prefix of held nodes followed by a suffix of free ones; \<open>lc_last\<close> points at the last
  held node. The invariant \<open>lock_inv\<close> says so of all 64 chains, relative to the list of held
  locks of every bucket, which is the abstract state of the lock manager.
\<close>

section \<open>Definitions\<close>

text \<open>\<open>ulock_t\<close> of \<^verbatim>\<open>extern.h\<close> and \<open>ulock_chain_t\<close> of \<^verbatim>\<open>lock.h\<close>.\<close>

record ulock_t =
  l_username :: "string option"
  l_ltime :: int
  l_prev :: "nat option"
  l_next :: "nat option"

record ulock_chain_t =
  lc_first :: "nat option"
  lc_last :: "nat option"

text \<open>The heap of nodes, the next free address and the array \<open>lock_chain\<close>.\<close>

record locks_t =
  lk_heap :: "nat \<Rightarrow> ulock_t option"
  lk_free :: nat
  lk_chain :: "nat \<Rightarrow> ulock_chain_t"

definition deref :: "locks_t \<Rightarrow> nat option \<Rightarrow> (nat \<times> ulock_t) cres" where
  "deref lk p = (case p of None \<Rightarrow> CFault
     | Some a \<Rightarrow> (case lk_heap lk a of None \<Rightarrow> CFault | Some n \<Rightarrow> COk (a, n)))"

definition set_node :: "nat \<Rightarrow> ulock_t \<Rightarrow> locks_t \<Rightarrow> locks_t" where
  "set_node a n lk = lk\<lparr>lk_heap := (lk_heap lk)(a \<mapsto> n)\<rparr>"

definition set_chain :: "nat \<Rightarrow> ulock_chain_t \<Rightarrow> locks_t \<Rightarrow> locks_t" where
  "set_chain b c lk = lk\<lparr>lk_chain := (lk_chain lk)(b := c)\<rparr>"

text \<open>\<open>p->field = v\<close>.\<close>

definition upd_node :: "nat option \<Rightarrow> (ulock_t \<Rightarrow> ulock_t) \<Rightarrow> locks_t \<Rightarrow> locks_t cres" where
  "upd_node p f lk = cbind (deref lk p) (\<lambda>(a, n). COk (set_node a (f n) lk))"

definition lock_alloc :: "locks_t \<Rightarrow> nat \<times> locks_t" where
  "lock_alloc lk = (lk_free lk,
     (set_node (lk_free lk) \<lparr>l_username = None, l_ltime = 0, l_prev = None, l_next = None\<rparr> lk)
       \<lparr>lk_free := lk_free lk + 1\<rparr>)"

text \<open>\<open>!strcmp (username, node->username)\<close>.\<close>

definition username_is :: "string \<Rightarrow> ulock_t \<Rightarrow> bool cres" where
  "username_is username n = (case l_username n of None \<Rightarrow> CFault | Some u \<Rightarrow> COk (u = username))"

text \<open>
  The walk over the held nodes. The result is the found node, or else the node after the last
  one. The fuel bounds the number of nodes: a walk longer than the number of allocated nodes has come
  back to a node it visited and never ends, which is no defined behaviour either.
\<close>

fun find_walk :: "nat \<Rightarrow> locks_t \<Rightarrow> string \<Rightarrow> nat option \<Rightarrow> nat option \<Rightarrow> (bool \<times> nat option) cres" where
  "find_walk 0 lk username lst p = CFault"
| "find_walk (Suc fuel) lk username lst p =
     cbind (deref lk p) (\<lambda>(a, n). cbind (username_is username n) (\<lambda>eq.
       if eq then COk (True, Some a)
       else if p = lst then COk (False, l_next n)
       else find_walk fuel lk username lst (l_next n)))"

definition find_lock :: "string \<Rightarrow> nat \<Rightarrow> locks_t \<Rightarrow> (bool \<times> nat option) cres" where
  "find_lock username bucket lk =
     (let c = lk_chain lk bucket in
      if lc_last c = None then COk (False, lc_first c)
      else find_walk (lk_free lk) lk username (lc_last c) (lc_first c))"

definition lock_expiry :: int where "lock_expiry = 24000000000"

text \<open>
  \<open>lock_get\<close> at \<open>xgethrtime ()\<close> time \<open>now\<close>: \<open>Some\<close> node, or \<open>None\<close> where an unexpired lock is held.
\<close>

definition lock_get :: "string \<Rightarrow> int \<Rightarrow> locks_t \<Rightarrow> (nat option \<times> locks_t) cres" where
  "lock_get username now lk =
     (let bucket = uhash username in
      cbind (find_lock username bucket lk) (\<lambda>(waslocked, lock).
        if waslocked then
          cbind (deref lk lock) (\<lambda>(a, n).
            if l_ltime n + lock_expiry \<le> now then COk (Some a, set_node a (n\<lparr>l_ltime := now\<rparr>) lk)
            else COk (None, lk))
        else
          cbind (case lock of
              Some a \<Rightarrow> COk (a, lk)
            | None \<Rightarrow>
                let (a, lk) = lock_alloc lk; lst = lc_last (lk_chain lk bucket)
                in cbind (upd_node lst (\<lambda>n. n\<lparr>l_next := Some a\<rparr>) lk) (\<lambda>lk.
                   cbind (upd_node (Some a) (\<lambda>n. n\<lparr>l_prev := lst\<rparr>) lk) (\<lambda>lk. COk (a, lk))))
            (\<lambda>(a, lk).
              cbind (upd_node (Some a) (\<lambda>n. n\<lparr>l_username := Some username, l_ltime := now\<rparr>) lk) (\<lambda>lk.
                COk (Some a, set_chain bucket ((lk_chain lk bucket)\<lparr>lc_last := Some a\<rparr>) lk)))))"

text \<open>\<open>if (p) p->field = v\<close>.\<close>

definition upd_node_opt :: "nat option \<Rightarrow> (ulock_t \<Rightarrow> ulock_t) \<Rightarrow> locks_t \<Rightarrow> locks_t cres" where
  "upd_node_opt p f lk = (if p = None then COk lk else upd_node p f lk)"

definition lock_put :: "nat option \<Rightarrow> locks_t \<Rightarrow> locks_t cres" where
  "lock_put lock lk =
     cbind (deref lk lock) (\<lambda>(a, n).
       case l_username n of
         None \<Rightarrow> CFault
       | Some username \<Rightarrow>
           let bucket = uhash username;
               lk = set_node a (n\<lparr>l_username := None\<rparr>) lk
           in if lc_last (lk_chain lk bucket) = lock
              then COk (set_chain bucket ((lk_chain lk bucket)\<lparr>lc_last := l_prev n\<rparr>) lk)
              else
                let lst = lc_last (lk_chain lk bucket) in
                cbind (upd_node_opt (l_prev n) (\<lambda>m. m\<lparr>l_next := l_next n\<rparr>) lk) (\<lambda>lk.
                cbind (upd_node_opt (l_next n) (\<lambda>m. m\<lparr>l_prev := l_prev n\<rparr>) lk) (\<lambda>lk.
                cbind (deref lk lst) (\<lambda>(_, ln).
                cbind (upd_node lock (\<lambda>m. m\<lparr>l_next := l_next ln, l_prev := lst\<rparr>) lk) (\<lambda>lk.
                cbind (deref lk lst) (\<lambda>(_, ln).
                cbind (upd_node (l_next ln) (\<lambda>m. m\<lparr>l_prev := lock\<rparr>) lk) (\<lambda>lk.
                upd_node lst (\<lambda>m. m\<lparr>l_next := lock\<rparr>) lk)))))))"

text \<open>The state \<open>lock_init\<close> sets up: bucket \<open>i\<close> has the preallocated node \<open>i\<close>.\<close>

definition lock_init :: locks_t where
  "lock_init = \<lparr>lk_heap = (\<lambda>a. if a < UHASH_SIZE
        then Some \<lparr>l_username = None, l_ltime = 0, l_prev = None, l_next = None\<rparr> else None),
     lk_free = UHASH_SIZE,
     lk_chain = (\<lambda>b. \<lparr>lc_first = if b < UHASH_SIZE then Some b else None, lc_last = None\<rparr>)\<rparr>"

section \<open>The invariant\<close>

text \<open>
  \<open>dlist h p xs\<close>: the addresses \<open>xs\<close> form a doubly linked list whose first node points back at \<open>p\<close>
  and whose last node has a null \<open>next\<close>. \<open>held h xs us\<close>: the nodes \<open>xs\<close> are held by the user names and
  since the times of \<open>us\<close>.
\<close>

fun dlist :: "(nat \<Rightarrow> ulock_t option) \<Rightarrow> nat option \<Rightarrow> nat list \<Rightarrow> bool" where
  "dlist h p [] = True"
| "dlist h p (x # xs) = (case h x of None \<Rightarrow> False
     | Some n \<Rightarrow> l_prev n = p \<and> l_next n = (if xs = [] then None else Some (hd xs)) \<and> dlist h (Some x) xs)"

definition held :: "(nat \<Rightarrow> ulock_t option) \<Rightarrow> nat list \<Rightarrow> (string \<times> int) list \<Rightarrow> bool" where
  "held h xs us \<longleftrightarrow> list_all2 (\<lambda>x (u, t). case h x of None \<Rightarrow> False
     | Some n \<Rightarrow> l_username n = Some u \<and> l_ltime n = t) xs us"

text \<open>One chain: \<open>xs\<close> its held nodes, \<open>ys\<close> its free nodes, \<open>us\<close> the abstract state.\<close>

definition chain_inv :: "locks_t \<Rightarrow> nat \<Rightarrow> nat list \<Rightarrow> nat list \<Rightarrow> (string \<times> int) list \<Rightarrow> bool" where
  "chain_inv lk b xs ys us \<longleftrightarrow>
     xs @ ys \<noteq> [] \<and> distinct (xs @ ys) \<and> (\<forall>x \<in> set (xs @ ys). x < lk_free lk)
     \<and> dlist (lk_heap lk) None (xs @ ys) \<and> held (lk_heap lk) xs us
     \<and> lc_first (lk_chain lk b) = Some (hd (xs @ ys))
     \<and> lc_last (lk_chain lk b) = (if xs = [] then None else Some (last xs))
     \<and> distinct (map fst us) \<and> (\<forall>u \<in> set (map fst us). uhash u = b)"

text \<open>All chains, on disjoint sets of nodes. \<open>A b\<close> lists the held locks of bucket \<open>b\<close>.\<close>

definition lock_inv :: "locks_t \<Rightarrow> (nat \<Rightarrow> nat list) \<Rightarrow> (nat \<Rightarrow> nat list) \<Rightarrow> (nat \<Rightarrow> (string \<times> int) list) \<Rightarrow> bool" where
  "lock_inv lk X Y A \<longleftrightarrow> (\<forall>b < UHASH_SIZE. chain_inv lk b (X b) (Y b) (A b))
     \<and> (\<forall>b < UHASH_SIZE. \<forall>c < UHASH_SIZE. b \<noteq> c \<longrightarrow> set (X b @ Y b) \<inter> set (X c @ Y c) = {})"

section \<open>Lemmas\<close>

lemma deref_Some [simp]: "lk_heap lk a = Some n \<Longrightarrow> deref lk (Some a) = COk (a, n)"
  by (simp add: deref_def)

lemma deref_None [simp]: "deref lk None = CFault"
  by (simp add: deref_def)

lemma locks_simps [simp]:
  "lk_heap (set_node a n lk) = (lk_heap lk)(a \<mapsto> n)" "lk_free (set_node a n lk) = lk_free lk"
  "lk_chain (set_node a n lk) = lk_chain lk" "lk_heap (set_chain b c lk) = lk_heap lk"
  "lk_free (set_chain b c lk) = lk_free lk" "lk_chain (set_chain b c lk) = (lk_chain lk)(b := c)"
  by (simp_all add: set_node_def set_chain_def)

lemma upd_node_Some [simp]: "lk_heap lk a = Some n \<Longrightarrow> upd_node (Some a) f lk = COk (set_node a (f n) lk)"
  by (simp add: upd_node_def)

lemma dlist_cong:
  "dlist h p xs \<Longrightarrow> (\<And>x n. x \<in> set xs \<Longrightarrow> h x = Some n \<Longrightarrow>
     \<exists>n'. h' x = Some n' \<and> l_prev n' = l_prev n \<and> l_next n' = l_next n) \<Longrightarrow> dlist h' p xs"
proof (induction xs arbitrary: p)
  case (Cons x xs)
  from Cons.prems(1) obtain n where "h x = Some n" by (auto split: option.splits)
  with Cons.prems(2) [of x n] obtain n' where "h' x = Some n'" "l_prev n' = l_prev n" "l_next n' = l_next n" by auto
  with Cons \<open>h x = Some n\<close> show ?case by simp
qed simp

lemma dlist_nodeD: "dlist h p xs \<Longrightarrow> x \<in> set xs \<Longrightarrow> \<exists>n. h x = Some n"
  by (induction xs arbitrary: p) (auto split: option.splits)

lemma held_cong:
  "held h xs us \<Longrightarrow> (\<And>x. x \<in> set xs \<Longrightarrow> h' x = h x) \<Longrightarrow> held h' xs us"
  unfolding held_def by (induction xs us rule: list_all2_induct) auto

lemma held_length: "held h xs us \<Longrightarrow> length xs = length us"
  unfolding held_def by (rule list_all2_lengthD)

lemma held_simps [simp]:
  "held h [] us \<longleftrightarrow> us = []" "held h xs [] \<longleftrightarrow> xs = []"
  "held h (x # xs) ((u, t) # us) \<longleftrightarrow>
     (\<exists>n. h x = Some n \<and> l_username n = Some u \<and> l_ltime n = t) \<and> held h xs us"
  by (auto simp: held_def split: option.splits)

lemma held_snoc [simp]:
  "held h (xs @ [x]) (us @ [(u, t)]) \<longleftrightarrow> held h xs us \<and> (\<exists>n. h x = Some n \<and> l_username n = Some u \<and> l_ltime n = t)"
proof (cases "length xs = length us")
  case True
  then show ?thesis by (auto simp: held_def list_all2_append split: option.splits)
next
  case False
  then have "\<not> held h xs us" "\<not> held h (xs @ [x]) (us @ [(u, t)])"
    using held_length by fastforce+
  then show ?thesis by blast
qed

lemma find_walk_chain:
  "zs \<noteq> [] \<Longrightarrow> held h zs us \<Longrightarrow> dlist h p (zs @ ys) \<Longrightarrow> distinct zs \<Longrightarrow> lk_heap lk = h \<Longrightarrow> length zs \<le> fuel \<Longrightarrow>
   find_walk fuel lk u (Some (last zs)) (Some (hd zs)) =
     (if u \<in> fst ` set us then COk (True, Some (zs ! length (takeWhile (\<lambda>v. v \<noteq> u) (map fst us))))
      else COk (False, if ys = [] then None else Some (hd ys)))"
proof (induction zs arbitrary: us p fuel)
  case (Cons z zs)
  from Cons.prems(2) obtain v t us' where us: "us = (v, t) # us'" by (cases us) auto
  from Cons.prems(6) obtain f where f: "fuel = Suc f" by (cases fuel) auto
  from Cons.prems(2) us obtain n where n: "h z = Some n" "l_username n = Some v" by auto
  have nx: "l_next n = (if zs @ ys = [] then None else Some (hd (zs @ ys)))"
    using Cons.prems(3) n by (simp split: if_splits)
  show ?case
  proof (cases "v = u")
    case True
    then show ?thesis using Cons.prems(5) n us f by (simp add: username_is_def)
  next
    case False
    show ?thesis
    proof (cases "zs = []")
      case True
      then have "us' = []" using Cons.prems(2) us by simp
      then show ?thesis using True False Cons.prems(5) n us f nx by (simp add: username_is_def)
    next
      case nonempty: False
      then have "last zs \<noteq> z" using Cons.prems(4) by auto
      moreover have "find_walk f lk u (Some (last zs)) (Some (hd zs)) =
         (if u \<in> fst ` set us' then COk (True, Some (zs ! length (takeWhile (\<lambda>v. v \<noteq> u) (map fst us'))))
          else COk (False, if ys = [] then None else Some (hd ys)))"
        by (rule Cons.IH) (use Cons.prems nonempty us f n in \<open>auto split: option.splits\<close>)
      ultimately show ?thesis using False nonempty Cons.prems(5) n us f nx by (simp add: username_is_def)
    qed
  qed
qed simp

lemma chain_length_le: "chain_inv lk b xs ys us \<Longrightarrow> length (xs @ ys) \<le> lk_free lk"
proof -
  assume inv: "chain_inv lk b xs ys us"
  then have "set (xs @ ys) \<subseteq> {..<lk_free lk}" by (auto simp: chain_inv_def)
  then have "card (set (xs @ ys)) \<le> lk_free lk" by (metis card_lessThan card_mono finite_lessThan)
  moreover from inv have "card (set (xs @ ys)) = length (xs @ ys)"
    by (intro distinct_card) (simp add: chain_inv_def)
  ultimately show ?thesis by simp
qed

lemma find_lock_chain:
  assumes "chain_inv lk b xs ys us"
  shows "find_lock u b lk =
    (if u \<in> fst ` set us then COk (True, Some (xs ! length (takeWhile (\<lambda>v. v \<noteq> u) (map fst us))))
     else COk (False, if ys = [] then None else Some (hd ys)))"
proof (cases "xs = []")
  case True
  then show ?thesis using assms by (auto simp: find_lock_def chain_inv_def Let_def)
next
  case False
  have "length xs \<le> lk_free lk" using chain_length_le [OF assms] by simp
  with False assms have "find_walk (lk_free lk) lk u (Some (last xs)) (Some (hd xs)) =
    (if u \<in> fst ` set us then COk (True, Some (xs ! length (takeWhile (\<lambda>v. v \<noteq> u) (map fst us))))
     else COk (False, if ys = [] then None else Some (hd ys)))"
    by (intro find_walk_chain) (auto simp: chain_inv_def)
  then show ?thesis using False assms by (simp add: find_lock_def chain_inv_def Let_def)
qed

lemma chain_inv_frame:
  assumes "chain_inv lk b xs ys us" and "\<And>x. x \<in> set (xs @ ys) \<Longrightarrow> lk_heap lk' x = lk_heap lk x"
    and "lk_chain lk' b = lk_chain lk b" and "lk_free lk \<le> lk_free lk'"
  shows "chain_inv lk' b xs ys us"
proof -
  have "dlist (lk_heap lk') None (xs @ ys)"
    by (rule dlist_cong [of "lk_heap lk"]) (use assms(1,2) in \<open>auto simp: chain_inv_def\<close>)
  moreover have "held (lk_heap lk') xs us"
    by (rule held_cong [of "lk_heap lk"]) (use assms(1,2) in \<open>auto simp: chain_inv_def\<close>)
  moreover have "\<forall>x \<in> set (xs @ ys). x < lk_free lk'"
    using assms(1,4) unfolding chain_inv_def by (meson order_less_le_trans)
  ultimately show ?thesis using assms(1,3) by (simp add: chain_inv_def)
qed

text \<open>A step that touches the nodes of one chain, or fresh ones, keeps the invariant of all others.\<close>

lemma lock_inv_step:
  assumes inv: "lock_inv lk X Y A" and b: "b < UHASH_SIZE" and new: "chain_inv lk' b xs ys us"
    and heap: "\<And>x. x \<notin> set (X b @ Y b) \<Longrightarrow> x < lk_free lk \<Longrightarrow> lk_heap lk' x = lk_heap lk x"
    and chains: "\<And>c. c \<noteq> b \<Longrightarrow> lk_chain lk' c = lk_chain lk c"
    and nodes: "\<And>x. x \<in> set (xs @ ys) \<Longrightarrow> x \<in> set (X b @ Y b) \<or> lk_free lk \<le> x"
    and free: "lk_free lk \<le> lk_free lk'"
  shows "lock_inv lk' (X(b := xs)) (Y(b := ys)) (A(b := us))"
proof -
  have old: "x < lk_free lk \<and> x \<notin> set (X b @ Y b)" if "c < UHASH_SIZE" "c \<noteq> b" "x \<in> set (X c @ Y c)" for c x
    using inv b that unfolding lock_inv_def chain_inv_def by blast
  have other: "chain_inv lk' c (X c) (Y c) (A c)" if "c < UHASH_SIZE" "c \<noteq> b" for c
  proof (rule chain_inv_frame)
    show "chain_inv lk c (X c) (Y c) (A c)" using inv that by (simp add: lock_inv_def)
    show "lk_heap lk' x = lk_heap lk x" if "x \<in> set (X c @ Y c)" for x
      using old [OF \<open>c < UHASH_SIZE\<close> \<open>c \<noteq> b\<close> that] heap by simp
  qed (use that chains free in simp_all)
  have disj: "set (xs @ ys) \<inter> set (X c @ Y c) = {}" if "c < UHASH_SIZE" "c \<noteq> b" for c
    using old [OF that] nodes by (metis disjoint_iff not_le)
  have "set (X c @ Y c) \<inter> set (X d @ Y d) = {}" if "c < UHASH_SIZE" "d < UHASH_SIZE" "c \<noteq> d" for c d
    using inv that unfolding lock_inv_def by blast
  with other disj new show ?thesis
    unfolding lock_inv_def by (auto simp: Int_commute)
qed

section \<open>The operations on a chain\<close>

lemma dlist_append:
  "dlist h p (xs @ ys) \<Longrightarrow> dlist h (if xs = [] then p else Some (last xs)) ys"
  by (induction xs arbitrary: p) (auto split: option.splits if_splits)

lemma dlist_extend:
  "dlist h p xs \<Longrightarrow> xs \<noteq> [] \<Longrightarrow> distinct (xs @ [a]) \<Longrightarrow> h (last xs) = Some n \<Longrightarrow> l_prev m = Some (last xs) \<Longrightarrow>
   l_next m = None \<Longrightarrow> dlist (h(a \<mapsto> m, last xs \<mapsto> n\<lparr>l_next := Some a\<rparr>)) p (xs @ [a])"
proof (induction xs arbitrary: p)
  case (Cons x xs)
  show ?case
  proof (cases "xs = []")
    case True
    with Cons.prems show ?thesis by (auto split: option.splits)
  next
    case False
    with Cons.prems have "x \<noteq> last xs" "x \<noteq> a" by auto
    define h' where "h' = h(a \<mapsto> m, last xs \<mapsto> n\<lparr>l_next := Some a\<rparr>)"
    have "dlist h' (Some x) (xs @ [a])"
      unfolding h'_def by (rule Cons.IH) (use Cons.prems False in \<open>auto split: option.splits\<close>)
    moreover have "h' x = h x" using \<open>x \<noteq> last xs\<close> \<open>x \<noteq> a\<close> by (simp add: h'_def)
    ultimately have "dlist h' p (x # xs @ [a])" using Cons.prems False by (auto split: option.splits)
    then show ?thesis using False by (simp only: h'_def last.simps if_False append_Cons)
  qed
qed simp

text \<open>Taking the first free node of a chain that has one.\<close>

lemma chain_take_free:
  assumes inv: "chain_inv lk b xs (y # ys) us" and n: "lk_heap lk y = Some n"
    and u: "u \<notin> fst ` set us" "uhash u = b"
    and lk': "lk_heap lk' = (lk_heap lk)(y \<mapsto> n\<lparr>l_username := Some u, l_ltime := now\<rparr>)"
      "lk_chain lk' b = (lk_chain lk b)\<lparr>lc_last := Some y\<rparr>" "lk_free lk' = lk_free lk"
  shows "chain_inv lk' b (xs @ [y]) ys (us @ [(u, now)])"
proof -
  have "dlist (lk_heap lk') None (xs @ y # ys)"
    by (rule dlist_cong [of "lk_heap lk"]) (use inv n in \<open>auto simp: chain_inv_def lk'\<close>)
  moreover have "held (lk_heap lk') xs us"
    by (rule held_cong [of "lk_heap lk"]) (use inv in \<open>auto simp: chain_inv_def lk'\<close>)
  ultimately show ?thesis
    using inv u by (auto simp: chain_inv_def lk' hd_append)
qed

text \<open>Adding a fresh node to a chain without free nodes.\<close>

lemma chain_add_node:
  assumes inv: "chain_inv lk b xs [] us" and xs: "xs \<noteq> []" and n: "lk_heap lk (last xs) = Some n"
    and m: "l_username m = Some u" "l_ltime m = now" "l_prev m = Some (last xs)" "l_next m = None"
    and u: "u \<notin> fst ` set us" "uhash u = b" and a: "a = lk_free lk"
    and lk': "lk_heap lk' = (lk_heap lk)(a \<mapsto> m, last xs \<mapsto> n\<lparr>l_next := Some a\<rparr>)"
      "lk_chain lk' b = (lk_chain lk b)\<lparr>lc_last := Some a\<rparr>" "lk_free lk' = lk_free lk + 1"
  shows "chain_inv lk' b (xs @ [a]) [] (us @ [(u, now)])"
proof -
  have a_new: "a \<notin> set xs" using inv a by (auto simp: chain_inv_def)
  then have al: "a \<noteq> last xs" using xs by auto
  have dist: "distinct (xs @ [a])" using inv a_new by (simp add: chain_inv_def)
  have "dlist (lk_heap lk') None (xs @ [a])"
    unfolding lk' by (rule dlist_extend) (use inv xs n m dist in \<open>simp_all add: chain_inv_def\<close>)
  moreover have "held (lk_heap lk') xs us"
  proof -
    obtain us' v t where us: "us = us' @ [(v, t)]" and h: "held (lk_heap lk) (butlast xs) us'" "l_username n = Some v" "l_ltime n = t"
    proof -
      have "held (lk_heap lk) (butlast xs @ [last xs]) us" using inv xs by (simp add: chain_inv_def)
      moreover have "us \<noteq> []" using held_length [OF calculation] by auto
      then obtain us' v t where "us = us' @ [(v, t)]" by (metis rev_exhaust surj_pair)
      ultimately show ?thesis using that n by auto
    qed
    have "held (lk_heap lk') (butlast xs) us'"
      by (rule held_cong [OF h(1)])
        (use a_new dist xs in \<open>auto simp: lk' dest: in_set_butlastD\<close>, metis append_butlast_last_id distinct_append disjoint_insert(1) dist butlast_snoc distinct_butlast not_distinct_conv_prefix)
    then have "held (lk_heap lk') (butlast xs @ [last xs]) (us' @ [(v, t)])"
      using h al by (simp add: lk')
    then show ?thesis using xs us by simp
  qed
  ultimately show ?thesis
    using inv xs u m a a_new al dist by (auto simp: chain_inv_def lk' less_Suc_eq)
qed

text \<open>Releasing the last held node.\<close>

lemma chain_release_last:
  assumes inv: "chain_inv lk b (xs @ [x]) ys (us @ [(u, t)])" and n: "lk_heap lk x = Some n"
    and lk': "lk_heap lk' = (lk_heap lk)(x \<mapsto> n\<lparr>l_username := None\<rparr>)"
      "lk_chain lk' b = (lk_chain lk b)\<lparr>lc_last := l_prev n\<rparr>" "lk_free lk' = lk_free lk"
  shows "chain_inv lk' b xs (x # ys) us"
proof -
  have "dlist (lk_heap lk) (if xs = [] then None else Some (last xs)) (x # ys)"
    using dlist_append [of "lk_heap lk" None xs "x # ys"] inv by (simp add: chain_inv_def)
  then have prev: "l_prev n = (if xs = [] then None else Some (last xs))" using n by simp
  have "dlist (lk_heap lk') None (xs @ x # ys)"
    by (rule dlist_cong [of "lk_heap lk"]) (use inv n in \<open>auto simp: chain_inv_def lk'\<close>)
  moreover have "held (lk_heap lk') xs us"
    by (rule held_cong [of "lk_heap lk"]) (use inv in \<open>auto simp: chain_inv_def lk'\<close>)
  ultimately show ?thesis
    using inv prev by (auto simp: chain_inv_def lk')
qed

lemma held_nth:
  "held h xs us \<Longrightarrow> i < length us \<Longrightarrow> \<exists>n. h (xs ! i) = Some n \<and> l_username n = Some (fst (us ! i)) \<and> l_ltime n = snd (us ! i)"
  unfolding held_def by (drule list_all2_nthD2) (auto split: option.splits prod.splits)

lemma takeWhile_index:
  assumes "(u, t) \<in> set us" and "distinct (map fst us)"
  defines "i \<equiv> length (takeWhile (\<lambda>v. v \<noteq> u) (map fst us))"
  shows "i < length us \<and> us ! i = (u, t)"
proof -
  have "i < length (map fst us)"
  proof -
    have "u \<in> set (map fst us)" using assms(1) by force
    then have "takeWhile (\<lambda>v. v \<noteq> u) (map fst us) \<noteq> map fst us" by (simp only: takeWhile_eq_all_conv) blast
    then show ?thesis
      unfolding i_def by (metis le_neq_implies_less length_takeWhile_le take_all_iff takeWhile_eq_take order_refl)
  qed
  moreover have "map fst us ! i = u"
    using nth_length_takeWhile [of "\<lambda>v. v \<noteq> u" "map fst us"] calculation by (simp add: i_def)
  moreover obtain j where "j < length us" "us ! j = (u, t)" using assms(1) by (metis in_set_conv_nth)
  ultimately show ?thesis
    using assms(2) by (metis distinct_conv_nth fst_conv length_map nth_map)
qed

section \<open>The operations on the lock table\<close>

lemma lock_get_held:
  assumes inv: "lock_inv lk X Y A" and held: "(u, t) \<in> set (A (uhash u))" and "now < t + lock_expiry"
  shows "lock_get u now lk = COk (None, lk)"
proof -
  define b where "b = uhash u"
  have ch: "chain_inv lk b (X b) (Y b) (A b)" using inv by (simp add: lock_inv_def b_def)
  define i where "i = length (takeWhile (\<lambda>v. v \<noteq> u) (map fst (A b)))"
  have i: "i < length (A b)" "A b ! i = (u, t)"
    using takeWhile_index [of u t "A b"] held ch by (simp_all add: i_def chain_inv_def b_def)
  then obtain n where n: "lk_heap lk (X b ! i) = Some n" "l_ltime n = t"
    using held_nth [of "lk_heap lk" "X b" "A b" i] ch by (auto simp: chain_inv_def)
  have "find_lock u b lk = COk (True, Some (X b ! i))"
    using find_lock_chain [OF ch, of u] held by (force simp: i_def b_def)
  then show ?thesis using n assms(3) by (simp add: lock_get_def b_def Let_def)
qed

lemma lock_get_free:
  assumes inv: "lock_inv lk X Y A" and u: "u \<notin> fst ` set (A (uhash u))"
  shows "\<exists>a lk' ys. lock_get u now lk = COk (Some a, lk')
    \<and> lock_inv lk' (X(uhash u := X (uhash u) @ [a])) (Y(uhash u := ys)) (A(uhash u := A (uhash u) @ [(u, now)]))"
proof -
  define b where "b = uhash u"
  have ch: "chain_inv lk b (X b) (Y b) (A b)" and bs: "b < UHASH_SIZE" using inv by (simp_all add: lock_inv_def b_def)
  have fl: "find_lock u b lk = COk (False, if Y b = [] then None else Some (hd (Y b)))"
    using find_lock_chain [OF ch, of u] u by (simp add: b_def)
  show ?thesis
  proof (cases "Y b")
    case (Cons y ys)
    obtain n where n: "lk_heap lk y = Some n"
      using ch dlist_nodeD [of "lk_heap lk" None "X b @ Y b" y] Cons by (auto simp: chain_inv_def)
    define lk' where "lk' = set_chain b ((lk_chain lk b)\<lparr>lc_last := Some y\<rparr>)
      (set_node y (n\<lparr>l_username := Some u, l_ltime := now\<rparr>) lk)"
    have "lock_get u now lk = COk (Some y, lk')"
      using fl n Cons by (simp add: lock_get_def b_def [symmetric] Let_def lk'_def)
    moreover have "chain_inv lk' b (X b @ [y]) ys (A b @ [(u, now)])"
      by (rule chain_take_free [of lk b "X b" y ys "A b" n]) (use ch n u Cons in \<open>simp_all add: lk'_def b_def\<close>)
    then have "lock_inv lk' (X(b := X b @ [y])) (Y(b := ys)) (A(b := A b @ [(u, now)]))"
      by (rule lock_inv_step [OF inv bs]) (use Cons in \<open>auto simp: lk'_def\<close>)
    ultimately show ?thesis unfolding b_def by blast
  next
    case Nil
    then have xs: "X b \<noteq> []" using ch by (simp add: chain_inv_def)
    define a where "a = lk_free lk"
    obtain n where n: "lk_heap lk (last (X b)) = Some n"
      using ch dlist_nodeD [of "lk_heap lk" None "X b @ Y b" "last (X b)"] xs by (auto simp: chain_inv_def)
    have al: "last (X b) \<noteq> a" using ch last_in_set [OF xs] by (force simp: chain_inv_def a_def)
    have lst: "lc_last (lk_chain lk b) = Some (last (X b))" using ch xs by (simp add: chain_inv_def)
    define m where "m = \<lparr>l_username = Some u, l_ltime = now, l_prev = Some (last (X b)), l_next = None\<rparr>"
    define lk' where "lk' = lk\<lparr>lk_heap := (lk_heap lk)(a \<mapsto> m, last (X b) \<mapsto> n\<lparr>l_next := Some a\<rparr>),
      lk_free := a + 1, lk_chain := (lk_chain lk)(b := (lk_chain lk b)\<lparr>lc_last := Some a\<rparr>)\<rparr>"
    have get: "lock_get u now lk = COk (Some a, lk')"
      using fl Nil n al lst
      by (simp add: lock_get_def b_def [symmetric] Let_def lock_alloc_def upd_node_def deref_def a_def [symmetric]
          set_node_def set_chain_def m_def lk'_def fun_upd_twist [of "last (X b)" a])
    have "chain_inv lk' b (X b @ [a]) [] (A b @ [(u, now)])"
      by (rule chain_add_node [of lk b "X b" "A b" n m])
        (use ch Nil xs n u in \<open>simp_all add: lk'_def m_def a_def b_def\<close>)
    then have "lock_inv lk' (X(b := X b @ [a])) (Y(b := [])) (A(b := A b @ [(u, now)]))"
      by (rule lock_inv_step [OF inv bs]) (use xs in \<open>auto simp: lk'_def a_def\<close>)
    with get show ?thesis unfolding b_def by blast
  qed
qed

lemma lock_put_last:
  assumes inv: "lock_inv lk (X(b := xs @ [x])) Y (A(b := us @ [(u, t)]))" and b: "b < UHASH_SIZE"
  shows "\<exists>lk'. lock_put (Some x) lk = COk lk' \<and> lock_inv lk' (X(b := xs)) (Y(b := x # Y b)) (A(b := us))"
proof -
  have ch: "chain_inv lk b (xs @ [x]) (Y b) (us @ [(u, t)])"
    using inv b by (auto simp: lock_inv_def)
  then have ub: "uhash u = b" and lst: "lc_last (lk_chain lk b) = Some x" by (simp_all add: chain_inv_def)
  obtain n where n: "lk_heap lk x = Some n" "l_username n = Some u"
    using ch by (auto simp: chain_inv_def)
  define lk' where "lk' = set_chain b ((lk_chain lk b)\<lparr>lc_last := l_prev n\<rparr>) (set_node x (n\<lparr>l_username := None\<rparr>) lk)"
  have "lock_put (Some x) lk = COk lk'"
    using n ub lst by (simp add: lock_put_def Let_def lk'_def)
  moreover have "chain_inv lk' b xs (x # Y b) us"
    by (rule chain_release_last [of lk b xs x "Y b" us u t n]) (use ch n in \<open>simp_all add: lk'_def\<close>)
  then have "lock_inv lk' ((X(b := xs @ [x]))(b := xs)) (Y(b := x # Y b)) ((A(b := us @ [(u, t)]))(b := us))"
    by (rule lock_inv_step [OF inv b]) (auto simp: lk'_def)
  ultimately show ?thesis by simp
qed

lemma lock_init_inv: "lock_inv lock_init (\<lambda>b. []) (\<lambda>b. [b]) (\<lambda>b. [])"
  by (auto simp: lock_inv_def chain_inv_def lock_init_def)

section \<open>The contract of the lock manager\<close>

text \<open>
  What the state manager relies on. \<open>R s A\<close> relates the table to the held locks of every bucket:
  an unexpired lock excludes everybody, and a lock that was granted can be given back at once, which
  restores the set of held locks.
\<close>

locale lock_manager =
  fixes get :: "string \<Rightarrow> int \<Rightarrow> 's \<Rightarrow> (nat option \<times> 's) cres"
    and put :: "nat option \<Rightarrow> 's \<Rightarrow> 's cres"
    and R :: "'s \<Rightarrow> (nat \<Rightarrow> (string \<times> int) list) \<Rightarrow> bool"
  assumes get_busy: "R s A \<Longrightarrow> (u, t) \<in> set (A (uhash u)) \<Longrightarrow> now < t + lock_expiry \<Longrightarrow>
      get u now s = COk (None, s)"
    and get_fresh: "R s A \<Longrightarrow> u \<notin> fst ` set (A (uhash u)) \<Longrightarrow>
      \<exists>a s' s''. get u now s = COk (Some a, s') \<and> R s' (A(uhash u := A (uhash u) @ [(u, now)]))
        \<and> put (Some a) s' = COk s'' \<and> R s'' A"
begin

lemma exclusive:
  assumes "R s A" and "u \<notin> fst ` set (A (uhash u))"
  shows "\<exists>a s' s''. get u now s = COk (Some a, s') \<and> (\<forall>now' < now + lock_expiry. get u now' s' = COk (None, s'))
    \<and> put (Some a) s' = COk s'' \<and> R s'' A"
proof -
  from get_fresh [OF assms] obtain a s' s'' where
    s: "get u now s = COk (Some a, s')" "R s' (A(uhash u := A (uhash u) @ [(u, now)]))"
      "put (Some a) s' = COk s''" "R s'' A" by blast
  have "get u now' s' = COk (None, s')" if "now' < now + lock_expiry" for now'
    by (rule get_busy [OF s(2), of u now]) (use that in simp_all)
  with s show ?thesis by blast
qed

lemma nested:
  assumes "R s A" and "u \<noteq> v" and "u \<notin> fst ` set (A (uhash u))" and "v \<notin> fst ` set (A (uhash v))"
  shows "\<exists>a s1 b s2 s3. get u t s = COk (Some a, s1) \<and> get v t' s1 = COk (Some b, s2)
    \<and> put (Some b) s2 = COk s3 \<and> R s3 (A(uhash u := A (uhash u) @ [(u, t)]))"
proof -
  from get_fresh [OF assms(1,3)] obtain a s1 where
    s1: "get u t s = COk (Some a, s1)" "R s1 (A(uhash u := A (uhash u) @ [(u, t)]))" by blast
  have "v \<notin> fst ` set ((A(uhash u := A (uhash u) @ [(u, t)])) (uhash v))"
    using assms(2,4) by auto
  from get_fresh [OF s1(2) this] s1(1) show ?thesis by blast
qed

end

definition lock_abs :: "locks_t \<Rightarrow> (nat \<Rightarrow> (string \<times> int) list) \<Rightarrow> bool" where
  "lock_abs lk A \<longleftrightarrow> (\<exists>X Y. lock_inv lk X Y A)"

lemma lock_abs_init: "lock_abs lock_init (\<lambda>b. [])"
  using lock_init_inv by (auto simp: lock_abs_def)

interpretation ulocks: lock_manager lock_get lock_put lock_abs
proof
  fix s A u t now
  assume "lock_abs s A" "(u, t) \<in> set (A (uhash u))" "now < t + lock_expiry"
  then show "lock_get u now s = COk (None, s)"
    by (auto simp: lock_abs_def intro: lock_get_held)
next
  fix s A u now
  assume "lock_abs s A" and u: "u \<notin> fst ` set (A (uhash u))"
  then obtain X Y where "lock_inv s X Y A" by (auto simp: lock_abs_def)
  from lock_get_free [OF this u, of now] obtain a s' ys where
    get: "lock_get u now s = COk (Some a, s')"
    and inv: "lock_inv s' (X(uhash u := X (uhash u) @ [a])) (Y(uhash u := ys)) (A(uhash u := A (uhash u) @ [(u, now)]))"
    by blast
  from lock_put_last [OF inv uhash_lt] obtain s'' where
    "lock_put (Some a) s' = COk s''" "lock_abs s'' (A(uhash u := A (uhash u)))"
    unfolding lock_abs_def by blast
  with get inv show "\<exists>a s' s''. lock_get u now s = COk (Some a, s')
      \<and> lock_abs s' (A(uhash u := A (uhash u) @ [(u, now)])) \<and> lock_put (Some a) s' = COk s'' \<and> lock_abs s'' A"
    unfolding lock_abs_def by (metis fun_upd_triv)
qed

section \<open>Properties\<close>



text \<open>
  Locks of the same bucket have to be given back in the reverse order. Where two users whose
  names hash to the same bucket hold the first two locks of their chain and the one that was granted
  first is released first, \<open>lock_put\<close> reaches \<open>last->next->prev\<close> with \<open>last->next\<close> null.
\<close>

theorem lock_put_out_of_order_faults:
  assumes "uhash u = uhash v" and "u \<noteq> v"
  shows "\<exists>a lk1 b lk2. lock_get u t lock_init = COk (Some a, lk1) \<and> lock_get v t' lk1 = COk (Some b, lk2)
    \<and> lock_put (Some a) lk2 = CFault"
proof -
  define b where "b = uhash v"
  have b: "b < 64" "uhash u = b" using uhash_lt [of v] assms(1) by (simp_all add: b_def UHASH_SIZE_def)
  then have ne: "b \<noteq> 64" "64 \<noteq> b" by auto
  define n0 where "n0 = \<lparr>l_username = Some u, l_ltime = t, l_prev = None, l_next = None\<rparr>"
  define lk1 where "lk1 = set_chain b \<lparr>lc_first = Some b, lc_last = Some b\<rparr> (set_node b n0 lock_init)"
  have get1: "lock_get u t lock_init = COk (Some b, lk1)"
    using b by (simp add: lock_get_def find_lock_def lock_init_def upd_node_def deref_def lk1_def n0_def
        set_node_def set_chain_def UHASH_SIZE_def)
  define lk2 where "lk2 = set_chain b \<lparr>lc_first = Some b, lc_last = Some 64\<rparr>
    (set_node 64 \<lparr>l_username = Some v, l_ltime = t', l_prev = Some b, l_next = None\<rparr>
      (set_node b (n0\<lparr>l_next := Some 64\<rparr>) (lk1\<lparr>lk_free := 65\<rparr>)))"
  have walk: "find_walk 64 lk1 v (Some b) (Some b) = COk (False, None)"
    using b assms(2) by (simp add: numeral_eq_Suc lk1_def n0_def username_is_def)
  have lk1: "lk_heap lk1 b = Some n0" "lk_free lk1 = 64" "lk_chain lk1 b = \<lparr>lc_first = Some b, lc_last = Some b\<rparr>"
    by (simp_all add: lk1_def lock_init_def UHASH_SIZE_def)
  have get2: "lock_get v t' lk1 = COk (Some 64, lk2)"
    using ne walk lk1
    by (simp add: lock_get_def b_def [symmetric] find_lock_def lock_alloc_def upd_node_def deref_def Let_def
        lk2_def set_node_def set_chain_def n0_def fun_upd_twist [of b 64])
  have "lk_heap lk2 b = Some (n0\<lparr>l_next := Some 64\<rparr>)" "lc_last (lk_chain lk2 b) = Some 64"
    "lk_heap lk2 64 = Some \<lparr>l_username = Some v, l_ltime = t', l_prev = Some b, l_next = None\<rparr>"
    using ne by (simp_all add: lk2_def)
  then have "lock_put (Some b) lk2 = CFault"
    using ne b(2) by (simp add: lock_put_def n0_def upd_node_opt_def upd_node_def deref_def Let_def)
  with get1 get2 show ?thesis by blast
qed

theorem lock_put_out_of_order_faults_witness:
  "\<exists>a lk1 b lk2. lock_get ''ab'' 1 lock_init = COk (Some a, lk1) \<and> lock_get ''ba'' 2 lk1 = COk (Some b, lk2)
    \<and> lock_put (Some a) lk2 = CFault"
  by (rule lock_put_out_of_order_faults) (simp_all add: uhash_def cstr_def xor.commute)

text \<open>
  A broken stale lock is released twice. When the holder of a lock is overtaken after it expired,
  \<open>lock_get\<close> hands out the same node again; the first release clears the user name and the second
  one hashes a null pointer.
\<close>

theorem lock_stale_double_release_faults:
  assumes "t + lock_expiry \<le> t'"
  shows "\<exists>a lk1 lk2 lk3. lock_get u t lock_init = COk (Some a, lk1) \<and> lock_get u t' lk1 = COk (Some a, lk2)
    \<and> lock_put (Some a) lk2 = COk lk3 \<and> lock_put (Some a) lk3 = CFault"
proof -
  define b where "b = uhash u"
  have b: "b < 64" using uhash_lt [of u] by (simp add: b_def UHASH_SIZE_def)
  define n0 where "n0 t = \<lparr>l_username = Some u, l_ltime = t, l_prev = None, l_next = None\<rparr>" for t
  define lk1 where "lk1 = set_chain b \<lparr>lc_first = Some b, lc_last = Some b\<rparr> (set_node b (n0 t) lock_init)"
  have get1: "lock_get u t lock_init = COk (Some b, lk1)"
    using b by (simp add: lock_get_def b_def [symmetric] find_lock_def lock_init_def upd_node_def deref_def
        lk1_def n0_def set_node_def set_chain_def UHASH_SIZE_def)
  have walk: "find_walk 64 lk1 u (Some b) (Some b) = COk (True, Some b)"
    by (simp add: numeral_eq_Suc lk1_def n0_def username_is_def)
  have lk1: "lk_heap lk1 b = Some (n0 t)" "lk_free lk1 = 64"
    "lk_chain lk1 b = \<lparr>lc_first = Some b, lc_last = Some b\<rparr>"
    by (simp_all add: lk1_def lock_init_def UHASH_SIZE_def)
  define lk2 where "lk2 = set_node b (n0 t') lk1"
  have get2: "lock_get u t' lk1 = COk (Some b, lk2)"
    using walk lk1 assms by (simp add: lock_get_def b_def [symmetric] find_lock_def lk2_def n0_def)
  define lk3 where "lk3 = set_chain b \<lparr>lc_first = Some b, lc_last = None\<rparr> (set_node b (n0 t'\<lparr>l_username := None\<rparr>) lk2)"
  have "lock_put (Some b) lk2 = COk lk3"
    using lk1 by (simp add: lock_put_def lk2_def lk3_def n0_def b_def [symmetric] Let_def)
  moreover have "lock_put (Some b) lk3 = CFault"
    by (simp add: lock_put_def lk3_def)
  ultimately show ?thesis using get1 get2 by blast
qed

theorem lock_stale_double_release_faults_witness:
  "\<exists>a lk1 lk2 lk3. lock_get ''joe'' 0 lock_init = COk (Some a, lk1)
    \<and> lock_get ''joe'' 24000000000 lk1 = COk (Some a, lk2)
    \<and> lock_put (Some a) lk2 = COk lk3 \<and> lock_put (Some a) lk3 = CFault"
  by (rule lock_stale_double_release_faults) (simp add: lock_expiry_def)

end
