(* ===== verification/Otpd_State.thy ===== *)
theory Otpd_State
  imports Otpd_Lock Otpd_Gsm
begin

text \<open>
  The state manager of \<^verbatim>\<open>src/state.c\<close>: \<open>state_get\<close> and \<open>state_put\<close> in local mode (lock table and
  state file) and in global mode (socket and exchange with a global state manager).

  \<open>world_t\<close> is the state outside the request: the lock table, the file system, the configured global
  state managers, the nonce counter, the number of open sockets and the failover semaphores that were
  posted. \<open>env_t\<close> is what the environment does during one request.
\<close>

section \<open>Definitions\<close>

record world_t =
  w_locks :: locks_t
  w_fs :: fs_t
  w_gsmds :: "helix_scontext_t gsmd_chain"
  w_seq :: u32
  w_sockets :: nat
  w_posts :: "string list"

record env_t =
  env_lock_now :: int
  env_io :: io_t
  env_socket_err :: bool
  env_connect_err :: bool
  env_ioctl_err :: bool
  env_streamid :: "u32 \<times> u32"
  env_net_get :: "(net_ev \<times> int) list"
  env_net_put :: "(net_ev \<times> int) list"
  env_hr_get :: int
  env_hr_put :: int
  env_stack :: "byte list"

subsection \<open>Local state\<close>

text \<open>\<open>lock_put\<close> on the world.\<close>

definition world_lock_put :: "nat option \<Rightarrow> world_t \<Rightarrow> world_t cres" where
  "world_lock_put lock w = cbind (lock_put lock (w_locks w)) (\<lambda>lk. COk (w\<lparr>w_locks := lk\<rparr>))"

text \<open>The result \<open>(None, w)\<close> is the return value -1.\<close>

definition state_get_local :: "env_t \<Rightarrow> config_t \<Rightarrow> user_t \<Rightarrow> state_t \<Rightarrow> world_t \<Rightarrow> (state_t option \<times> world_t) cres" where
  "state_get_local env config user state w =
     cbind (lock_get (u_username user) (env_lock_now env) (w_locks w)) (\<lambda>(lock, lk).
       let state = state\<lparr>s_lock := lock\<rparr>; w = w\<lparr>w_locks := lk\<rparr> in
       if lock = None then COk (None, w)
       else case state_read (env_io env) (w_fs w) (c_statedir config) (u_username user) of
         COk buf \<Rightarrow>
           (case state_parse buf (u_username user) state of
              COk state \<Rightarrow> COk (Some (state\<lparr>s_locked := True, s_updated := False\<rparr>), w)
            | _ \<Rightarrow> cbind (world_lock_put lock w) (\<lambda>w. COk (None, w)))
       | _ \<Rightarrow> cbind (world_lock_put lock w) (\<lambda>w. COk (None, w)))"

definition state_put_local :: "env_t \<Rightarrow> config_t \<Rightarrow> user_t \<Rightarrow> state_t \<Rightarrow> world_t \<Rightarrow> (bool \<times> state_t \<times> world_t) cres" where
  "state_put_local env config user state w =
     (let (rc, w) =
        (if s_updated state
         then case state_write (env_io env) (w_fs w) (c_statedir config) (u_username user) (state_unparse user state)
              of (r, fs) \<Rightarrow> (r = COk (), w\<lparr>w_fs := fs\<rparr>)
         else (True, w))
      in cbind (world_lock_put (s_lock state) w) (\<lambda>w. COk (rc, state\<lparr>s_locked := False\<rparr>, w)))"

subsection \<open>Global state\<close>

definition close_socket :: "world_t \<Rightarrow> world_t" where
  "close_socket w = w\<lparr>w_sockets := w_sockets w - 1\<rparr>"

text \<open>\<open>gsmd ()\<close> on the world.\<close>

definition world_gsmd :: "helix_scontext_t gsmd_t \<Rightarrow> int \<Rightarrow> user_t \<Rightarrow> state_t \<Rightarrow> string \<Rightarrow> env_t \<Rightarrow>
    (net_ev \<times> int) list \<Rightarrow> int \<Rightarrow> world_t \<Rightarrow> (nat \<times> byte list) option \<times> state_t \<times> world_t" where
  "world_gsmd g timeout user state cmsg env net hr0 w =
     (let out = gsmd g timeout user state cmsg (env_streamid env) (w_seq w) net hr0 (env_stack env)
      in (go_reply out, go_state out,
          w\<lparr>w_seq := go_seq out, w_posts := (if go_post out then [g_name g] else []) @ w_posts w\<rparr>))"

text \<open>\<open>&pmsg[3+ulen]\<close> with length \<open>len - (3+ulen)\<close>.\<close>

definition reply_body :: "nat \<Rightarrow> nat \<Rightarrow> byte list \<Rightarrow> string" where
  "reply_body ulen len pp = chars_of (take (len - (3 + ulen)) (drop (HELIX_NONCE_LEN + (3 + ulen)) pp))"

definition state_get_global :: "env_t \<Rightarrow> config_t \<Rightarrow> user_t \<Rightarrow> state_t \<Rightarrow> world_t \<Rightarrow> (state_t option \<times> world_t) cres" where
  "state_get_global env config user state w =
     (case gsmd_get (w_gsmds w) (u_gsmd user) of
        None \<Rightarrow> COk (None, w)
      | Some g \<Rightarrow>
          if env_socket_err env then COk (None, w)
          else
            let w = w\<lparr>w_sockets := w_sockets w + 1\<rparr>;
                state = state\<lparr>s_gname := g_name g, s_gactive := g_active g\<rparr>
            in if env_connect_err env then COk (None, close_socket w)
               else if env_ioctl_err env then COk (None, close_socket w)
               else
                 (case world_gsmd g (c_timeout config) user state (''G '' @ u_username user) env
                         (env_net_get env) (env_hr_get env) w of
                    (None, state, w) \<Rightarrow> COk (None, close_socket w)
                  | (Some (len, pp), state, w) \<Rightarrow>
                      (case state_parse (reply_body (length (u_username user)) len pp) (u_username user) state of
                         COk state \<Rightarrow> COk (Some (state\<lparr>s_locked := True, s_updated := False\<rparr>), w)
                       | _ \<Rightarrow> COk (None, close_socket w))))"

definition state_put_global :: "env_t \<Rightarrow> config_t \<Rightarrow> user_t \<Rightarrow> state_t \<Rightarrow> world_t \<Rightarrow> (bool \<times> state_t \<times> world_t) cres" where
  "state_put_global env config user state w =
     (case gsmd_get (w_gsmds w) (s_gname state) of
        None \<Rightarrow> CFault
      | Some g \<Rightarrow>
          let cmsg = (if s_updated state then ''P '' @ u_username user @ '' '' @ state_unparse user state
                      else ''P '' @ u_username user)
          in case world_gsmd g (c_timeout config) user state cmsg env (env_net_put env) (env_hr_put env) w of
               (None, state, w) \<Rightarrow> COk (False, state, close_socket w)
             | (Some _, state, w) \<Rightarrow> COk (True, state\<lparr>s_locked := False\<rparr>, close_socket w))"

definition state_get :: "env_t \<Rightarrow> config_t \<Rightarrow> user_t \<Rightarrow> state_t \<Rightarrow> world_t \<Rightarrow> (state_t option \<times> world_t) cres" where
  "state_get env config user state w =
     (let state = state\<lparr>s_locked := False\<rparr> in
      if c_state_mode config = SMODE_LOCAL then state_get_local env config user state w
      else state_get_global env config user state w)"

definition state_put :: "env_t \<Rightarrow> config_t \<Rightarrow> user_t \<Rightarrow> state_t \<Rightarrow> world_t \<Rightarrow> (bool \<times> state_t \<times> world_t) cres" where
  "state_put env config user state w =
     (if \<not> s_locked state then COk (True, state, w)
      else if c_state_mode config = SMODE_LOCAL then state_put_local env config user state w
      else state_put_global env config user state w)"

subsection \<open>Sample values\<close>

text \<open>An environment in which every system call succeeds, for evaluating the model.\<close>

definition sample_io :: io_t where
  "sample_io = \<lparr>io_open_err = False, io_reads = [], io_lseek_err = False,
     io_mkstemp = Some ''abcdef'', io_writes = [], io_rename_err = False\<rparr>"

definition sample_env :: env_t where
  "sample_env = \<lparr>env_lock_now = 0, env_io = sample_io, env_socket_err = False, env_connect_err = False,
     env_ioctl_err = False, env_streamid = (1, 2), env_net_get = [], env_net_put = [], env_hr_get = 0,
     env_hr_put = 0, env_stack = []\<rparr>"

definition sample_world :: world_t where
  "sample_world = \<lparr>w_locks = lock_init, w_fs = Map.empty, w_gsmds = gsmd_empty, w_seq = nonce_seq_init,
     w_sockets = 0, w_posts = []\<rparr>"

definition sample_config :: config_t where
  "sample_config = \<lparr>c_hardfail = 0, c_softfail = 0, c_timeout = 10000000000, c_prepend_pin = True,
     c_ewindow_size = 5, c_rwindow_size = 25, c_site_transform = True, c_file_passwd = ''p'',
     c_file_encryptmode = EMODE_CLEAR, c_file_keyid = 0, c_file_gsmd = [], c_key = Map.empty,
     c_state_mode = SMODE_LOCAL, c_statedir = ''d''\<rparr>"

section \<open>The contract of the state manager\<close>

text \<open>
  What the verification relies on. \<open>idle u w\<close>: no request of user \<open>u\<close> is in progress. A transaction is
  a \<open>get\<close> that succeeds and a \<open>put\<close> of a state with the same handle (the lock node, or the state
  manager and sequence number); it never faults and ends idle, and so does a \<open>get\<close> that fails.
\<close>

definition same_handle :: "state_t \<Rightarrow> state_t \<Rightarrow> bool" where
  "same_handle st st' \<longleftrightarrow> s_locked st' = s_locked st \<and> s_lock st' = s_lock st \<and> s_gname st' = s_gname st
     \<and> s_gactive st' = s_gactive st \<and> s_gseq st' = s_gseq st"

lemma same_handle_trans: "same_handle a b \<Longrightarrow> same_handle b c \<Longrightarrow> same_handle a c"
  by (simp add: same_handle_def)

locale state_store =
  fixes get :: "user_t \<Rightarrow> state_t \<Rightarrow> 'w \<Rightarrow> (state_t option \<times> 'w) cres"
    and put :: "user_t \<Rightarrow> state_t \<Rightarrow> 'w \<Rightarrow> (bool \<times> state_t \<times> 'w) cres"
    and idle :: "user_t \<Rightarrow> 'w \<Rightarrow> bool"
  assumes get_returns: "idle u w \<Longrightarrow> \<exists>r w'. get u st w = COk (r, w')"
    and get_failed: "idle u w \<Longrightarrow> get u st w = COk (None, w') \<Longrightarrow> idle u w'"
    and get_flags: "get u st w = COk (Some st', w') \<Longrightarrow> s_locked st' \<and> \<not> s_updated st'"
    and transaction: "idle u w \<Longrightarrow> get u st w = COk (Some st1, w1) \<Longrightarrow> same_handle st1 st2 \<Longrightarrow>
      \<exists>ok st3 w2. put u st2 w1 = COk (ok, st3, w2) \<and> idle u w2"
begin

text \<open>A request that reads the state, computes \<open>f\<close> and writes it back, or gives up.\<close>

lemma request_ends_idle:
  assumes "idle u w" and "\<And>st'. same_handle st' (f st')"
  shows "\<exists>w'. idle u w' \<and> (get u st w = COk (None, w')
    \<or> (\<exists>st1 w1 ok st3. get u st w = COk (Some st1, w1) \<and> put u (f st1) w1 = COk (ok, st3, w')))"
proof -
  obtain r w1 where g: "get u st w = COk (r, w1)" using get_returns [OF assms(1)] by blast
  show ?thesis
  proof (cases r)
    case None
    with g get_failed [OF assms(1)] show ?thesis by blast
  next
    case (Some st1)
    with g transaction [OF assms(1) _ assms(2)] show ?thesis by blast
  qed
qed

end

section \<open>Lemmas\<close>

definition idle :: "(nat \<Rightarrow> (string \<times> int) list) \<Rightarrow> nat \<Rightarrow> user_t \<Rightarrow> world_t \<Rightarrow> bool" where
  "idle A n u w \<longleftrightarrow> lock_abs (w_locks w) A \<and> u_username u \<notin> fst ` set (A (uhash (u_username u))) \<and> w_sockets w = n"

lemma state_parse_handle: "state_parse buf u st = COk st' \<Longrightarrow> same_handle st st' \<and> s_scratch1 st' = s_scratch1 st"
  by (auto simp: state_parse_def challenge_field_def csd_field_def rd_field_def counter_fields_def
      same_handle_def Let_def split: if_splits option.splits)

lemma state_parse_gname: "state_parse buf u st = COk st' \<Longrightarrow> s_gname st' = s_gname st"
  by (drule state_parse_handle) (simp add: same_handle_def)

text \<open>The three outcomes of \<open>state_get_local\<close> for a user without a lock.\<close>

lemma state_get_local_cases:
  assumes "lock_abs (w_locks w) A" and "u_username u \<notin> fst ` set (A (uhash (u_username u)))"
  shows "\<exists>lk lk' a. lock_put (Some a) lk = COk lk' \<and> lock_abs lk' A
    \<and> (state_get_local env config u st w = COk (None, w\<lparr>w_locks := lk'\<rparr>)
       \<or> (\<exists>buf st1. state_read (env_io env) (w_fs w) (c_statedir config) (u_username u) = COk buf
           \<and> state_parse buf (u_username u) (st\<lparr>s_lock := Some a\<rparr>) = COk st1
           \<and> state_get_local env config u st w =
               COk (Some (st1\<lparr>s_locked := True, s_updated := False\<rparr>), w\<lparr>w_locks := lk\<rparr>)))"
proof -
  obtain a lk lk' where get: "lock_get (u_username u) (env_lock_now env) (w_locks w) = COk (Some a, lk)"
    and put: "lock_put (Some a) lk = COk lk'" "lock_abs lk' A"
    using ulocks.get_fresh [OF assms, of "env_lock_now env"] by blast
  then show ?thesis
    by (intro exI [of _ lk] exI [of _ lk'] exI [of _ a] conjI put)
      (auto simp: state_get_local_def world_lock_put_def Let_def split: cres.splits)
qed

lemma state_put_local_cases:
  assumes "lock_put (s_lock st) (w_locks w) = COk lk'"
  shows "s_updated st \<and> state_put_local env config u st w = COk (False, st\<lparr>s_locked := False\<rparr>, w\<lparr>w_locks := lk'\<rparr>)
    \<or> \<not> s_updated st \<and> state_put_local env config u st w = COk (True, st\<lparr>s_locked := False\<rparr>, w\<lparr>w_locks := lk'\<rparr>)
    \<or> s_updated st \<and> state_put_local env config u st w = COk (True, st\<lparr>s_locked := False\<rparr>,
        w\<lparr>w_fs := (w_fs w)(state_filename (c_statedir config) (u_username u) \<mapsto> add_newline (state_unparse u st)),
          w_locks := lk'\<rparr>)"
  using assms state_write_cases [of "env_io env" "w_fs w" "c_statedir config" "u_username u" "state_unparse u st"]
  by (cases "s_updated st") (auto simp: state_put_local_def world_lock_put_def Let_def)

lemma world_gsmd_frame:
  "world_gsmd g timeout user state cmsg env net hr0 w = (r, state', w') \<Longrightarrow>
     w_sockets w' = w_sockets w \<and> w_locks w' = w_locks w \<and> w_gsmds w' = w_gsmds w \<and> w_fs w' = w_fs w
     \<and> s_gname state' = s_gname state \<and> s_locked state' = s_locked state"
  by (auto simp: world_gsmd_def gsmd_def Let_def)

lemma gsmd_get_name: "gsmd_get chain name = Some g \<Longrightarrow> g_name g = name"
  by (auto simp: gsmd_get_def find_Some_iff)

lemma state_get_global_cases:
  shows "\<exists>r w'. state_get_global env config u st w = COk (r, w') \<and> w_locks w' = w_locks w \<and> w_fs w' = w_fs w
    \<and> w_gsmds w' = w_gsmds w
    \<and> (case r of None \<Rightarrow> w_sockets w' = w_sockets w
       | Some st1 \<Rightarrow> s_locked st1 \<and> \<not> s_updated st1 \<and> w_sockets w' = w_sockets w + 1
           \<and> gsmd_get (w_gsmds w') (s_gname st1) \<noteq> None)"
proof (cases "gsmd_get (w_gsmds w) (u_gsmd u)")
  case (Some g)
  note name = gsmd_get_name [OF Some]
  define st' w1 where "st' = st\<lparr>s_gname := g_name g, s_gactive := g_active g\<rparr>"
    and "w1 = w\<lparr>w_sockets := w_sockets w + 1\<rparr>"
  obtain r st1 w2 where ex: "world_gsmd g (c_timeout config) u st' (''G '' @ u_username u) env
      (env_net_get env) (env_hr_get env) w1 = (r, st1, w2)"
    by (meson prod_cases3)
  note fr = world_gsmd_frame [OF ex]
  have gn: "s_gname st1 = u_gsmd u" using fr name by (simp add: st'_def)
  consider "env_socket_err env" | "\<not> env_socket_err env" "env_connect_err env \<or> env_ioctl_err env"
    | "\<not> env_socket_err env" "\<not> env_connect_err env" "\<not> env_ioctl_err env" by blast
  then show ?thesis
  proof cases
    case 3
    have eq: "state_get_global env config u st w = (case (r, st1, w2) of
        (None, state, w) \<Rightarrow> COk (None, close_socket w)
      | (Some (len, pp), state, w) \<Rightarrow>
          (case state_parse (reply_body (length (u_username u)) len pp) (u_username u) state of
             COk state \<Rightarrow> COk (Some (state\<lparr>s_locked := True, s_updated := False\<rparr>), w)
           | _ \<Rightarrow> COk (None, close_socket w)))"
      unfolding state_get_global_def Some
      by (simp only: option.case Let_def 3 if_False st'_def [symmetric] w1_def [symmetric] ex)
    show ?thesis
    proof (cases "r")
      case None
      then show ?thesis using fr by (simp add: eq close_socket_def w1_def)
    next
      case (Some lp)
      define ps where "ps = state_parse (reply_body (length (u_username u)) (fst lp) (snd lp)) (u_username u) st1"
      have eq': "state_get_global env config u st w = (case ps of
          COk state \<Rightarrow> COk (Some (state\<lparr>s_locked := True, s_updated := False\<rparr>), w2)
        | _ \<Rightarrow> COk (None, close_socket w2))"
        by (cases lp) (simp add: eq Some ps_def)
      have "gsmd_get (w_gsmds w2) (s_gname st2) = Some g" if "ps = COk st2" for st2
        using state_parse_gname that gn fr \<open>gsmd_get (w_gsmds w) (u_gsmd u) = Some g\<close>
        by (fastforce simp: ps_def w1_def)
      then show ?thesis
        using fr by (cases ps) (simp_all add: eq' close_socket_def w1_def)
    qed
  qed (auto simp: state_get_global_def Some Let_def close_socket_def)
qed (simp add: state_get_global_def)

lemma state_put_global_returns:
  assumes "gsmd_get (w_gsmds w) (s_gname st) \<noteq> None"
  shows "\<exists>ok st' w'. state_put_global env config u st w = COk (ok, st', w') \<and> w_locks w' = w_locks w
    \<and> w_fs w' = w_fs w \<and> w_sockets w' = w_sockets w - 1"
proof -
  obtain g where g: "gsmd_get (w_gsmds w) (s_gname st) = Some g" using assms by blast
  define cmsg where "cmsg = (if s_updated st then ''P '' @ u_username u @ '' '' @ state_unparse u st else ''P '' @ u_username u)"
  obtain r st1 w2 where ex: "world_gsmd g (c_timeout config) u st cmsg env (env_net_put env) (env_hr_put env) w = (r, st1, w2)"
    by (meson prod_cases3)
  show ?thesis
    using world_gsmd_frame [OF ex]
    by (cases r) (auto simp: state_put_global_def g cmsg_def [symmetric] ex close_socket_def Let_def)
qed

lemma state_get_local_flags:
  "state_get_local env config u st w = COk (Some st', w') \<Longrightarrow> s_locked st' \<and> \<not> s_updated st'"
  by (auto simp: state_get_local_def world_lock_put_def Let_def split: if_splits cres.splits)

interpretation store: state_store "state_get env config" "state_put env (config\<lparr>c_timeout := tmo\<rparr>)" "idle A n"
  for env config tmo A n
proof
  fix u w st
  assume "idle A n u w"
  then show "\<exists>r w'. state_get env config u st w = COk (r, w')"
    using state_get_local_cases [of w A u env config "st\<lparr>s_locked := False\<rparr>"]
      state_get_global_cases [of env config u "st\<lparr>s_locked := False\<rparr>" w]
    by (cases "c_state_mode config = SMODE_LOCAL") (auto simp: state_get_def idle_def)
next
  fix u w st w'
  assume "idle A n u w" "state_get env config u st w = COk (None, w')"
  then show "idle A n u w'"
    using state_get_local_cases [of w A u env config "st\<lparr>s_locked := False\<rparr>"]
      state_get_global_cases [of env config u "st\<lparr>s_locked := False\<rparr>" w]
    by (cases "c_state_mode config = SMODE_LOCAL") (auto simp: state_get_def idle_def)
next
  fix u w st st' w'
  assume "state_get env config u st w = COk (Some st', w')"
  then show "s_locked st' \<and> \<not> s_updated st'"
    using state_get_local_flags state_get_global_cases [of env config u "st\<lparr>s_locked := False\<rparr>" w]
    by (cases "c_state_mode config = SMODE_LOCAL") (auto simp: state_get_def)
next
  fix u w st st1 w1 st2
  assume idle: "idle A n u w" and get: "state_get env config u st w = COk (Some st1, w1)" and h: "same_handle st1 st2"
  show "\<exists>ok st3 w2. state_put env (config\<lparr>c_timeout := tmo\<rparr>) u st2 w1 = COk (ok, st3, w2) \<and> idle A n u w2"
  proof (cases "c_state_mode config = SMODE_LOCAL")
    case True
    obtain a lk lk' st' where "lock_put (Some a) lk = COk lk'" "lock_abs lk' A"
      "same_handle (st\<lparr>s_locked := False, s_lock := Some a\<rparr>) st'"
      "st1 = st'\<lparr>s_locked := True, s_updated := False\<rparr>" "w1 = w\<lparr>w_locks := lk\<rparr>"
      using state_get_local_cases [of w A u env config "st\<lparr>s_locked := False\<rparr>"] idle get True
      by (auto simp: state_get_def idle_def dest: state_parse_handle)
    with h have "s_locked st2" "lock_put (s_lock st2) (w_locks w1) = COk lk'" "w_sockets w1 = w_sockets w"
      by (auto simp: same_handle_def)
    with state_put_local_cases [of st2 w1 lk' env "config\<lparr>c_timeout := tmo\<rparr>" u] idle \<open>lock_abs lk' A\<close> True
    show ?thesis by (auto simp: state_put_def idle_def)
  next
    case False
    then have "gsmd_get (w_gsmds w1) (s_gname st1) \<noteq> None" "w_sockets w1 = w_sockets w + 1" "w_locks w1 = w_locks w" "s_locked st1"
      using state_get_global_cases [of env config u "st\<lparr>s_locked := False\<rparr>" w] get by (auto simp: state_get_def)
    with h state_put_global_returns [of w1 st2 env "config\<lparr>c_timeout := tmo\<rparr>" u] idle False
    show ?thesis by (auto simp: state_put_def idle_def same_handle_def)
  qed
qed

lemma get_case_iff:
  "(case r of COk (Some a, w) \<Rightarrow> P a w | _ \<Rightarrow> False) \<longleftrightarrow> (\<exists>a w. r = COk (Some a, w) \<and> P a w)"
  by (cases r) (auto split: option.splits)

lemma put_case_iff:
  "(case r of COk (True, st, w) \<Rightarrow> P st w | _ \<Rightarrow> False) \<longleftrightarrow> (\<exists>st w. r = COk (True, st, w) \<and> P st w)"
  by (cases r) (auto split: bool.splits)

lemma state_unparse_last: "state_unparse u st \<noteq> [] \<and> last (state_unparse u st) \<noteq> CHR 0x0A"
  by (simp add: state_unparse_def)

lemma state_get_local_reads:
  assumes "state_get_local env config u st w = COk (Some st1, w1)"
  shows "\<exists>a buf st'. state_read (env_io env) (w_fs w) (c_statedir config) (u_username u) = COk buf
    \<and> state_parse buf (u_username u) (st\<lparr>s_lock := Some a\<rparr>) = COk st'
    \<and> st1 = st'\<lparr>s_locked := True, s_updated := False\<rparr> \<and> w_fs w1 = w_fs w"
  using assms by (auto simp: state_get_local_def world_lock_put_def Let_def split: if_splits cres.splits) blast

text \<open>What is on disk for a user is what the next request of that user sees.\<close>

lemma state_get_local_stored:
  assumes fs: "w_fs w (state_filename (c_statedir config) (u_username u)) = Some (add_newline (state_unparse u st))"
    and wf: "state_wf st" "no_nul (u_username u)"
    and get: "state_get_local env config u st0 w = COk (Some st1, w1)"
  shows "same_state st1 st"
proof -
  obtain a buf st' where buf: "state_read (env_io env) (w_fs w) (c_statedir config) (u_username u) = COk buf"
    and parse: "state_parse buf (u_username u) (st0\<lparr>s_lock := Some a\<rparr>) = COk st'"
    and st1: "st1 = st'\<lparr>s_locked := True, s_updated := False\<rparr>"
    using state_get_local_reads [OF get] by blast
  have "buf = state_unparse u st @ [NUL]"
    using state_read_written [of "w_fs w" "c_statedir config" "u_username u" "state_unparse u st" "env_io env"] fs
      state_unparse_last [of u st] buf by auto
  with parse state_parse_unparse_eq [OF wf, of "st0\<lparr>s_lock := Some a\<rparr>"] have
    "st' = st0\<lparr>s_lock := Some a, s_nullstate := False, s_clen := s_clen st,
      s_challenge := memcpy (s_challenge st0) (take (s_clen st) (s_challenge st)) (s_clen st),
      s_csd := s_csd st, s_rd := s_rd st, s_failcount := s_failcount st, s_authtime := s_authtime st,
      s_mincardtime := s_mincardtime st\<rparr>" by simp
  then show ?thesis
    using wf(1) by (simp add: st1 same_state_def state_wf_def memcpy_def min_def)
qed

lemma state_put_local_stored:
  assumes "state_put_local env config u st w = COk (True, st', w')" and "s_updated st"
  shows "w_fs w' (state_filename (c_statedir config) (u_username u)) = Some (add_newline (state_unparse u st))"
proof -
  obtain lk' where "lock_put (s_lock st) (w_locks w) = COk lk'"
    using assms(1) by (auto simp: state_put_local_def world_lock_put_def Let_def split: if_splits prod.splits)
  from state_put_local_cases [OF this, of env config u] assms show ?thesis by auto
qed

section \<open>Properties\<close>

text \<open>
  C9: durability of the local state. Where \<open>state_put_local\<close> reports success for an updated state,
  every later request of that user that gets the state at all sees exactly that state, however the
  system calls of either request behave.
\<close>

theorem state_local_durable:
  assumes "state_put_local env config u st w = COk (True, st', w')" and "s_updated st"
    and "state_wf st" and "no_nul (u_username u)"
    and "w_fs w2 = w_fs w'" and "state_get_local env' config u st0 w2 = COk (Some st1, w3)"
  shows "same_state st1 st"
  using state_put_local_stored [OF assms(1,2)] assms(3-6) by (intro state_get_local_stored [of w2]) simp_all

theorem state_local_durable_witness:
  "\<exists>st w st' w' st1 w3. state_put_local sample_env sample_config sample_user st w = COk (True, st', w')
     \<and> state_get_local sample_env sample_config sample_user state_zero w' = COk (Some st1, w3) \<and> s_failcount st1 = 3"
proof -
  have "case state_get_local sample_env sample_config sample_user state_zero sample_world of
      COk (Some st0, w) \<Rightarrow>
        (case state_put_local sample_env sample_config sample_user (st0\<lparr>s_updated := True, s_failcount := 3\<rparr>) w of
           COk (True, st', w') \<Rightarrow>
             (case state_get_local sample_env sample_config sample_user state_zero w' of
                COk (Some st1, w3) \<Rightarrow> state_wf (st0\<lparr>s_updated := True, s_failcount := 3\<rparr>) | _ \<Rightarrow> False)
         | _ \<Rightarrow> False)
    | _ \<Rightarrow> False"
    by code_simp
  then obtain st0 w st' w' st1 w3 where
    put: "state_put_local sample_env sample_config sample_user (st0\<lparr>s_updated := True, s_failcount := 3\<rparr>) w = COk (True, st', w')"
    and get: "state_get_local sample_env sample_config sample_user state_zero w' = COk (Some st1, w3)"
    and wf: "state_wf (st0\<lparr>s_updated := True, s_failcount := 3\<rparr>)"
    unfolding get_case_iff put_case_iff by blast
  have "same_state st1 (st0\<lparr>s_updated := True, s_failcount := 3\<rparr>)"
    by (rule state_local_durable [OF put _ wf _ refl get]) (simp_all add: sample_user_def)
  then have "s_failcount st1 = 3" by (simp add: same_state_def)
  with put get show ?thesis by blast
qed

text \<open>
  C7: no transaction leaks. For a user without a request in progress, whatever the file system, the
  network and the state manager do, \<open>state_get\<close> returns; if it fails, or if it succeeds and the state
  is put back after any change that keeps its handle, the lock table holds the same locks and the
  same number of sockets is open as before.
\<close>

theorem state_transaction_no_leak:
  assumes "idle A n u w" and "\<And>st'. same_handle st' (f st')"
  shows "\<exists>w'. idle A n u w' \<and> (state_get env config u st w = COk (None, w')
    \<or> (\<exists>st1 w1 ok st3. state_get env config u st w = COk (Some st1, w1)
         \<and> state_put env (config\<lparr>c_timeout := tmo\<rparr>) u (f st1) w1 = COk (ok, st3, w')))"
  using assms by (rule store.request_ends_idle)

theorem state_transaction_no_leak_witness:
  "\<exists>w'. idle (\<lambda>b. []) 0 sample_user w' \<and> (state_get sample_env sample_config sample_user state_zero sample_world = COk (None, w')
    \<or> (\<exists>st1 w1 ok st3. state_get sample_env sample_config sample_user state_zero sample_world = COk (Some st1, w1)
         \<and> state_put sample_env (sample_config\<lparr>c_timeout := 1\<rparr>) sample_user (st1\<lparr>s_updated := True\<rparr>) w1 = COk (ok, st3, w')))"
  by (rule state_transaction_no_leak)
    (simp_all add: idle_def sample_world_def lock_abs_init same_handle_def)

end
