(* ===== verification/Otpd_Mac.thy ===== *)
theory Otpd_Mac
  imports Otpd_Types
begin

text \<open>
  The two message authentication codes behind the card responses: the HOTP value of
  \<^verbatim>\<open>src/hotp.c\<close> and the ANSI X9.9 MAC of \<^verbatim>\<open>src/x99.c\<close>.
\<close>

section \<open>Definitions\<close>

text \<open>The tables \<open>dmod\<close> and \<open>fmt\<close>, for the digits 6 to 9 that pass the range check.\<close>

definition hotp_dmod :: "nat \<Rightarrow> nat" where
  "hotp_dmod d = [0, 0, 0, 0, 0, 0, 1000000, 10000000, 100000000, 1000000000] ! d"

definition hotp_fmt :: "nat \<Rightarrow> nat \<Rightarrow> string" where
  "hotp_fmt d n = fmt_lu ([0, 0, 0, 0, 0, 0, 6, 7, 8, 9] ! d) n"

text \<open>The truncation step: \<open>offset = hmac[19] & 0x0F\<close>, then 31 bits from there.\<close>

definition hotp_dbc :: "byte list \<Rightarrow> u32" where
  "hotp_dbc hmac =
     (let offset = unat (hmac ! 19 AND 0x0F)
      in push_bit 24 (ucast (hmac ! offset AND 0x7F))
         OR push_bit 16 (ucast (hmac ! (offset + 1)))
         OR push_bit 8 (ucast (hmac ! (offset + 2)))
         OR ucast (hmac ! (offset + 3)))"

definition hotp_mac :: "crypto \<Rightarrow> byte list \<Rightarrow> byte list \<Rightarrow> nat \<Rightarrow> nat \<Rightarrow> string cres" where
  "hotp_mac cr counter key key_len d =
     (if d < 6 \<or> 9 < d then CErr (-1)
      else case hmac_sha1 cr (take key_len key) (take 8 counter) of
        None \<Rightarrow> CErr (-1)
      | Some hmac \<Rightarrow>
          if length hmac \<noteq> 20 then CErr (-1)
          else COk (hotp_fmt d (unat (hotp_dbc hmac) mod hotp_dmod d)))"

text \<open>
  \<open>l_output\<close> has room for two blocks and block \<open>(len - 1) / 8\<close> of it is the result, with
  \<open>len - 1\<close> computed as a \<open>size_t\<close>; a length of 0 or above 16 leaves the array.
\<close>

definition x99_mac :: "crypto \<Rightarrow> byte list \<Rightarrow> nat \<Rightarrow> byte list \<Rightarrow> byte list cres" where
  "x99_mac cr input len key =
     (if des_set_key_checked cr (take 8 key) \<noteq> 0 then CErr (-1)
      else if len = 0 \<or> 16 < len then CFault
      else COk (take 8 (drop (8 * ((len - 1) div 8)) (des_cbc_encrypt cr (take 8 key) (take len input)))))"

text \<open>RFC 4226, sections 5.3 and 5.4: the value of four octets as a big-endian number modulo \<open>2 ^ 31\<close>,
  then modulo \<open>10 ^ Digit\<close>.\<close>

definition rfc4226_value :: "byte list \<Rightarrow> nat \<Rightarrow> nat" where
  "rfc4226_value hs digit =
     (let off = unat (hs ! 19) mod 16;
          p = unat (hs ! off) * 2 ^ 24 + unat (hs ! (off + 1)) * 2 ^ 16
            + unat (hs ! (off + 2)) * 2 ^ 8 + unat (hs ! (off + 3))
      in p mod 2 ^ 31 mod 10 ^ digit)"

section \<open>Lemmas\<close>

lemma unat_and_7F: "unat ((b :: byte) AND 0x7F) = unat b mod 128"
proof -
  have "b AND 0x7F = take_bit 7 b"
    by (simp add: take_bit_eq_mask mask_eq_decr_exp)
  then show ?thesis
    by (simp add: unsigned_take_bit_eq take_bit_nat_def)
qed

lemma be32_or_eq_sum:
  fixes b0 b1 b2 b3 :: byte
  shows "push_bit 24 (ucast b0) OR push_bit 16 (ucast b1) OR push_bit 8 (ucast b2) OR ucast b3
    = (push_bit 24 (ucast b0) + (push_bit 16 (ucast b1) + (push_bit 8 (ucast b2) + ucast b3)) :: u32)"
  by (subst disjunctive_add, force simp: bit_simps dest: bit_imp_le_length)+ (simp add: or.assoc)

lemma unat_be32:
  fixes b0 b1 b2 b3 :: byte
  shows "unat (push_bit 24 (ucast b0) OR push_bit 16 (ucast b1) OR push_bit 8 (ucast b2) OR ucast b3 :: u32)
    = unat b0 * 2 ^ 24 + unat b1 * 2 ^ 16 + unat b2 * 2 ^ 8 + unat b3"
proof -
  have "push_bit 24 (ucast b0) + (push_bit 16 (ucast b1) + (push_bit 8 (ucast b2) + ucast b3))
      = (word_of_nat (unat b0 * 2 ^ 24 + unat b1 * 2 ^ 16 + unat b2 * 2 ^ 8 + unat b3) :: u32)"
    by (simp add: push_bit_eq_mult)
  moreover have "unat b0 * 2 ^ 24 + unat b1 * 2 ^ 16 + unat b2 * 2 ^ 8 + unat b3 < 2 ^ 32"
    using unat_byte_lt [of b0] unat_byte_lt [of b1] unat_byte_lt [of b2] unat_byte_lt [of b3] by simp
  ultimately show ?thesis
    by (simp only: be32_or_eq_sum unat_of_nat) simp
qed

lemma unat_hotp_dbc:
  "unat (hotp_dbc hs) =
     (let off = unat (hs ! 19) mod 16
      in (unat (hs ! off) * 2 ^ 24 + unat (hs ! (off + 1)) * 2 ^ 16
          + unat (hs ! (off + 2)) * 2 ^ 8 + unat (hs ! (off + 3))) mod 2 ^ 31)"
proof -
  define off where "off = unat (hs ! 19) mod 16"
  have m: "(a mod 128) * 2 ^ 24 + b * 2 ^ 16 + c * 2 ^ 8 + d = (a * 2 ^ 24 + b * 2 ^ 16 + c * 2 ^ 8 + d) mod 2 ^ 31"
    if "b < 256" "c < 256" "d < 256" for a b c d :: nat
  proof -
    have "a * 2 ^ 24 = (128 * (a div 128) + a mod 128) * 2 ^ 24" by simp
    also have "\<dots> = (a div 128) * 2 ^ 31 + (a mod 128) * 2 ^ 24" by (simp only: distrib_right) simp
    finally have "(a * 2 ^ 24 + b * 2 ^ 16 + c * 2 ^ 8 + d) = (a div 128) * 2 ^ 31 + ((a mod 128) * 2 ^ 24 + b * 2 ^ 16 + c * 2 ^ 8 + d)"
      by simp
    moreover have "(a mod 128) * 2 ^ 24 + b * 2 ^ 16 + c * 2 ^ 8 + d < 2 ^ 31"
      using that mod_less_divisor [of 128 a] by simp
    ultimately show ?thesis by (simp only: mod_mult_self3 mod_less)
  qed
  show ?thesis
    unfolding hotp_dbc_def Let_def byte_and_15 off_def [symmetric] unat_be32 unat_and_7F
    by (rule m) (rule unat_byte_lt)+
qed

lemma hotp_dmod_eq: "6 \<le> d \<Longrightarrow> d \<le> 9 \<Longrightarrow> hotp_dmod d = 10 ^ d \<and> hotp_fmt d n = fmt_lu d n"
  by (cases "d = 6"; cases "d = 7"; cases "d = 8"; cases "d = 9") (auto simp: hotp_dmod_def hotp_fmt_def)

lemma hotp_mac_COk_iff:
  "hotp_mac cr counter key kl d = COk s \<longleftrightarrow>
     6 \<le> d \<and> d \<le> 9 \<and> (\<exists>hs. hmac_sha1 cr (take kl key) (take 8 counter) = Some hs \<and> length hs = 20
        \<and> s = fmt_lu d (rfc4226_value hs d))"
  by (auto simp: hotp_mac_def hotp_dmod_eq unat_hotp_dbc rfc4226_value_def Let_def split: option.splits)

lemma hotp_mac_no_fault [simp]: "hotp_mac cr counter key kl d \<noteq> CFault"
  by (simp add: hotp_mac_def split: option.splits)

lemma length_hotp_mac: "hotp_mac cr counter key kl d = COk s \<Longrightarrow> length s = d"
  by (auto simp: hotp_mac_COk_iff rfc4226_value_def Let_def length_fmt_lu)

text \<open>
  Decimal digits by arithmetic on \<open>int\<close>, as a code equation: the modulus of the definition is a large
  natural number.
\<close>

fun dec_string :: "nat \<Rightarrow> int \<Rightarrow> string" where
  "dec_string 0 n = []"
| "dec_string (Suc w) n = dec_string w (n div 10) @ [digit_char (nat (n mod 10))]"

lemma fmt_lu_snoc:
  assumes "0 < w"
  shows "fmt_lu (Suc w) n = fmt_lu w (n div 10) @ [digit_char (n mod 10)]"
proof (cases "n < 10")
  case True
  have "replicate w c = replicate (w - Suc 0) c @ [c]" for c :: char
    using assms by (cases w) (simp_all add: replicate_append_same)
  with True show ?thesis
    by (simp add: fmt_lu_def radix_string.simps [of 10 n] radix_string.simps [of 10 0] digit_char_def Let_def)
next
  case False
  then show ?thesis by (simp add: fmt_lu_def radix_string.simps [of 10 n] Let_def)
qed

lemma fmt_lu_dec_string: "0 < w \<Longrightarrow> fmt_lu w (n mod 10 ^ w) = dec_string w (int n)"
proof (induction w arbitrary: n)
  case (Suc w)
  have digit: "n mod (10 * 10 ^ w) mod 10 = n mod 10" by (simp add: mod_mult2_eq)
  show ?case
  proof (cases "w = 0")
    case True
    then show ?thesis
      by (simp add: fmt_lu_def radix_string.simps [of 10 "n mod 10"] nat_mod_distrib Let_def)
  next
    case False
    have "n mod (10 * 10 ^ w) div 10 = n div 10 mod 10 ^ w" by (simp add: mod_mult2_eq)
    with Suc.IH [of "n div 10"] False digit show ?thesis
      by (simp add: fmt_lu_snoc zdiv_int nat_mod_distrib)
  qed
qed simp

lemma hotp_mac_code [code]:
  "hotp_mac cr counter key key_len d =
     (if d < 6 \<or> 9 < d then CErr (-1)
      else case hmac_sha1 cr (take key_len key) (take 8 counter) of
        None \<Rightarrow> CErr (-1)
      | Some hmac \<Rightarrow>
          if length hmac \<noteq> 20 then CErr (-1) else COk (dec_string d (uint (hotp_dbc hmac))))"
proof -
  have "hotp_fmt d (unat w mod hotp_dmod d) = dec_string d (uint w)" if "6 \<le> d" "d \<le> 9" for w :: u32
    using that by (simp add: hotp_dmod_eq fmt_lu_dec_string)
  then show ?thesis by (simp add: hotp_mac_def split: option.split)
qed

section \<open>Properties\<close>

text \<open>
  C12: \<open>hotp_mac\<close> computes HOTP as RFC 4226 defines it. It succeeds exactly for 6 to 9 digits and a
  20-octet HMAC, and its output is then a string of exactly \<open>d\<close> decimal digits whose value is the
  dynamically truncated HMAC modulo \<open>10 ^ d\<close>, leading zeros included.
\<close>

theorem hotp_mac_rfc4226:
  assumes "hmac_sha1 cr (take kl key) (take 8 counter) = Some hs" and "length hs = 20"
  shows "if 6 \<le> d \<and> d \<le> 9
    then \<exists>s. hotp_mac cr counter key kl d = COk s \<and> length s = d
      \<and> set s \<subseteq> digit_char ` {..<10} \<and> digits_val 10 s = rfc4226_value hs d
    else hotp_mac cr counter key kl d = CErr (-1)"
proof (cases "6 \<le> d \<and> d \<le> 9")
  case True
  have "rfc4226_value hs d < 10 ^ d" by (simp add: rfc4226_value_def Let_def)
  with True assms show ?thesis
    using set_fmt_lu [of d "rfc4226_value hs d"]
    by (simp add: hotp_mac_COk_iff digits_val_fmt_lu length_fmt_lu)
qed (auto simp: hotp_mac_def)

theorem hotp_mac_rfc4226_witness:
  "\<exists>cr :: crypto. \<exists>s. hotp_mac cr [0, 0, 0, 0, 0, 0, 0, 1] (replicate 20 0) 20 6 = COk s \<and> length s = 6
     \<and> digits_val 10 s = 872921"
proof -
  define hs :: "byte list" where "hs = [0x1f, 0x86, 0x98, 0x69, 0x0e, 0x02, 0xca, 0x16, 0x61, 0x85,
    0x50, 0xef, 0x7f, 0x19, 0xda, 0x8e, 0x94, 0x5b, 0x55, 0x5a]"
  define cr where "cr = \<lparr>md4 = id, md5 = id, sha1 = id, hmac_sha1 = (\<lambda>_ _. Some hs),
    des_set_key_checked = (\<lambda>_. 0), des_cbc_encrypt = (\<lambda>_ _. []), des_ecb_encrypt = (\<lambda>_ _. [])\<rparr>"
  have h: "hmac_sha1 cr (take 20 (replicate 20 0)) (take 8 [0, 0, 0, 0, 0, 0, 0, 1]) = Some hs" "length hs = 20"
    by (simp_all add: cr_def hs_def)
  have "rfc4226_value hs 6 = 872921"
    by (simp add: rfc4226_value_def hs_def)
  with hotp_mac_rfc4226 [OF h, of 6] show ?thesis by auto
qed

end
