(* ===== verification/Otpd_Cardops.thy ===== *)
theory Otpd_Cardops
  imports Otpd_Mac
begin

text \<open>
  What the card modules of \<^verbatim>\<open>src/cardops/\<close> share: the lookup of a card name in a module's table,
  the big-endian counter block, the registration of modules in the \<open>cardops\<close> table, and the
  contract every module keeps (locale \<open>card_module\<close>), on which the passcode verification of
  \<^verbatim>\<open>src/otp.c\<close> relies. Each module's theory interprets the contract on its own operations.
\<close>

section \<open>Definitions\<close>

text \<open>The loop of every \<open>name2fm\<close>: the first entry whose name matches, ignoring case.\<close>

fun card_lookup :: "(string \<times> u32) list \<Rightarrow> string \<Rightarrow> u32 option" where
  "card_lookup [] name = None"
| "card_lookup ((n, fm) # tbl) name = (if strcaseeq name n then Some fm else card_lookup tbl name)"

definition name2fm_tbl :: "(string \<times> u32) list \<Rightarrow> user_t \<Rightarrow> user_t cres" where
  "name2fm_tbl tbl user = (case card_lookup tbl (u_card user) of
     Some fm \<Rightarrow> COk (user\<lparr>u_featuremask := fm\<rparr>)
   | None \<Rightarrow> CErr 1)"

text \<open>Division and remainder of C, which truncate towards zero.\<close>

definition cdiv :: "int \<Rightarrow> int \<Rightarrow> int" where
  "cdiv a b = sgn a * sgn b * (\<bar>a\<bar> div \<bar>b\<bar>)"

definition cmod :: "int \<Rightarrow> int \<Rightarrow> int" where
  "cmod a b = a - b * cdiv a b"

text \<open>A 64-bit counter as eight octets, most significant first.\<close>

definition be64_bytes :: "u64 \<Rightarrow> byte list" where
  "be64_bytes c = [ucast (drop_bit 56 c), ucast (drop_bit 48 c), ucast (drop_bit 40 c), ucast (drop_bit 32 c),
     ucast (drop_bit 24 c), ucast (drop_bit 16 c), ucast (drop_bit 8 c), ucast c]"

definition be_val :: "byte list \<Rightarrow> nat" where
  "be_val bs = foldl (\<lambda>a b. 256 * a + unat b) 0 bs"

text \<open>
  The constructors \<open>hotp_init\<close>, \<open>x99_init\<close> and their kin: append to the global table, or exit
  when it is full (\<open>None\<close>).
\<close>

definition cardops_register :: "cardops_t list \<Rightarrow> cardops_t \<Rightarrow> cardops_t list option" where
  "cardops_register tbl co = (if length tbl = OTP_MAX_VENDORS then None else Some (tbl @ [co]))"

section \<open>The contract of a card module\<close>

locale card_module =
  fixes co :: cardops_t
  assumes name2fm_result:
      "co_name2fm co u st = COk u' \<Longrightarrow> u' = u\<lparr>u_featuremask := u_featuremask u'\<rparr> \<and> cf_len (u_featuremask u') \<le> 9"
    and name2fm_no_fault: "co_name2fm co u st \<noteq> CFault"
    and key_result: "co_keystring2key co u st = COk (u', st', n) \<Longrightarrow>
      u' = u\<lparr>u_key := u_key u'\<rparr> \<and> st' = st\<lparr>s_scratch1 := s_scratch1 st'\<rparr> \<and> length (u_key u') = n"
    and key_no_fault: "co_keystring2key co u st \<noteq> CFault"
    and nullstate_result: "co_nullstate co cfg u st now = COk st' \<Longrightarrow> st' = st"
    and nullstate_no_fault: "co_nullstate co cfg u st now \<noteq> CFault"
    and challenge_result: "co_challenge co u st ch now t e = COk (st', ch') \<Longrightarrow>
      length ch = OTP_MAX_CHALLENGE_LEN \<Longrightarrow> s_clen st \<le> OTP_MAX_CHALLENGE_LEN \<Longrightarrow>
      st' = st\<lparr>s_clen := s_clen st'\<rparr> \<and> s_clen st' \<le> OTP_MAX_CHALLENGE_LEN
        \<and> length ch' = OTP_MAX_CHALLENGE_LEN"
    and response_result: "co_response co u st ch len now = COk s \<Longrightarrow>
      length s \<le> OTP_MAX_RESPONSE_LEN \<and> no_nul s"
    and updatecsd_result: "co_updatecsd co st now t e rc = COk st' \<Longrightarrow>
      st' = st\<lparr>s_rd := s_rd st'\<rparr> \<and> (s_rd st' = s_rd st \<or> (length (s_rd st') \<le> 8
        \<and> CHR '':'' \<notin> set (s_rd st') \<and> no_nul (s_rd st')))"
    and updatecsd_no_fault: "co_updatecsd co st now t e rc \<noteq> CFault"
    and maxtwin_nonneg: "0 \<le> co_maxtwin co u st now"

text \<open>
  The modules built on HOTP also never leave an array in \<open>challenge\<close> and \<open>response\<close>, whatever the
  stored state; the X9.9 MAC of an empty challenge does.
\<close>

locale robust_card_module = card_module +
  assumes challenge_no_fault: "co_challenge co u st ch now t e \<noteq> CFault"
    and response_no_fault: "co_response co u st ch len now \<noteq> CFault"

section \<open>Lemmas\<close>

lemma name2fm_tbl_COk:
  "name2fm_tbl tbl u = COk u' \<Longrightarrow>
     u' = u\<lparr>u_featuremask := u_featuremask u'\<rparr> \<and> u_featuremask u' \<in> snd ` set tbl"
proof (induction tbl "u_card u" rule: card_lookup.induct)
  case (2 n fm tbl)
  then show ?case by (auto simp: name2fm_tbl_def split: if_splits option.splits)
qed (simp add: name2fm_tbl_def)

lemma name2fm_tbl_no_fault [simp]: "name2fm_tbl tbl u \<noteq> CFault"
  by (simp add: name2fm_tbl_def split: option.splits)

lemma length_be64_bytes [simp, len_simps]: "length (be64_bytes c) = 8"
  by (simp add: be64_bytes_def)

lemma cdiv_nonneg: "0 \<le> a \<Longrightarrow> 0 < b \<Longrightarrow> cdiv a b = a div b"
  by (cases "a = 0") (simp_all add: cdiv_def sgn_if)

lemma cmod_nonneg: "0 \<le> a \<Longrightarrow> 0 < b \<Longrightarrow> cmod a b = a mod b"
  by (simp add: cmod_def cdiv_nonneg minus_mult_div_eq_mod)

lemma be_val_snoc [simp]: "be_val (bs @ [b]) = 256 * be_val bs + unat b"
  by (simp add: be_val_def)

lemma be_val_be64_bytes: "be_val (be64_bytes c) = unat c"
proof -
  define f where "f k = unat c div 2 ^ k" for k
  have c: "unat c < 2 ^ 64" using unsigned_less [of c, where 'a = nat] by simp
  have byte: "unat (ucast (drop_bit k c) :: byte) = f k mod 256" for k
    using c by (simp add: f_def unsigned_ucast_eq unsigned_drop_bit_eq take_bit_nat_def drop_bit_nat_def)
  have join: "256 * f (k + 8) + f k mod 256 = f k" for k
    by (simp add: f_def power_add div_mult2_eq)
  have top: "f 56 mod 256 = f 56" using c by (simp add: f_def)
  have low: "unat (ucast c :: byte) = f 0 mod 256" using byte [of 0] by simp
  have "be_val (be64_bytes c) = f 0"
    using join [of 48] join [of 40] join [of 32] join [of 24] join [of 16] join [of 8] join [of 0]
    by (simp add: be_val_def be64_bytes_def byte low top)
  then show ?thesis by (simp add: f_def)
qed

end
