(* ===== verification/Otpd_Compare.thy ===== *)
theory Otpd_Compare
  imports Otpd_Cardops
begin

text \<open>
  The helpers of \<^verbatim>\<open>src/otp.c\<close>: \<open>decrypt\<close> for key and PIN, \<open>compare\<close> for the four encodings of a
  passcode and \<open>key_from_hash\<close> for the DES keys of MS-CHAP.
\<close>

section \<open>Definitions\<close>

text \<open>
  \<open>decrypt\<close>: the loop over \<open>i\<close> and \<open>j\<close>, where \<open>j\<close> starts again at 0 when it reaches the key length.
\<close>

fun decrypt_loop :: "byte list \<Rightarrow> nat \<Rightarrow> byte list \<Rightarrow> byte list" where
  "decrypt_loop key j [] = []"
| "decrypt_loop key j (d # data) =
     (let j = (if j = length key then 0 else j) in (d XOR key ! j) # decrypt_loop key (j + 1) data)"

definition decrypt :: "byte list \<Rightarrow> byte list \<Rightarrow> byte list" where
  "decrypt data key = (if length key = 0 then data else decrypt_loop key 0 data)"

text \<open>\<open>key_from_hash\<close>: seven octets to eight, seven bits each.\<close>

fun key_loop :: "nat \<Rightarrow> byte \<Rightarrow> byte list \<Rightarrow> byte list" where
  "key_loop i next [] = [next]"
| "key_loop i next (working # hashbytes) =
     (drop_bit i working OR next) # key_loop (i + 1) (push_bit (7 - i) working) hashbytes"

definition key_from_hash :: "byte list \<Rightarrow> byte list" where
  "key_from_hash hashbytes = key_loop 0 0 (take 7 hashbytes)"

text \<open>
  The NT response of MS-CHAP and MS-CHAPv2: the passcode with a zero octet after each character,
  hashed and cut into three DES keys, each of which encrypts the eight octets of the challenge.
\<close>

definition nt_keys :: "crypto \<Rightarrow> string \<Rightarrow> byte list" where
  "nt_keys cr passcode = md4 cr (concat (map (\<lambda>c. [byte_of c, 0]) passcode)) @ replicate 5 0"

definition nt_response :: "crypto \<Rightarrow> string \<Rightarrow> byte list \<Rightarrow> byte list" where
  "nt_response cr passcode chal =
     (let k = nt_keys cr passcode
      in des_ecb_encrypt cr (key_from_hash k) chal
         @ des_ecb_encrypt cr (key_from_hash (drop 7 k)) chal
         @ des_ecb_encrypt cr (key_from_hash (drop 14 k)) chal)"

text \<open>
  \<open>compare\<close>, true for the return value 0. The local buffers hold a passcode of
  \<open>OTP_MAX_PASSCODE_LEN\<close> characters; a longer one would overflow them.
\<close>

definition compare :: "crypto \<Rightarrow> otp_request_t \<Rightarrow> string \<Rightarrow> bool cres" where
  "compare cr request passcode = (case r_pwe request of
     PWE_PAP \<Rightarrow> COk (r_passcode request = passcode)
   | PWE_CHAP \<Rightarrow>
       if OTP_MAX_PASSCODE_LEN + 16 < length passcode + r_chap_clen request then CFault
       else let input = take 1 (r_chap_response request) @ bytes_of passcode
                        @ take (r_chap_clen request) (r_chap_challenge request)
            in COk (take 16 (drop 1 (r_chap_response request)) = md5 cr input)
   | PWE_MSCHAP \<Rightarrow>
       if OTP_MAX_PASSCODE_LEN < length passcode then CFault
       else COk (take 24 (drop 26 (r_chap_response request))
                 = nt_response cr passcode (take 8 (r_chap_challenge request)))
   | PWE_MSCHAP2 \<Rightarrow>
       if OTP_MAX_PASSCODE_LEN < length passcode then CFault
       else let md = sha1 cr (take 16 (drop 2 (r_chap_response request))
                              @ take 16 (r_chap_challenge request) @ bytes_of (r_username request))
            in COk (take 24 (drop 26 (r_chap_response request)) = nt_response cr passcode (take 8 md))
   | PWE_OTHER \<Rightarrow> COk False)"

section \<open>Lemmas\<close>

lemma decrypt_loop_involution: "decrypt_loop key j (decrypt_loop key j data) = data"
proof (induction data arbitrary: j)
  case (Cons d data)
  have "(d XOR k) XOR k = d" for k :: byte by (simp add: xor.assoc)
  then show ?case using Cons by (simp add: Let_def)
qed simp

lemma length_decrypt_loop [simp]: "length (decrypt_loop key j data) = length data"
  by (induction key j data rule: decrypt_loop.induct) (simp_all add: Let_def)

lemma length_decrypt [simp, len_simps]: "length (decrypt data key) = length data"
  by (simp add: decrypt_def)

lemma decrypt_loop_nth:
  "0 < length key \<Longrightarrow> j \<le> length key \<Longrightarrow> i < length data \<Longrightarrow>
     decrypt_loop key j data ! i = data ! i XOR key ! ((j + i) mod length key)"
proof (induction key j data arbitrary: i rule: decrypt_loop.induct)
  case (2 key j d data)
  define k where "k = (if j = length key then 0 else j)"
  have k: "k < length key" "k mod length key = j mod length key" using 2 by (auto simp: k_def)
  have shift: "(k + m) mod length key = (j + m) mod length key" for m
    using k(2) by (metis mod_add_left_eq)
  show ?case
  proof (cases i)
    case 0
    then show ?thesis using k shift [of 0] by (simp add: Let_def k_def [symmetric])
  next
    case (Suc m)
    have "decrypt_loop key (k + 1) data ! m = data ! m XOR key ! ((k + 1 + m) mod length key)"
      by (rule 2(1) [OF k_def]) (use 2(2,4) k(1) Suc in simp_all)
    then show ?thesis using Suc shift [of "1 + m"] by (simp add: Let_def k_def [symmetric])
  qed
qed simp

lemma compare_no_fault:
  "length passcode \<le> OTP_MAX_PASSCODE_LEN \<Longrightarrow> r_chap_clen request \<le> 16 \<Longrightarrow> \<exists>b. compare cr request passcode = COk b"
  by (cases "r_pwe request") (auto simp: compare_def Let_def)

text \<open>
  The invariant of \<open>key_loop\<close>: of the number \<open>V\<close> the octets before make, all but the last \<open>i\<close> bits
  have been stored, and those are at the top of \<open>next\<close>.
\<close>

lemma unat_shifted_or:
  fixes w nxt :: byte
  assumes "i \<le> 7" and "r < 2 ^ i" and "unat nxt = r * 2 ^ (8 - i)"
  shows "unat (drop_bit i w OR nxt) = (256 * r + unat w) div 2 ^ i"
proof -
  have pow: "(256 :: nat) = 2 ^ (8 - i) * 2 ^ i" using assms(1) by (simp flip: power_add)
  have dw: "unat (drop_bit i w) = unat w div 2 ^ i"
    using unat_byte_lt [of w] by (simp add: unsigned_drop_bit_eq drop_bit_nat_def take_bit_nat_def)
  then have lt: "unat (drop_bit i w) < 2 ^ (8 - i)"
    using unat_byte_lt [of w] pow by (simp add: div_less_iff_less_mult mult.commute)
  have bits: "\<not> (bit (drop_bit i w) n \<and> bit nxt n)" for n
  proof (cases "n < 8 - i")
    case True
    have "nxt = word_of_nat (unat nxt)" by simp
    then have "nxt = push_bit (8 - i) (word_of_nat r)" by (simp only: assms(3)) (simp add: push_bit_eq_mult)
    with True show ?thesis by (simp add: bit_push_bit_iff)
  next
    case False
    then have "\<not> bit w (i + n)" using assms(1) by (auto dest: bit_imp_le_length)
    then have "\<not> bit (drop_bit i w) n" by (simp add: bit_drop_bit_eq)
    then show ?thesis by simp
  qed
  have "drop_bit i w OR nxt = drop_bit i w + nxt"
    by (rule disjunctive_add [symmetric]) (use bits in blast)
  moreover have "unat (drop_bit i w) + unat nxt < 256"
  proof -
    have "(r + 1) * 2 ^ (8 - i) \<le> 2 ^ i * 2 ^ (8 - i)" using assms(2) by (intro mult_le_mono1) simp
    then show ?thesis using lt pow assms(3) by (simp add: algebra_simps)
  qed
  ultimately have "unat (drop_bit i w OR nxt) = unat w div 2 ^ i + r * 2 ^ (8 - i)"
    by (simp only: unat_word_ariths) (simp add: dw assms(3))
  also have "\<dots> = (256 * r + unat w) div 2 ^ i"
  proof -
    have "256 * r + unat w = unat w + (r * 2 ^ (8 - i)) * 2 ^ i" by (simp add: pow ac_simps)
    then show ?thesis by (simp only: div_mult_self1) simp
  qed
  finally show ?thesis .
qed

lemma key_loop_value:
  "i + length bs = 7 \<Longrightarrow> unat nxt = (V mod 2 ^ i) * 2 ^ (8 - i) \<Longrightarrow>
   foldl (\<lambda>a b. 128 * a + unat b div 2) (V div 2 ^ i) (key_loop i nxt bs) = foldl (\<lambda>a b. 256 * a + unat b) V bs"
proof (induction bs arbitrary: i nxt V)
  case Nil
  then show ?case by simp
next
  case (Cons w bs)
  have i: "i \<le> 6" using Cons.prems(1) by simp
  have "unat (drop_bit i w OR nxt) div 2 = (256 * (V mod 2 ^ i) + unat w) div 2 ^ (i + 1)"
  proof -
    have "unat (drop_bit i w OR nxt) = (256 * (V mod 2 ^ i) + unat w) div 2 ^ i"
      by (rule unat_shifted_or) (use Cons.prems(2) i in simp_all)
    then show ?thesis by (simp only: power_add power_one_right div_mult2_eq)
  qed
  also have "128 * (V div 2 ^ i) + \<dots> = (256 * V + unat w) div 2 ^ (i + 1)"
  proof -
    define q r where "q = V div 2 ^ i" and "r = V mod 2 ^ i"
    have "V = 2 ^ i * q + r" by (simp add: q_def r_def)
    then have "256 * V + unat w = (256 * r + unat w) + (128 * q) * 2 ^ (i + 1)" by (simp add: algebra_simps)
    moreover have "((256 * r + unat w) + (128 * q) * 2 ^ (i + 1)) div 2 ^ (i + 1)
        = 128 * q + (256 * r + unat w) div 2 ^ (i + 1)"
      by (rule div_mult_self1) simp
    ultimately show ?thesis unfolding q_def [symmetric] r_def [symmetric] by (simp only:)
  qed
  finally have head: "128 * (V div 2 ^ i) + unat (drop_bit i w OR nxt) div 2 = (256 * V + unat w) div 2 ^ (i + 1)" .
  have "unat (push_bit (7 - i) w) = ((256 * V + unat w) mod 2 ^ (i + 1)) * 2 ^ (8 - (i + 1))"
  proof -
    have pow: "(256 :: nat) = 2 ^ (i + 1) * 2 ^ (7 - i)" using i by (simp flip: power_add)
    have "unat (push_bit (7 - i) w) = (unat w * 2 ^ (7 - i)) mod 256"
      by (simp add: unsigned_push_bit_eq take_bit_nat_def push_bit_nat_def)
    also have "\<dots> = (unat w mod 2 ^ (i + 1)) * 2 ^ (7 - i)" by (simp only: pow mod_mult_mult2)
    also have "unat w mod 2 ^ (i + 1) = (256 * V + unat w) mod 2 ^ (i + 1)"
    proof -
      have "256 * V + unat w = unat w + (2 ^ (7 - i) * V) * 2 ^ (i + 1)" by (simp add: pow ac_simps)
      then show ?thesis by (simp only: mod_mult_self1)
    qed
    finally show ?thesis by simp
  qed
  from Cons.IH [OF _ this] Cons.prems(1) head show ?case by simp
qed

section \<open>Properties\<close>

text \<open>
  \<open>decrypt\<close> is the repeating-key xor. Octet \<open>i\<close> is combined with octet \<open>i mod key_len\<close> of the key,
  and applying it twice gives the data back; an empty key leaves the data alone.
\<close>

theorem decrypt_cyclic_xor:
  "decrypt (decrypt data key) key = data
   \<and> decrypt data key = (if key = [] then data else map (\<lambda>i. data ! i XOR key ! (i mod length key)) [0..<length data])"
proof (cases "key = []")
  case False
  then have "decrypt_loop key 0 data = map (\<lambda>i. data ! i XOR key ! (i mod length key)) [0..<length data]"
    by (intro nth_equalityI) (simp_all add: decrypt_loop_nth)
  moreover have "decrypt (decrypt data key) key = data"
    using False by (simp add: decrypt_def decrypt_loop_involution)
  ultimately show ?thesis using False by (simp add: decrypt_def)
qed (simp add: decrypt_def)

text \<open>
  \<open>key_from_hash\<close> loses no bit of the hash. The upper seven bits of the eight key octets, read in
  order, are the fifty-six bits of the seven hash octets.
\<close>

theorem key_from_hash_bits:
  assumes "length hs = 7"
  shows "foldl (\<lambda>a b. 128 * a + unat b div 2) 0 (key_from_hash hs) = be_val hs \<and> length (key_from_hash hs) = 8"
proof -
  have "length (key_loop i nxt bs) = length bs + 1" for i nxt and bs :: "byte list"
    by (induction bs arbitrary: i nxt) simp_all
  then show ?thesis
    using key_loop_value [of 0 hs 0 0] assms by (simp add: key_from_hash_def be_val_def)
qed

theorem key_from_hash_bits_witness:
  "foldl (\<lambda>a b. 128 * a + unat b div 2) 0 (key_from_hash [0x80, 0, 0, 0, 0, 0, 1]) = be_val [0x80, 0, 0, 0, 0, 0, 1 :: byte]"
  using key_from_hash_bits [of "[0x80, 0, 0, 0, 0, 0, 1]"] by simp

end
