(* ===== verification/Otpd_Userops_File.thy ===== *)
theory Otpd_Userops_File
  imports Otpd_Types
begin

text \<open>
  The user database in a file, \<^verbatim>\<open>src/userops/file.c\<close>: \<open>file_get\<close> finds the line of a user in the
  password file and fills in a \<open>user_t\<close>, \<open>file_put\<close> frees it.

  The environment of a call (\<open>passwd_env\<close>) is what \<open>stat\<close> and \<open>fopen\<close> return, the contents of the file
  and the number of the \<open>fgets\<close> call that fails, if any. The memory that \<open>xmalloc\<close> returns for the
  user record has arbitrary contents, given by the argument \<open>tuser\<close>.
\<close>

section \<open>Definitions\<close>

record userops_t =
  uo_get :: "string \<Rightarrow> config_t \<Rightarrow> int \<Rightarrow> user_t cres"
  uo_put :: "user_t option \<Rightarrow> unit cres"

record passwd_env =
  pe_stat_err :: bool
  pe_mode :: u32
  pe_fopen_err :: bool
  pe_content :: string
  pe_read_err :: "nat option"

text \<open>\<open>S_IXUSR|S_IRWXG|S_IRWXO\<close>.\<close>

definition loose_mode :: u32 where "loose_mode = 0x7f"

abbreviation NL :: char where
  "NL \<equiv> CHR 0x0A"

text \<open>
  \<open>fgets (s, n + 1, fp)\<close> on the rest of the file: the characters stored, the rest after them, and
  whether the end of the file was met.
\<close>

definition fgets :: "nat \<Rightarrow> string \<Rightarrow> string \<times> string \<times> bool" where
  "fgets n rest =
     (let buf = take n rest; line = takeWhile (\<lambda>c. c \<noteq> NL) buf
      in if length line < length buf then (line @ [NL], drop (length line + 1) rest, False)
         else (buf, drop n rest, length rest < n))"

text \<open>The condition \<open>!strncmp (s, username, l) && s[l] == ':'\<close>.\<close>

definition line_of :: "string \<Rightarrow> string \<Rightarrow> bool" where
  "line_of username s \<longleftrightarrow> strneq s username (length username) \<and> length username < length s
     \<and> s ! length username = CHR '':''"

text \<open>
  The search loop, from the rest of the file. \<open>err\<close> counts down to the failing call. The result is the
  buffer with the line of the user.
\<close>

function find_line :: "string \<Rightarrow> nat option \<Rightarrow> string \<Rightarrow> string option cres" where
  "find_line username err rest =
     (if err = Some 0 then CErr (- 2)
      else if rest = [] then COk None
      else let (buf, rest', eof) = fgets 159 rest; s = cstr buf
           in if line_of username s then COk (Some s)
              else if eof then COk None
              else find_line username (map_option (\<lambda>n. n - 1) err) rest')"
  by pat_completeness auto

termination
proof (relation "measure (\<lambda>(_, _, rest). length rest)")
  fix username :: string and err :: "nat option" and rest buf rest' s :: string and x y and eof :: bool
  assume "rest \<noteq> []" "x = fgets 159 rest" "(buf, y) = x" "(rest', eof) = y"
  then show "((username, map_option (\<lambda>n. n - 1) err, rest'), username, err, rest)
      \<in> measure (\<lambda>(_, _, rest). length rest)"
    by (auto simp: fgets_def Let_def split: if_splits)
qed simp

text \<open>\<open>if (l && s[l - 1] == '\n') s[--l] = '\0'\<close>.\<close>

definition strip_newline :: "string \<Rightarrow> string" where
  "strip_newline s = (if s \<noteq> [] \<and> last s = NL then butlast s else s)"

text \<open>
  The fields of the line. A card name that is too long is logged and then copied all the same, past
  the end of \<open>tuser->card\<close>.
\<close>

definition card_field :: "string \<Rightarrow> (string \<times> string) cres" where
  "card_field s = (case strsep (CHR '':'') s of
     None \<Rightarrow> CErr (- 2)
   | Some (_, p) \<Rightarrow>
       (case strsep (CHR '':'') p of
          None \<Rightarrow> CErr (- 2)
        | Some (cname, q) \<Rightarrow> if OTP_MAX_CARDNAME_LEN < length cname then CFault else COk (cname, q)))"

definition key_field :: "string \<Rightarrow> string cres" where
  "key_field p =
     (if OTP_MAX_KEY_LEN * 2 < length p then CErr (- 2)
      else let key = strip_newline p
           in if length key = 0 \<or> odd (length key) then CErr (- 2) else COk key)"

definition pin_field :: "string option \<Rightarrow> string cres" where
  "pin_field q = (case q of
     None \<Rightarrow> COk []
   | Some q \<Rightarrow> let pin = strip_newline q
               in if OTP_MAX_PIN_LEN * 2 < length pin \<or> odd (length pin) then CErr (- 2) else COk pin)"

definition file_user :: "user_t \<Rightarrow> config_t \<Rightarrow> string \<Rightarrow> string \<Rightarrow> user_t cres" where
  "file_user tuser config username s =
     cbind (card_field s) (\<lambda>(cname, p).
       let (p, q) = (case strsep (CHR '':'') p of None \<Rightarrow> (p, None) | Some (p, q) \<Rightarrow> (p, Some q)) in
       cbind (key_field p) (\<lambda>key.
       cbind (pin_field q) (\<lambda>pin.
         COk (tuser\<lparr>u_username := username, u_card := cname, u_keystring := key, u_pinstring := pin,
                u_gsmd := c_file_gsmd config, u_timeissued := 0, u_password := None, u_rwindow_size := 0,
                u_encryptmode := c_file_encryptmode config, u_keyid := c_file_keyid config\<rparr>))))"

definition file_get :: "passwd_env \<Rightarrow> user_t \<Rightarrow> string \<Rightarrow> config_t \<Rightarrow> int \<Rightarrow> user_t cres" where
  "file_get env tuser username config now =
     (if pe_stat_err env then CErr (- 2)
      else if pe_mode env AND loose_mode \<noteq> 0 then CErr (- 2)
      else if pe_fopen_err env then CErr (- 2)
      else cbind (find_line username (pe_read_err env) (pe_content env)) (\<lambda>found.
        case found of None \<Rightarrow> CErr (- 1) | Some s \<Rightarrow> file_user tuser config username s))"

text \<open>\<open>free\<close> accepts a null pointer.\<close>

definition file_put :: "user_t option \<Rightarrow> unit cres" where
  "file_put user = COk ()"

definition userops_file :: "passwd_env \<Rightarrow> user_t \<Rightarrow> userops_t" where
  "userops_file env tuser = \<lparr>uo_get = file_get env tuser, uo_put = file_put\<rparr>"

text \<open>The format of the file, \<^verbatim>\<open>src/otppasswd.5.pod\<close>: user, card, key and an optional PIN.\<close>

record passwd_entry =
  e_user :: string
  e_card :: string
  e_key :: string
  e_pin :: "string option"

definition entry_body :: "passwd_entry \<Rightarrow> string" where
  "entry_body en = e_user en @ '':'' @ e_card en @ '':'' @ e_key en
     @ (case e_pin en of None \<Rightarrow> [] | Some pin \<Rightarrow> CHR '':'' # pin)"

definition entry_line :: "passwd_entry \<Rightarrow> string" where
  "entry_line en = entry_body en @ [NL]"

definition plain_field :: "string \<Rightarrow> bool" where
  "plain_field s \<longleftrightarrow> CHR '':'' \<notin> set s \<and> NL \<notin> set s \<and> NUL \<notin> set s"

definition entry_wf :: "passwd_entry \<Rightarrow> bool" where
  "entry_wf en \<longleftrightarrow> plain_field (e_user en) \<and> plain_field (e_card en) \<and> plain_field (e_key en)
     \<and> (case e_pin en of None \<Rightarrow> True | Some pin \<Rightarrow> plain_field pin \<and> length pin \<le> 32 \<and> even (length pin))
     \<and> length (e_card en) \<le> OTP_MAX_CARDNAME_LEN \<and> e_key en \<noteq> [] \<and> even (length (e_key en))
     \<and> length (entry_line en) \<le> 159"

definition entry_user :: "user_t \<Rightarrow> config_t \<Rightarrow> passwd_entry \<Rightarrow> user_t" where
  "entry_user tuser config en = tuser\<lparr>u_username := e_user en, u_card := e_card en, u_keystring := e_key en,
     u_pinstring := (case e_pin en of None \<Rightarrow> [] | Some pin \<Rightarrow> pin), u_gsmd := c_file_gsmd config,
     u_timeissued := 0, u_password := None, u_rwindow_size := 0,
     u_encryptmode := c_file_encryptmode config, u_keyid := c_file_keyid config\<rparr>"

subsection \<open>Sample values\<close>

definition sample_entry :: passwd_entry where
  "sample_entry = \<lparr>e_user = ''joe'', e_card = ''hotp-d6'', e_key = ''00112233445566778899aabbccddeeff'',
     e_pin = Some ''31323334''\<rparr>"

definition sample_passwd :: passwd_env where
  "sample_passwd = \<lparr>pe_stat_err = False, pe_mode = 0x180, pe_fopen_err = False,
     pe_content = entry_line sample_entry, pe_read_err = None\<rparr>"

section \<open>The contract of a user database\<close>

text \<open>
  The record that \<open>get\<close> returns carries the requested name, and, for the databases that \<open>verify\<close> can rely on
  for every user name, \<open>put\<close> always returns.
\<close>

locale user_lookup =
  fixes uo :: userops_t
  assumes get_name: "uo_get uo name config now = COk user \<Longrightarrow> u_username user = name"

locale user_database = user_lookup +
  assumes put_returns: "uo_put uo user_opt = COk ()"

section \<open>Lemmas\<close>

lemma file_user_username: "file_user tuser config username s = COk user \<Longrightarrow> u_username user = username"
  by (auto simp: file_user_def split: option.splits)

interpretation filedb: user_database "userops_file penv tuser" for penv tuser
  by unfold_locales
    (auto simp: userops_file_def file_get_def file_put_def dest: file_user_username split: if_splits option.splits)

declare find_line.simps [simp del]

lemma fgets_line:
  assumes "NL \<notin> set line" and "length line < n"
  shows "fgets n (line @ NL # rest) = (line @ [NL], rest, False)"
proof -
  have "take n (line @ NL # rest) = line @ NL # take (n - length line - 1) rest"
    using assms(2) by (cases "n - length line") (simp_all add: take_Cons')
  moreover have "takeWhile (\<lambda>c. c \<noteq> NL) (line @ NL # r) = line" for r
    using assms(1) by (induction line) auto
  ultimately show ?thesis by (simp add: fgets_def Let_def)
qed

lemma entry_body_plain:
  "entry_wf en \<Longrightarrow> NL \<notin> set (entry_body en) \<and> NUL \<notin> set (entry_body en) \<and> length (entry_body en) < 159"
  by (auto simp: entry_wf_def entry_body_def entry_line_def plain_field_def split: option.splits)

lemma line_of_iff:
  assumes "entry_wf en" and "CHR '':'' \<notin> set username"
  shows "line_of username (entry_line en) \<longleftrightarrow> username = e_user en"
proof
  assume l: "line_of username (entry_line en)"
  define r where "r = drop (length username + 1) (entry_line en)"
  have "entry_line en = username @ CHR '':'' # r"
    using l id_take_nth_drop [of "length username" "entry_line en"] by (simp add: line_of_def strneq_def r_def)
  then have "strsep (CHR '':'') (entry_line en) = Some (username, r)"
    using assms(2) by (simp add: strsep_append)
  moreover have "\<exists>q. strsep (CHR '':'') (entry_line en) = Some (e_user en, q)"
    using assms(1) by (simp add: entry_line_def entry_body_def strsep_append entry_wf_def plain_field_def)
  ultimately show "username = e_user en" by simp
qed (simp add: line_of_def strneq_def entry_line_def entry_body_def nth_append)

lemma cstr_entry_line: "entry_wf en \<Longrightarrow> cstr (entry_line en) = entry_line en"
  using entry_body_plain [of en] by (simp add: entry_line_def no_nul_def)

lemma entry_line_not_Nil [simp]: "entry_line en \<noteq> []"
  by (simp add: entry_line_def)

lemma cbind_assoc: "cbind (cbind m f) g = cbind m (\<lambda>x. cbind (f x) g)"
  by (cases m) simp_all

text \<open>The search finds the first entry of the user.\<close>

lemma find_line_entries:
  assumes "CHR '':'' \<notin> set username"
  shows "\<forall>en \<in> set entries. entry_wf en \<Longrightarrow>
    find_line username None (concat (map entry_line entries))
      = COk (map_option entry_line (find (\<lambda>en. username = e_user en) entries))"
proof (induction entries)
  case (Cons en entries)
  have wf: "entry_wf en" and rest: "\<forall>en \<in> set entries. entry_wf en" using Cons.prems by auto
  have "fgets 159 (concat (map entry_line (en # entries)))
      = (entry_line en, concat (map entry_line entries), False)"
    using fgets_line entry_body_plain [OF wf] by (simp add: entry_line_def)
  then show ?case
    using Cons.IH [OF rest] line_of_iff [OF wf assms] cstr_entry_line [OF wf]
    by (subst find_line.simps) (simp add: Let_def)
qed (simp add: find_line.simps)

lemma strip_newline_snoc [simp]: "strip_newline (s @ [NL]) = s"
  by (simp add: strip_newline_def)

lemma strip_newline_plain: "plain_field s \<Longrightarrow> strip_newline s = s"
  by (metis last_in_set plain_field_def strip_newline_def)

lemma file_user_entry:
  assumes "entry_wf en"
  shows "file_user tuser config (e_user en) (entry_line en) = COk (entry_user tuser config en)"
proof -
  have card: "card_field (entry_line en)
      = COk (e_card en, e_key en @ (case e_pin en of None \<Rightarrow> [] | Some pin \<Rightarrow> CHR '':'' # pin) @ [NL])"
    using assms by (simp add: card_field_def entry_line_def entry_body_def entry_wf_def plain_field_def strsep_append)
  have len: "length (e_key en) \<le> 157"
    using assms by (simp add: entry_wf_def entry_line_def entry_body_def)
  show ?thesis
  proof (cases "e_pin en")
    case None
    have "strsep (CHR '':'') (e_key en @ [NL]) = None"
      using assms by (simp add: strsep_None_iff entry_wf_def plain_field_def)
    then show ?thesis
      using assms None len
      by (simp add: file_user_def card key_field_def pin_field_def entry_user_def entry_wf_def max_defs)
  next
    case (Some pin)
    then show ?thesis
      using assms len
      by (simp add: file_user_def card strsep_append entry_wf_def plain_field_def key_field_def pin_field_def
          entry_user_def max_defs strip_newline_plain [unfolded plain_field_def])
  qed
qed

section \<open>Properties\<close>

text \<open>
  C16: lookup in the password file. For a readable file of well-formed lines the user record has the
  fields of the first line of the user and the defaults of the configuration; a user without a line
  is reported as not found.
\<close>

theorem file_get_lookup:
  assumes "\<not> pe_stat_err env" and "pe_mode env AND loose_mode = 0" and "\<not> pe_fopen_err env"
    and "pe_read_err env = None" and "pe_content env = concat (map entry_line entries)"
    and "\<forall>en \<in> set entries. entry_wf en" and "CHR '':'' \<notin> set username"
  shows "file_get env tuser username config now = (case find (\<lambda>en. username = e_user en) entries of
    None \<Rightarrow> CErr (- 1) | Some en \<Rightarrow> COk (entry_user tuser config en))"
proof (cases "find (\<lambda>en. username = e_user en) entries")
  case None
  then show ?thesis using assms by (simp add: file_get_def find_line_entries)
next
  case (Some en)
  then have "entry_wf en \<and> username = e_user en" using assms(6) by (auto simp: find_Some_iff)
  then show ?thesis using assms Some by (simp add: file_get_def find_line_entries file_user_entry)
qed

theorem file_get_lookup_witness:
  "\<forall>tuser config. file_get sample_passwd tuser ''joe'' config 0 = COk (entry_user tuser config sample_entry)"
proof -
  have "pe_mode sample_passwd AND loose_mode = 0" by code_simp
  moreover have "entry_wf sample_entry" by code_simp
  moreover have "find (\<lambda>en. ''joe'' = e_user en) [sample_entry] = Some sample_entry" by (simp add: sample_entry_def)
  ultimately show ?thesis
    using file_get_lookup [of sample_passwd "[sample_entry]" "''joe''"] by (simp add: sample_passwd_def)
qed

text \<open>
  A user name with a colon reaches another user's line. The request for \<open>joe:hotp-d6\<close> finds the line
  of \<open>joe\<close> and gets his key under the name \<open>joe:hotp-d6\<close>, whose state is kept apart from the state of
  \<open>joe\<close>: failures of the one do not count for the other.
\<close>

theorem file_get_alias:
  assumes "\<not> pe_stat_err env" and "pe_mode env AND loose_mode = 0" and "\<not> pe_fopen_err env"
    and "pe_read_err env = None" and "pe_content env = entry_line en" and "entry_wf en"
  shows "file_get env tuser (e_user en @ '':'' @ e_card en) config now
    = COk ((entry_user tuser config en)\<lparr>u_username := e_user en @ '':'' @ e_card en\<rparr>)"
proof -
  let ?u = "e_user en @ '':'' @ e_card en"
  have "fgets 159 (entry_line en) = (entry_line en, [], False)"
    using fgets_line [of "entry_body en" 159 "[]"] entry_body_plain [OF assms(6)] by (simp add: entry_line_def)
  moreover have "line_of ?u (entry_line en)"
    by (simp add: line_of_def strneq_def entry_line_def entry_body_def nth_append)
  ultimately have "find_line ?u None (entry_line en) = COk (Some (entry_line en))"
    using cstr_entry_line [OF assms(6)] by (subst find_line.simps) (simp add: Let_def)
  moreover have "file_user tuser config ?u (entry_line en)
      = cbind (file_user tuser config (e_user en) (entry_line en)) (\<lambda>x. COk (x\<lparr>u_username := ?u\<rparr>))"
    by (cases tuser; cases "card_field (entry_line en)")
      (auto simp: file_user_def cbind_assoc split: option.splits)
  ultimately show ?thesis
    using assms(1-5) file_user_entry [OF assms(6), of tuser config] by (simp add: file_get_def)
qed

theorem file_get_alias_witness:
  "\<forall>tuser config. file_get sample_passwd tuser ''joe:hotp-d6'' config 0
     = COk ((entry_user tuser config sample_entry)\<lparr>u_username := ''joe:hotp-d6''\<rparr>)"
proof -
  have "pe_mode sample_passwd AND loose_mode = 0" by code_simp
  moreover have "entry_wf sample_entry" by code_simp
  moreover have "e_user sample_entry @ '':'' @ e_card sample_entry = ''joe:hotp-d6''" by (simp add: sample_entry_def)
  ultimately show ?thesis
    using file_get_alias [of sample_passwd sample_entry] by (simp add: sample_passwd_def)
qed

end
