(* ===== verification/Otpd_Card_Hotp.thy ===== *)
theory Otpd_Card_Hotp
  imports Otpd_Cardops
begin

text \<open>
  The event synchronous HOTP module, \<^verbatim>\<open>src/cardops/hotp.c\<close> and \<^verbatim>\<open>hotp.h\<close>: its name table and
  its nine operations, the contract of a card module, and the behaviour of its event counter.
\<close>

section \<open>Definitions\<close>

definition HOTP5 :: u32 where "HOTP5 = OTP_CF_ES OR (OTP_CF_LEN2 OR OTP_CF_LEN0)"
definition HOTP6 :: u32 where "HOTP6 = OTP_CF_ES OR (OTP_CF_LEN2 OR OTP_CF_LEN1)"
definition HOTP7 :: u32 where "HOTP7 = OTP_CF_ES OR (OTP_CF_LEN2 OR OTP_CF_LEN1 OR OTP_CF_LEN0)"
definition HOTP8 :: u32 where "HOTP8 = OTP_CF_ES OR OTP_CF_LEN3"
definition HOTP9 :: u32 where "HOTP9 = OTP_CF_ES OR (OTP_CF_LEN3 OR OTP_CF_LEN0)"

definition hotp_cards :: "(string \<times> u32) list" where
  "hotp_cards = [(''hotp-d5'', HOTP5), (''hotp-d6'', HOTP6), (''hotp-d7'', HOTP7),
     (''hotp-d8'', HOTP8), (''hotp-d9'', HOTP9)]"

definition hotp_name2fm :: "user_t \<Rightarrow> state_t \<Rightarrow> user_t cres" where
  "hotp_name2fm user state = name2fm_tbl hotp_cards user"

definition hotp_keystring2key :: "user_t \<Rightarrow> state_t \<Rightarrow> (user_t \<times> state_t \<times> nat) cres" where
  "hotp_keystring2key user state =
     (let l = length (u_keystring user) in
      if l < 32 then CErr (-1)
      else case a2nx (u_keystring user) (l div 2) of
        None \<Rightarrow> CErr (-1)
      | Some key \<Rightarrow> COk (user\<lparr>u_key := key\<rparr>, state\<lparr>s_scratch1 := l div 2\<rparr>, l div 2))"

definition hotp_nullstate :: "config_t \<Rightarrow> user_t \<Rightarrow> state_t \<Rightarrow> int \<Rightarrow> state_t cres" where
  "hotp_nullstate config user state when = CErr (-1)"

text \<open>
  The previous challenge as the code reads it. Each half is an \<open>int\<close> expression (the octets are
  promoted to \<open>int\<close>), so it is sign-extended when it meets the 64-bit counter: the upper half
  before the shift by 32, which drops the extension, the lower half in \<open>counter |= \<dots>\<close>.
\<close>

definition be32_int :: "byte \<Rightarrow> byte \<Rightarrow> byte \<Rightarrow> byte \<Rightarrow> u32" where
  "be32_int b0 b1 b2 b3 =
     push_bit 24 (ucast b0) OR push_bit 16 (ucast b1) OR push_bit 8 (ucast b2) OR ucast b3"

definition hotp_counter :: "byte list \<Rightarrow> u64" where
  "hotp_counter ch =
     push_bit 32 (scast (be32_int (ch ! 0) (ch ! 1) (ch ! 2) (ch ! 3)))
     OR scast (be32_int (ch ! 4) (ch ! 5) (ch ! 6) (ch ! 7))"

definition hotp_challenge ::
  "user_t \<Rightarrow> state_t \<Rightarrow> byte list \<Rightarrow> int \<Rightarrow> int \<Rightarrow> int \<Rightarrow> (state_t \<times> byte list) cres" where
  "hotp_challenge user state challenge when twin ewin =
     (let counter = hotp_counter challenge + 1
      in COk (state\<lparr>s_clen := 8\<rparr>, memcpy challenge (be64_bytes counter) 8))"

definition hotp_response :: "crypto \<Rightarrow> user_t \<Rightarrow> state_t \<Rightarrow> byte list \<Rightarrow> nat \<Rightarrow> int \<Rightarrow> string cres" where
  "hotp_response cr user state challenge len now =
     hotp_mac cr challenge (u_key user) (s_scratch1 state) (cf_len (u_featuremask user))"

definition hotp_updatecsd :: "state_t \<Rightarrow> int \<Rightarrow> int \<Rightarrow> int \<Rightarrow> otp_rc \<Rightarrow> state_t cres" where
  "hotp_updatecsd state when twin ewin auth_rc =
     (if auth_rc = OTP_RC_OK then COk (state\<lparr>s_rd := []\<rparr>)
      else COk (state\<lparr>s_rd := fmt_x32 (word_of_int ewin)\<rparr>))"

definition hotp_isconsecutive :: "user_t \<Rightarrow> state_t \<Rightarrow> int \<Rightarrow> bool" where
  "hotp_isconsecutive user state thisewin =
     (if s_rd state = [] then False
      else case sscanf_x32 (s_rd state) of
        None \<Rightarrow> False
      | Some nextewin \<Rightarrow> thisewin = sint nextewin + 1)"

definition hotp_maxtwin :: "user_t \<Rightarrow> state_t \<Rightarrow> int \<Rightarrow> int" where
  "hotp_maxtwin user state when = 0"

definition hotp_printchallenge :: "byte list \<Rightarrow> nat \<Rightarrow> string" where
  "hotp_printchallenge challenge len = x2a challenge len x2a_hex_conversion"

definition hotp_cardops :: "crypto \<Rightarrow> cardops_t" where
  "hotp_cardops cr = \<lparr>co_prefix = ''hotp'', co_plen = 4,
     co_name2fm = hotp_name2fm, co_keystring2key = hotp_keystring2key, co_nullstate = hotp_nullstate,
     co_challenge = hotp_challenge, co_response = hotp_response cr, co_updatecsd = hotp_updatecsd,
     co_isconsecutive = hotp_isconsecutive, co_maxtwin = hotp_maxtwin,
     co_printchallenge = hotp_printchallenge\<rparr>"

section \<open>Lemmas\<close>

lemmas hotp_fm_defs = HOTP5_def HOTP6_def HOTP7_def HOTP8_def HOTP9_def

lemma hotp_fm_values:
  "HOTP5 = 0x54" "HOTP6 = 0x64" "HOTP7 = 0x74" "HOTP8 = 0x84" "HOTP9 = 0x94"
  by (simp_all add: hotp_fm_defs cf_defs)

lemma cf_len_hotp:
  "cf_len HOTP5 = 5" "cf_len HOTP6 = 6" "cf_len HOTP7 = 7" "cf_len HOTP8 = 8" "cf_len HOTP9 = 9"
  by (simp_all add: hotp_fm_values cf_defs)

lemma keystring_result:
  "hotp_keystring2key u st = COk (u', st', n) \<Longrightarrow>
     u' = u\<lparr>u_key := u_key u'\<rparr> \<and> st' = st\<lparr>s_scratch1 := s_scratch1 st'\<rparr> \<and> length (u_key u') = n"
  by (auto simp: hotp_keystring2key_def Let_def length_a2nx split: if_splits option.splits)

lemma hotp_mac_chars: "hotp_mac cr c k kl d = COk s \<Longrightarrow> length s \<le> OTP_MAX_RESPONSE_LEN \<and> no_nul s"
proof -
  assume mac: "hotp_mac cr c k kl d = COk s"
  then have "set s \<subseteq> digit_char ` {..<10}" "d \<le> 9"
    using set_fmt_lu by (auto simp: hotp_mac_COk_iff)
  moreover have "NUL \<notin> digit_char ` {..<10}"
    using digit_char_hex(4) by (auto simp: image_iff dest: sym)
  ultimately show ?thesis
    using length_hotp_mac [OF mac] by (auto simp: no_nul_def max_defs)
qed

lemma hotp_name2fm_result:
  "hotp_name2fm u st = COk u' \<Longrightarrow> u' = u\<lparr>u_featuremask := u_featuremask u'\<rparr>
     \<and> u_featuremask u' \<in> {HOTP5, HOTP6, HOTP7, HOTP8, HOTP9}"
  by (auto simp: hotp_name2fm_def hotp_cards_def dest!: name2fm_tbl_COk)

lemma hotp_fm_len: "fm \<in> {HOTP5, HOTP6, HOTP7, HOTP8, HOTP9} \<Longrightarrow> cf_len fm \<le> 9"
  by (auto simp: cf_len_hotp)

lemma hotp_key_no_fault: "hotp_keystring2key u st \<noteq> CFault"
  by (simp add: hotp_keystring2key_def Let_def split: option.splits)

lemma rd_candidate:
  "length (fmt_x32 w) \<le> 8 \<and> CHR '':'' \<notin> set (fmt_x32 w) \<and> no_nul (fmt_x32 w)"
  by (simp add: length_fmt_x32 fmt_x32_no_colon fmt_x32_no_nul)

lemma hotp_updatecsd_result:
  "hotp_updatecsd st now t e rc = COk st' \<Longrightarrow> st' = st\<lparr>s_rd := s_rd st'\<rparr> \<and> (s_rd st' = s_rd st
     \<or> (length (s_rd st') \<le> 8 \<and> CHR '':'' \<notin> set (s_rd st') \<and> no_nul (s_rd st')))"
  using rd_candidate by (auto simp: hotp_updatecsd_def split: if_splits)

lemma hotp_challenge_result:
  "hotp_challenge u st ch now t e = COk (st', ch') \<Longrightarrow> length ch = OTP_MAX_CHALLENGE_LEN \<Longrightarrow>
   s_clen st \<le> OTP_MAX_CHALLENGE_LEN \<Longrightarrow>
   st' = st\<lparr>s_clen := s_clen st'\<rparr> \<and> s_clen st' \<le> OTP_MAX_CHALLENGE_LEN \<and> length ch' = OTP_MAX_CHALLENGE_LEN"
  by (auto simp: hotp_challenge_def max_defs Let_def)

lemma hotp_name2fm_contract:
  "hotp_name2fm u st = COk u' \<Longrightarrow>
     u' = u\<lparr>u_featuremask := u_featuremask u'\<rparr> \<and> cf_len (u_featuremask u') \<le> 9"
  using hotp_name2fm_result hotp_fm_len by blast

lemma hotp_response_result:
  "hotp_response cr u st ch len now = COk s \<Longrightarrow> length s \<le> OTP_MAX_RESPONSE_LEN \<and> no_nul s"
  unfolding hotp_response_def by (rule hotp_mac_chars)

lemma hotp_ops [simp]:
  "co_name2fm (hotp_cardops cr) = hotp_name2fm" "co_keystring2key (hotp_cardops cr) = hotp_keystring2key"
  "co_nullstate (hotp_cardops cr) = hotp_nullstate" "co_challenge (hotp_cardops cr) = hotp_challenge"
  "co_response (hotp_cardops cr) = hotp_response cr" "co_updatecsd (hotp_cardops cr) = hotp_updatecsd"
  "co_isconsecutive (hotp_cardops cr) = hotp_isconsecutive" "co_maxtwin (hotp_cardops cr) = hotp_maxtwin"
  by (simp_all add: hotp_cardops_def)

interpretation hotp: card_module "hotp_cardops cr" for cr
  by unfold_locales (unfold hotp_ops,
    (erule hotp_name2fm_contract keystring_result hotp_response_result hotp_updatecsd_result
     | (erule hotp_challenge_result, assumption, assumption) | rule hotp_key_no_fault
     | simp add: hotp_name2fm_def hotp_nullstate_def hotp_updatecsd_def hotp_maxtwin_def)+)

interpretation hotp_robust: robust_card_module "hotp_cardops cr" for cr
  by unfold_locales (simp_all add: hotp_challenge_def hotp_response_def Let_def)

section \<open>The event counter\<close>

lemma bit_scast_u64: "bit (scast (w :: u32) :: u64) n \<longleftrightarrow> n < 64 \<and> bit w (min n 31)"
  by (simp add: bit_simps min_def)

lemma unat_be32_int: "unat (be32_int b0 b1 b2 b3) = unat b0 * 2 ^ 24 + unat b1 * 2 ^ 16 + unat b2 * 2 ^ 8 + unat b3"
  by (simp only: be32_int_def unat_be32)

lemma unat_join32: "unat (push_bit 32 (ucast (hi :: u32)) OR ucast (lo :: u32) :: u64) = unat hi * 2 ^ 32 + unat lo"
proof -
  have "push_bit 32 (ucast hi) OR ucast lo = (push_bit 32 (ucast hi) + ucast lo :: u64)"
    by (rule disjunctive_add [symmetric]) (auto simp: bit_simps dest: bit_imp_le_length)
  also have "\<dots> = word_of_nat (unat hi * 2 ^ 32 + unat lo)"
    by (simp add: push_bit_eq_mult)
  finally have "push_bit 32 (ucast hi) OR ucast lo = (word_of_nat (unat hi * 2 ^ 32 + unat lo) :: u64)" .
  moreover have "unat hi * 2 ^ 32 + unat lo < 2 ^ 64"
    using unsigned_less [of hi, where 'a = nat] unsigned_less [of lo, where 'a = nat] by simp
  ultimately show ?thesis by (simp only: unat_of_nat) simp
qed

lemma sign_extended_join:
  fixes hi lo :: u32
  shows "push_bit 32 (scast hi) OR scast lo
   = (push_bit 32 (ucast (if bit lo 31 then - 1 else hi)) OR ucast lo :: u64)"
proof (rule bit_word_eqI)
  fix n
  assume n: "n < LENGTH(64)"
  have "\<not> bit lo n" if "32 \<le> n" using that by (auto dest: bit_imp_le_length)
  moreover have "n - 32 \<le> 31" using n by simp
  ultimately show "bit (push_bit 32 (scast hi) OR scast lo :: u64) n
      = bit (push_bit 32 (ucast (if bit lo 31 then - 1 else hi)) OR ucast lo :: u64) n"
    using n by (cases "32 \<le> n"; cases "n = 31")
      (auto simp: bit_or_iff bit_push_bit_iff bit_scast_u64 bit_ucast_iff min_def)
qed

lemma bit31_iff: "bit (w :: u32) 31 \<longleftrightarrow> 2 ^ 31 \<le> unat w"
proof -
  have "unat w div 2 ^ 31 < 2" using unsigned_less [of w, where 'a = nat] by simp
  then have "odd (unat w div 2 ^ 31) \<longleftrightarrow> 2 ^ 31 \<le> unat w"
    by (cases "unat w < 2 ^ 31") (auto simp: less_2_cases_iff)
  moreover have "bit w 31 \<longleftrightarrow> bit (unat w) 31" by (simp add: bit_unsigned_iff)
  ultimately show ?thesis by (simp only: bit_iff_odd)
qed

lemma be_val_8: "be_val [a, b, c, d, e, f, g, h] = unat (be32_int a b c d) * 2 ^ 32 + unat (be32_int e f g h)"
  by (simp add: be_val_def unat_be32_int)

lemma take8_cases:
  assumes "8 \<le> length ch"
  obtains a b c d e f g h rest where "ch = [a, b, c, d, e, f, g, h] @ rest"
proof -
  from assms have "take 8 ch = [ch ! 0, ch ! 1, ch ! 2, ch ! 3, ch ! 4, ch ! 5, ch ! 6, ch ! 7]"
    by (auto simp: list_eq_iff_nth_eq less_Suc_eq numeral_eq_Suc)
  with that show thesis by (metis append_take_drop_id)
qed

lemma unat_hotp_counter:
  assumes "8 \<le> length ch"
  shows "unat (hotp_counter ch) =
    (let v = be_val (take 8 ch) in
     if v mod 2 ^ 32 < 2 ^ 31 then v else (2 ^ 32 - 1) * 2 ^ 32 + v mod 2 ^ 32)"
proof -
  obtain a b c d e f g h rest where ch: "ch = [a, b, c, d, e, f, g, h] @ rest"
    using take8_cases [OF assms] .
  define hi lo where "hi = be32_int a b c d" and "lo = be32_int e f g h"
  have v: "be_val (take 8 ch) = unat hi * 2 ^ 32 + unat lo"
    by (simp only: ch be_val_8 hi_def lo_def) (simp add: be_val_8)
  have "unat lo < 2 ^ 32" using unsigned_less [of lo, where 'a = nat] by simp
  then have m: "be_val (take 8 ch) mod 2 ^ 32 = unat lo" unfolding v by simp
  have "unat (hotp_counter ch) = unat (if bit lo 31 then - 1 else hi) * 2 ^ 32 + unat lo"
    by (simp only: hotp_counter_def ch hi_def lo_def sign_extended_join unat_join32) simp
  then show ?thesis
    unfolding Let_def m unfolding v
    by (simp add: bit31_iff unsigned_minus_1_eq_mask mask_eq_exp_minus_1)
qed

lemma hotp_challenge_eq:
  "hotp_challenge u st ch now t e =
     COk (st\<lparr>s_clen := 8\<rparr>, be64_bytes (hotp_counter ch + 1) @ drop 8 ch)"
  by (simp add: hotp_challenge_def memcpy_def Let_def)

lemma be_val_8_lt: "length bs = 8 \<Longrightarrow> be_val bs < 2 ^ 64"
proof -
  assume len: "length bs = 8"
  then obtain a b c d e f g h rest where "bs = [a, b, c, d, e, f, g, h] @ rest"
    by (metis take8_cases order_refl)
  with len have "be_val bs = unat (be32_int a b c d) * 2 ^ 32 + unat (be32_int e f g h)"
    by (simp only: be_val_8) (simp add: be_val_8)
  then show ?thesis
    using unsigned_less [of "be32_int a b c d", where 'a = nat] unsigned_less [of "be32_int e f g h", where 'a = nat]
    by simp
qed

lemma hotp_next_counter:
  assumes "8 \<le> length ch" and "be_val (take 8 ch) mod 2 ^ 32 < 2 ^ 31"
  shows "unat (hotp_counter ch + 1) = be_val (take 8 ch) + 1"
proof -
  define v where "v = be_val (take 8 ch)"
  have "v < 2 ^ 64" using assms(1) unfolding v_def by (intro be_val_8_lt) simp
  moreover have "v mod 2 ^ 32 < 2 ^ 31" using assms(2) by (simp only: v_def)
  ultimately have "v + 1 < 2 ^ 64"
    by (cases "v = 2 ^ 64 - 1") simp_all
  moreover have "unat (hotp_counter ch) = v"
    using assms by (simp only: unat_hotp_counter Let_def v_def if_True)
  ultimately show ?thesis
    by (simp only: unat_word_ariths) (simp add: v_def)
qed

section \<open>Properties\<close>

text \<open>
  One step of the HOTP challenge is an increment. For every counter whose low word is below
  \<open>2 ^ 31\<close>, \<open>hotp_challenge\<close> writes the octets of the next counter value, leaves the rest of the
  challenge buffer alone and changes nothing of the state but the challenge length.
\<close>

theorem hotp_challenge_increments:
  assumes "length ch = OTP_MAX_CHALLENGE_LEN" and "be_val (take 8 ch) mod 2 ^ 32 < 2 ^ 31"
  shows "\<exists>ch'. hotp_challenge user st ch now t e = COk (st\<lparr>s_clen := 8\<rparr>, ch')
    \<and> be_val (take 8 ch') = be_val (take 8 ch) + 1 \<and> drop 8 ch' = drop 8 ch \<and> length ch' = length ch"
  using assms hotp_next_counter [of ch]
  by (simp add: hotp_challenge_eq be_val_be64_bytes max_defs)

theorem hotp_challenge_increments_witness:
  "\<forall>user. \<exists>ch'. hotp_challenge user state_zero (replicate 7 0 @ [255] @ replicate 8 9) 0 0 0
      = COk (state_zero\<lparr>s_clen := 8\<rparr>, ch') \<and> be_val (take 8 ch') = 256"
proof
  fix user :: user_t
  let ?ch = "replicate 7 0 @ [255] @ replicate 8 9 :: byte list"
  have v: "be_val (take 8 ?ch) = 255" by code_simp
  have "\<exists>ch'. hotp_challenge user state_zero ?ch 0 0 0 = COk (state_zero\<lparr>s_clen := 8\<rparr>, ch')
    \<and> be_val (take 8 ch') = be_val (take 8 ?ch) + 1 \<and> drop 8 ch' = drop 8 ?ch \<and> length ch' = length ?ch"
    by (rule hotp_challenge_increments) (simp_all only: v, simp_all add: max_defs)
  then show "\<exists>ch'. hotp_challenge user state_zero ?ch 0 0 0 = COk (state_zero\<lparr>s_clen := 8\<rparr>, ch')
    \<and> be_val (take 8 ch') = 256" unfolding v by auto
qed

text \<open>
  Where the low word of the counter has its top bit set, the sign extension of the
  \<open>int\<close> expression overwrites the high word with ones. In particular the successor of counter
  \<open>2 ^ 32 - 1\<close> is 0: the event counter jumps back, although the comment asks for \<open>+1\<close>.
\<close>

theorem hotp_challenge_sign_extension:
  assumes "length ch = OTP_MAX_CHALLENGE_LEN" and "be_val (take 8 ch) = 2 ^ 32 - 1"
  shows "\<exists>ch'. hotp_challenge user st ch now t e = COk (st\<lparr>s_clen := 8\<rparr>, ch') \<and> be_val (take 8 ch') = 0"
proof -
  have "unat (hotp_counter ch) = 2 ^ 64 - 1"
    using assms by (simp add: unat_hotp_counter Let_def max_defs)
  then have "unat (hotp_counter ch + 1) = 0"
    by (simp only: unat_word_ariths) simp
  then show ?thesis
    by (simp add: hotp_challenge_eq be_val_be64_bytes)
qed

theorem hotp_challenge_sign_extension_witness:
  "\<forall>user. \<exists>ch'. hotp_challenge user state_zero (replicate 4 0 @ replicate 4 255 @ replicate 8 0) 0 0 0
      = COk (state_zero\<lparr>s_clen := 8\<rparr>, ch') \<and> be_val (take 8 ch') = 0"
proof -
  have ch: "take 8 (replicate 4 0 @ replicate 4 255 @ replicate 8 0) = [0, 0, 0, 0, 255, 255, 255, 255 :: byte]"
    by code_simp
  have "be_val (take 8 (replicate 4 0 @ replicate 4 255 @ replicate 8 0)) = 2 ^ 32 - 1"
    unfolding ch by (simp add: be_val_def)
  then show ?thesis
    by (intro allI hotp_challenge_sign_extension) (simp_all add: max_defs)
qed

text \<open>
  The resynchronisation record. After a valid passcode outside the event window has been
  recorded at window position \<open>e\<close>, exactly the passcode at position \<open>e + 1\<close> counts as
  consecutive; after a successful authentication none does.
\<close>

theorem hotp_rwindow_candidate:
  assumes "0 \<le> e" and "e < 2 ^ 31 - 1"
  shows "\<exists>st'. hotp_updatecsd st now t e rc = COk st'
    \<and> (hotp_isconsecutive user st' e' \<longleftrightarrow> rc \<noteq> OTP_RC_OK \<and> e' = e + 1)"
proof -
  have "sint (word_of_int e :: u32) = e"
    using assms by (simp add: signed_of_int signed_take_bit_int_eq_self)
  then show ?thesis
    by (simp add: hotp_updatecsd_def hotp_isconsecutive_def)
qed

theorem hotp_rwindow_candidate_witness:
  "\<forall>user. \<exists>st'. hotp_updatecsd state_zero 0 0 17 OTP_RC_NEXTPASSCODE = COk st'
     \<and> hotp_isconsecutive user st' 18 \<and> \<not> hotp_isconsecutive user st' 17"
  using hotp_rwindow_candidate [of 17 state_zero 0 0 OTP_RC_NEXTPASSCODE _ 18]
    hotp_rwindow_candidate [of 17 state_zero 0 0 OTP_RC_NEXTPASSCODE _ 17]
  by (auto simp: hotp_updatecsd_def)

end
