(* ===== verification/Otpd_Card_Time.thy ===== *)
theory Otpd_Card_Time
  imports Otpd_Card_Hotp
begin

text \<open>
  The time based modules \<^verbatim>\<open>src/cardops/totp.c\<close> and \<^verbatim>\<open>src/cardops/c200.c\<close>: HOTP over a counter
  taken from the clock. \<open>c2c\<close> of both files is \<open>be64_bytes\<close>. Both keep the contract of a card
  module; the properties relate the counter to the time step of RFC 6238.
\<close>

section \<open>totp.c\<close>

definition totp_cards :: "(string \<times> u32) list" where
  "totp_cards = [(''totp-d6'', HOTP6), (''totp-d7'', HOTP7), (''totp-d8'', HOTP8)]"

definition totp_name2fm :: "user_t \<Rightarrow> state_t \<Rightarrow> user_t cres" where
  "totp_name2fm user state = name2fm_tbl totp_cards user"

definition totp_keystring2key :: "user_t \<Rightarrow> state_t \<Rightarrow> (user_t \<times> state_t \<times> nat) cres" where
  "totp_keystring2key user state =
     (let l = length (u_keystring user) in
      if l < 32 then CErr (-1)
      else case a2nx (u_keystring user) (l div 2) of
        None \<Rightarrow> CErr (-1)
      | Some key \<Rightarrow> COk (user\<lparr>u_key := key\<rparr>, state\<lparr>s_scratch1 := l div 2\<rparr>, l div 2))"

definition totp_nullstate :: "config_t \<Rightarrow> user_t \<Rightarrow> state_t \<Rightarrow> int \<Rightarrow> state_t cres" where
  "totp_nullstate config user state when = COk state"

definition totp_challenge ::
  "user_t \<Rightarrow> state_t \<Rightarrow> byte list \<Rightarrow> int \<Rightarrow> int \<Rightarrow> int \<Rightarrow> (state_t \<times> byte list) cres" where
  "totp_challenge user state challenge when twin ewin = COk (state, challenge)"

text \<open>
  The counter: \<open>time(NULL)\<close> is cut to an \<open>int\<close>, divided by \<open>TIME_STEP\<close> (30) and converted to a
  \<open>uint64_t\<close>.
\<close>

definition totp_iv :: "int \<Rightarrow> u64" where
  "totp_iv t = word_of_int (cdiv (sint (word_of_int t :: u32)) 30)"

definition totp_response :: "crypto \<Rightarrow> user_t \<Rightarrow> state_t \<Rightarrow> byte list \<Rightarrow> nat \<Rightarrow> int \<Rightarrow> string cres" where
  "totp_response cr user state challenge len now =
     hotp_mac cr (be64_bytes (totp_iv now)) (u_key user) (s_scratch1 state) (cf_len (u_featuremask user))"

definition totp_updatecsd :: "state_t \<Rightarrow> int \<Rightarrow> int \<Rightarrow> int \<Rightarrow> otp_rc \<Rightarrow> state_t cres" where
  "totp_updatecsd state when twin ewin auth_rc = COk state"

definition totp_isconsecutive :: "user_t \<Rightarrow> state_t \<Rightarrow> int \<Rightarrow> bool" where
  "totp_isconsecutive user state thisewin = True"

definition totp_maxtwin :: "user_t \<Rightarrow> state_t \<Rightarrow> int \<Rightarrow> int" where
  "totp_maxtwin user state when = 0"

definition totp_printchallenge :: "byte list \<Rightarrow> nat \<Rightarrow> string" where
  "totp_printchallenge challenge len = x2a challenge len x2a_hex_conversion"

definition totp_cardops :: "crypto \<Rightarrow> cardops_t" where
  "totp_cardops cr = \<lparr>co_prefix = ''totp'', co_plen = 4,
     co_name2fm = totp_name2fm, co_keystring2key = totp_keystring2key, co_nullstate = totp_nullstate,
     co_challenge = totp_challenge, co_response = totp_response cr, co_updatecsd = totp_updatecsd,
     co_isconsecutive = totp_isconsecutive, co_maxtwin = totp_maxtwin,
     co_printchallenge = totp_printchallenge\<rparr>"

section \<open>c200.c\<close>

definition c200_cards :: "(string \<times> u32) list" where
  "c200_cards = [(''c200-d6'', HOTP6), (''c200-d7'', HOTP7), (''c200-d8'', HOTP8)]"

definition c200_name2fm :: "user_t \<Rightarrow> state_t \<Rightarrow> user_t cres" where
  "c200_name2fm user state = name2fm_tbl c200_cards user"

definition c200_keystring2key :: "user_t \<Rightarrow> state_t \<Rightarrow> (user_t \<times> state_t \<times> nat) cres" where
  "c200_keystring2key user state =
     (let l = length (u_keystring user) in
      if l < 32 then CErr (-1)
      else case a2nx (u_keystring user) (l div 2) of
        None \<Rightarrow> CErr (-1)
      | Some key \<Rightarrow> COk (user\<lparr>u_key := key\<rparr>, state\<lparr>s_scratch1 := l div 2\<rparr>, l div 2))"

definition c200_nullstate :: "config_t \<Rightarrow> user_t \<Rightarrow> state_t \<Rightarrow> int \<Rightarrow> state_t cres" where
  "c200_nullstate config user state when = COk state"

definition c200_challenge ::
  "user_t \<Rightarrow> state_t \<Rightarrow> byte list \<Rightarrow> int \<Rightarrow> int \<Rightarrow> int \<Rightarrow> (state_t \<times> byte list) cres" where
  "c200_challenge user state challenge when twin ewin = COk (state, challenge)"

text \<open>
  The counter: the time is moved up to the next full minute (a full minute when it is on one),
  cut to an \<open>int\<close> and divided by \<open>TIME_STEP\<close> (60).
\<close>

definition c200_iv :: "int \<Rightarrow> u64" where
  "c200_iv t = (let t_rounding = 60 - cmod t 60
     in word_of_int (cdiv (sint (word_of_int (t + t_rounding) :: u32)) 60))"

definition c200_response :: "crypto \<Rightarrow> user_t \<Rightarrow> state_t \<Rightarrow> byte list \<Rightarrow> nat \<Rightarrow> int \<Rightarrow> string cres" where
  "c200_response cr user state challenge len now =
     hotp_mac cr (be64_bytes (c200_iv now)) (u_key user) (s_scratch1 state) (cf_len (u_featuremask user))"

definition c200_updatecsd :: "state_t \<Rightarrow> int \<Rightarrow> int \<Rightarrow> int \<Rightarrow> otp_rc \<Rightarrow> state_t cres" where
  "c200_updatecsd state when twin ewin auth_rc = COk state"

definition c200_isconsecutive :: "user_t \<Rightarrow> state_t \<Rightarrow> int \<Rightarrow> bool" where
  "c200_isconsecutive user state thisewin = True"

definition c200_maxtwin :: "user_t \<Rightarrow> state_t \<Rightarrow> int \<Rightarrow> int" where
  "c200_maxtwin user state when = 0"

definition c200_printchallenge :: "byte list \<Rightarrow> nat \<Rightarrow> string" where
  "c200_printchallenge challenge len = x2a challenge len x2a_hex_conversion"

definition c200_cardops :: "crypto \<Rightarrow> cardops_t" where
  "c200_cardops cr = \<lparr>co_prefix = ''c200'', co_plen = 4,
     co_name2fm = c200_name2fm, co_keystring2key = c200_keystring2key, co_nullstate = c200_nullstate,
     co_challenge = c200_challenge, co_response = c200_response cr, co_updatecsd = c200_updatecsd,
     co_isconsecutive = c200_isconsecutive, co_maxtwin = c200_maxtwin,
     co_printchallenge = c200_printchallenge\<rparr>"

section \<open>The contract\<close>

lemma totp_name2fm_contract:
  "totp_name2fm u st = COk u' \<Longrightarrow>
     u' = u\<lparr>u_featuremask := u_featuremask u'\<rparr> \<and> cf_len (u_featuremask u') \<le> 9"
  by (auto simp: totp_name2fm_def totp_cards_def cf_len_hotp dest!: name2fm_tbl_COk)

lemma totp_keystring2key_eq: "totp_keystring2key = hotp_keystring2key"
  by (intro ext) (simp only: totp_keystring2key_def hotp_keystring2key_def)

lemma totp_response_result:
  "totp_response cr u st ch len now = COk s \<Longrightarrow> length s \<le> OTP_MAX_RESPONSE_LEN \<and> no_nul s"
  unfolding totp_response_def by (rule hotp_mac_chars)

lemma totp_ops [simp]:
  "co_prefix (totp_cardops cr) = ''totp''" "co_plen (totp_cardops cr) = 4"
  "co_name2fm (totp_cardops cr) = totp_name2fm" "co_keystring2key (totp_cardops cr) = totp_keystring2key"
  "co_nullstate (totp_cardops cr) = totp_nullstate" "co_challenge (totp_cardops cr) = totp_challenge"
  "co_response (totp_cardops cr) = totp_response cr" "co_updatecsd (totp_cardops cr) = totp_updatecsd"
  "co_isconsecutive (totp_cardops cr) = totp_isconsecutive" "co_maxtwin (totp_cardops cr) = totp_maxtwin"
  by (simp_all add: totp_cardops_def)

interpretation totp: card_module "totp_cardops cr" for cr
  by unfold_locales (unfold totp_ops totp_keystring2key_eq,
    (erule totp_name2fm_contract keystring_result totp_response_result | rule hotp_key_no_fault
     | simp add: totp_name2fm_def totp_nullstate_def totp_updatecsd_def totp_maxtwin_def totp_challenge_def)+)

lemma c200_name2fm_contract:
  "c200_name2fm u st = COk u' \<Longrightarrow>
     u' = u\<lparr>u_featuremask := u_featuremask u'\<rparr> \<and> cf_len (u_featuremask u') \<le> 9"
  by (auto simp: c200_name2fm_def c200_cards_def cf_len_hotp dest!: name2fm_tbl_COk)

lemma c200_keystring2key_eq: "c200_keystring2key = hotp_keystring2key"
  by (intro ext) (simp only: c200_keystring2key_def hotp_keystring2key_def)

lemma c200_response_result:
  "c200_response cr u st ch len now = COk s \<Longrightarrow> length s \<le> OTP_MAX_RESPONSE_LEN \<and> no_nul s"
  unfolding c200_response_def by (rule hotp_mac_chars)

lemma c200_ops [simp]:
  "co_prefix (c200_cardops cr) = ''c200''" "co_plen (c200_cardops cr) = 4"
  "co_name2fm (c200_cardops cr) = c200_name2fm" "co_keystring2key (c200_cardops cr) = c200_keystring2key"
  "co_nullstate (c200_cardops cr) = c200_nullstate" "co_challenge (c200_cardops cr) = c200_challenge"
  "co_response (c200_cardops cr) = c200_response cr" "co_updatecsd (c200_cardops cr) = c200_updatecsd"
  "co_isconsecutive (c200_cardops cr) = c200_isconsecutive" "co_maxtwin (c200_cardops cr) = c200_maxtwin"
  by (simp_all add: c200_cardops_def)

interpretation c200: card_module "c200_cardops cr" for cr
  by unfold_locales (unfold c200_ops c200_keystring2key_eq,
    (erule c200_name2fm_contract keystring_result c200_response_result | rule hotp_key_no_fault
     | simp add: c200_name2fm_def c200_nullstate_def c200_updatecsd_def c200_maxtwin_def c200_challenge_def)+)

interpretation totp_robust: robust_card_module "totp_cardops cr" for cr
  by unfold_locales (simp_all add: totp_challenge_def totp_response_def)

interpretation c200_robust: robust_card_module "c200_cardops cr" for cr
  by unfold_locales (simp_all add: c200_challenge_def c200_response_def)

section \<open>Time steps\<close>

lemma sint_u32_small: "0 \<le> t \<Longrightarrow> t < 2 ^ 31 \<Longrightarrow> sint (word_of_int t :: u32) = t"
  by (simp add: signed_of_int signed_take_bit_int_eq_self)

lemma unat_u64_small: "0 \<le> t \<Longrightarrow> t < 2 ^ 31 \<Longrightarrow> unat (word_of_int t :: u64) = nat t"
  by (simp add: unat_eq_nat_uint uint_word_of_int)

lemma totp_iv_step: "0 \<le> t \<Longrightarrow> t < 2 ^ 31 \<Longrightarrow> unat (totp_iv t) = nat (t div 30)"
  by (simp add: totp_iv_def sint_u32_small cdiv_nonneg unat_u64_small)

lemma c200_iv_step:
  assumes "0 \<le> t" and "t < 2 ^ 31 - 60"
  shows "unat (c200_iv t) = nat (t div 60 + 1)"
proof -
  have next_minute: "t + (60 - t mod 60) = 60 * (t div 60 + 1)"
    by (simp add: minus_mod_eq_mult_div)
  have bound: "60 * (t div 60 + 1) < 2 ^ 31"
    using assms mult_div_mod_eq [of 60 t] pos_mod_sign [of 60 t] by simp
  have "c200_iv t = word_of_int (t div 60 + 1)"
  proof -
    have "c200_iv t = word_of_int (cdiv (sint (word_of_int (60 * (t div 60 + 1)) :: u32)) 60)"
      using assms(1) by (simp only: c200_iv_def Let_def cmod_nonneg next_minute zero_less_numeral)
    also have "\<dots> = word_of_int (cdiv (60 * (t div 60 + 1)) 60)"
      using assms(1) bound by (subst sint_u32_small) simp_all
    also have "cdiv (60 * (t div 60 + 1)) 60 = t div 60 + 1"
      using assms(1) by (subst cdiv_nonneg) simp_all
    finally show ?thesis .
  qed
  then show ?thesis
    using assms(1) bound unat_u64_small [of "t div 60 + 1"] by simp
qed

section \<open>Properties\<close>

text \<open>
  The TOTP response is the HOTP response at counter \<open>T div 30\<close>, whatever challenge and length
  are passed, up to the year 2038 in which the cast to \<open>int\<close> turns negative.
\<close>

theorem totp_response_time_step:
  assumes "0 \<le> t" and "t < 2 ^ 31"
  shows "\<exists>ctr. be_val ctr = nat (t div 30) \<and> length ctr = 8
    \<and> totp_response cr user st ch len t = hotp_response cr user st ctr 8 now"
  using totp_iv_step [OF assms]
  by (intro exI [of _ "be64_bytes (totp_iv t)"])
    (simp add: totp_response_def hotp_response_def be_val_be64_bytes)

theorem totp_response_time_step_witness:
  "\<forall>cr user. \<exists>ctr. be_val ctr = 37037036 \<and> length ctr = 8
     \<and> totp_response cr user state_zero [] 0 1111111109 = hotp_response cr user state_zero ctr 8 0"
  using totp_response_time_step [of 1111111109 _ _ state_zero "[]" 0 0] by simp

text \<open>
  The C200 response is the HOTP response at counter \<open>T div 60 + 1\<close>: the time rounded up to the
  next minute, also at a full minute.
\<close>

theorem c200_response_time_step:
  assumes "0 \<le> t" and "t < 2 ^ 31 - 60"
  shows "\<exists>ctr. be_val ctr = nat (t div 60 + 1) \<and> length ctr = 8
    \<and> c200_response cr user st ch len t = hotp_response cr user st ctr 8 now"
  using c200_iv_step [OF assms]
  by (intro exI [of _ "be64_bytes (c200_iv t)"])
    (simp add: c200_response_def hotp_response_def be_val_be64_bytes)

theorem c200_response_time_step_witness:
  "\<forall>cr user. \<exists>ctr. be_val ctr = 3 \<and> length ctr = 8
     \<and> c200_response cr user state_zero [] 0 120 = hotp_response cr user state_zero ctr 8 0"
  using c200_response_time_step [of 120 _ _ state_zero "[]" 0 0] by simp

end
