(* ===== verification/Otpd_Card_X99.thy ===== *)
theory Otpd_Card_X99
  imports Otpd_Card_Hotp
begin

text \<open>
  The DES based modules \<^verbatim>\<open>src/cardops/x99.c\<close> (challenge/response only) and
  \<^verbatim>\<open>src/cardops/cryptocard.c\<close> (challenge/response and event synchronous): feature masks, name
  tables, operations, the contract of a card module and the shape of what they produce.
\<close>

section \<open>x99.h and cryptocard.h\<close>

definition X99_CF_HD :: u32 where "X99_CF_HD = OTP_CF_VSA0"
definition X99_CF_DD :: u32 where "X99_CF_DD = OTP_CF_VSA1"
definition X99_CF_PH :: u32 where "X99_CF_PH = OTP_CF_VSA2"
definition X99_CF_LEN7 :: u32 where "X99_CF_LEN7 = OTP_CF_LEN2 OR OTP_CF_LEN1 OR OTP_CF_LEN0"
definition X99_CF_LEN8 :: u32 where "X99_CF_LEN8 = OTP_CF_LEN3"
definition X99_H8 :: u32 where "X99_H8 = X99_CF_HD OR X99_CF_LEN8 OR OTP_CF_AM"
definition X99_H7 :: u32 where "X99_H7 = X99_CF_HD OR X99_CF_LEN7 OR OTP_CF_AM"
definition X99_D8 :: u32 where "X99_D8 = X99_CF_DD OR X99_CF_LEN8 OR OTP_CF_AM"
definition X99_D7 :: u32 where "X99_D7 = X99_CF_DD OR X99_CF_LEN7 OR OTP_CF_AM"

definition CRYPTOCARD_CF_HD :: u32 where "CRYPTOCARD_CF_HD = OTP_CF_VSA0"
definition CRYPTOCARD_CF_DD :: u32 where "CRYPTOCARD_CF_DD = OTP_CF_VSA1"
definition CRYPTOCARD_CF_PH :: u32 where "CRYPTOCARD_CF_PH = OTP_CF_VSA2"
definition CRYPTOCARD_CF_LEN7 :: u32 where
  "CRYPTOCARD_CF_LEN7 = OTP_CF_LEN2 OR OTP_CF_LEN1 OR OTP_CF_LEN0"
definition CRYPTOCARD_CF_LEN8 :: u32 where "CRYPTOCARD_CF_LEN8 = OTP_CF_LEN3"
definition CRYPTOCARD_H8_RC :: u32 where
  "CRYPTOCARD_H8_RC = CRYPTOCARD_CF_HD OR CRYPTOCARD_CF_LEN8 OR OTP_CF_AM"
definition CRYPTOCARD_H7_RC :: u32 where
  "CRYPTOCARD_H7_RC = CRYPTOCARD_CF_HD OR CRYPTOCARD_CF_LEN7 OR OTP_CF_AM"
definition CRYPTOCARD_HP_RC :: u32 where
  "CRYPTOCARD_HP_RC = CRYPTOCARD_CF_HD OR CRYPTOCARD_CF_LEN8 OR CRYPTOCARD_CF_PH OR OTP_CF_AM"
definition CRYPTOCARD_D8_RC :: u32 where
  "CRYPTOCARD_D8_RC = CRYPTOCARD_CF_DD OR CRYPTOCARD_CF_LEN8 OR OTP_CF_AM"
definition CRYPTOCARD_D7_RC :: u32 where
  "CRYPTOCARD_D7_RC = CRYPTOCARD_CF_DD OR CRYPTOCARD_CF_LEN7 OR OTP_CF_AM"
definition CRYPTOCARD_DP_RC :: u32 where
  "CRYPTOCARD_DP_RC = CRYPTOCARD_CF_DD OR CRYPTOCARD_CF_LEN8 OR CRYPTOCARD_CF_PH OR OTP_CF_AM"
definition CRYPTOCARD_H8_ES :: u32 where
  "CRYPTOCARD_H8_ES = CRYPTOCARD_CF_HD OR CRYPTOCARD_CF_LEN8 OR OTP_CF_ES"
definition CRYPTOCARD_H7_ES :: u32 where
  "CRYPTOCARD_H7_ES = CRYPTOCARD_CF_HD OR CRYPTOCARD_CF_LEN7 OR OTP_CF_ES"
definition CRYPTOCARD_HP_ES :: u32 where
  "CRYPTOCARD_HP_ES = CRYPTOCARD_CF_HD OR CRYPTOCARD_CF_LEN8 OR CRYPTOCARD_CF_PH OR OTP_CF_ES"
definition CRYPTOCARD_D8_ES :: u32 where
  "CRYPTOCARD_D8_ES = CRYPTOCARD_CF_DD OR CRYPTOCARD_CF_LEN8 OR OTP_CF_ES"
definition CRYPTOCARD_D7_ES :: u32 where
  "CRYPTOCARD_D7_ES = CRYPTOCARD_CF_DD OR CRYPTOCARD_CF_LEN7 OR OTP_CF_ES"
definition CRYPTOCARD_DP_ES :: u32 where
  "CRYPTOCARD_DP_ES = CRYPTOCARD_CF_DD OR CRYPTOCARD_CF_LEN8 OR CRYPTOCARD_CF_PH OR OTP_CF_ES"
definition CRYPTOCARD_H8_RS :: u32 where "CRYPTOCARD_H8_RS = CRYPTOCARD_H8_RC OR CRYPTOCARD_H8_ES"
definition CRYPTOCARD_H7_RS :: u32 where "CRYPTOCARD_H7_RS = CRYPTOCARD_H7_RC OR CRYPTOCARD_H7_ES"
definition CRYPTOCARD_HP_RS :: u32 where "CRYPTOCARD_HP_RS = CRYPTOCARD_HP_RC OR CRYPTOCARD_HP_ES"
definition CRYPTOCARD_D8_RS :: u32 where "CRYPTOCARD_D8_RS = CRYPTOCARD_D8_RC OR CRYPTOCARD_D8_ES"
definition CRYPTOCARD_D7_RS :: u32 where "CRYPTOCARD_D7_RS = CRYPTOCARD_D7_RC OR CRYPTOCARD_D7_ES"
definition CRYPTOCARD_DP_RS :: u32 where "CRYPTOCARD_DP_RS = CRYPTOCARD_DP_RC OR CRYPTOCARD_DP_ES"

section \<open>What both modules do with the MAC\<close>

text \<open>
  Steps 3 to 5 of both \<open>response\<close> functions: four octets of the MAC in ASCII, in decimal display
  through the decimal table, then, for a seven digit display, without the fourth character, or, in
  phone format, with a dash in its place.
\<close>

definition x99_display :: "u32 \<Rightarrow> u32 \<Rightarrow> u32 \<Rightarrow> byte list \<Rightarrow> string" where
  "x99_display fm dd ph output =
     (let conversion = (if cf_has fm dd then x2a_cc_dec_conversion else x2a_hex_conversion);
          response = x2a output 4 conversion
      in if cf_len fm = 7 then take 3 response @ drop 4 response
         else if cf_has fm ph then response[3 := CHR ''-'']
         else response)"

section \<open>x99.c\<close>

definition x99_cards :: "(string \<times> u32) list" where
  "x99_cards = [(''x99-h8'', X99_H8), (''x99-h7'', X99_H7), (''x99-d8'', X99_D8), (''x99-d7'', X99_D7)]"

definition x99_name2fm :: "user_t \<Rightarrow> state_t \<Rightarrow> user_t cres" where
  "x99_name2fm user state = name2fm_tbl x99_cards user"

definition x99_keystring2key :: "user_t \<Rightarrow> state_t \<Rightarrow> (user_t \<times> state_t \<times> nat) cres" where
  "x99_keystring2key user state =
     (if length (u_keystring user) \<noteq> 16 then CErr (-1)
      else case a2nx (u_keystring user) 8 of
        None \<Rightarrow> CErr (-1)
      | Some key \<Rightarrow> COk (user\<lparr>u_key := key\<rparr>, state, 8))"

definition x99_nullstate :: "config_t \<Rightarrow> user_t \<Rightarrow> state_t \<Rightarrow> int \<Rightarrow> state_t cres" where
  "x99_nullstate config user state when = COk state"

definition x99_challenge ::
  "user_t \<Rightarrow> state_t \<Rightarrow> byte list \<Rightarrow> int \<Rightarrow> int \<Rightarrow> int \<Rightarrow> (state_t \<times> byte list) cres" where
  "x99_challenge user state challenge when twin ewin = CErr (-1)"

definition x99_response :: "crypto \<Rightarrow> user_t \<Rightarrow> state_t \<Rightarrow> byte list \<Rightarrow> nat \<Rightarrow> int \<Rightarrow> string cres" where
  "x99_response cr user state challenge len now =
     (case x99_mac cr challenge len (u_key user) of
        COk output \<Rightarrow> COk (x99_display (u_featuremask user) X99_CF_DD X99_CF_PH output)
      | CErr e \<Rightarrow> CErr 1
      | CFault \<Rightarrow> CFault)"

definition x99_updatecsd :: "state_t \<Rightarrow> int \<Rightarrow> int \<Rightarrow> int \<Rightarrow> otp_rc \<Rightarrow> state_t cres" where
  "x99_updatecsd state when twin ewin auth_rc = CErr (-1)"

definition x99_isconsecutive :: "user_t \<Rightarrow> state_t \<Rightarrow> int \<Rightarrow> bool" where
  "x99_isconsecutive user state thisewin = False"

definition x99_maxtwin :: "user_t \<Rightarrow> state_t \<Rightarrow> int \<Rightarrow> int" where
  "x99_maxtwin user state when = 0"

definition x99_printchallenge :: "byte list \<Rightarrow> nat \<Rightarrow> string" where
  "x99_printchallenge challenge len = x2a challenge len x2a_hex_conversion"

definition x99_cardops :: "crypto \<Rightarrow> cardops_t" where
  "x99_cardops cr = \<lparr>co_prefix = ''x99'', co_plen = 3,
     co_name2fm = x99_name2fm, co_keystring2key = x99_keystring2key, co_nullstate = x99_nullstate,
     co_challenge = x99_challenge, co_response = x99_response cr, co_updatecsd = x99_updatecsd,
     co_isconsecutive = x99_isconsecutive, co_maxtwin = x99_maxtwin,
     co_printchallenge = x99_printchallenge\<rparr>"

section \<open>cryptocard.c\<close>

definition cryptocard_cards :: "(string \<times> u32) list" where
  "cryptocard_cards = [
     (''cryptocard-h8-rc'', CRYPTOCARD_H8_RC),
     (''cryptocard-d8-rc'', CRYPTOCARD_D8_RC),
     (''cryptocard-h7-rc'', CRYPTOCARD_H7_RC),
     (''cryptocard-d7-rc'', CRYPTOCARD_D7_RC),
     (''cryptocard-hp-rc'', CRYPTOCARD_HP_RC),
     (''cryptocard-dp-rc'', CRYPTOCARD_DP_RC),
     (''cryptocard-h8-es'', CRYPTOCARD_H8_ES),
     (''cryptocard-d8-es'', CRYPTOCARD_D8_ES),
     (''cryptocard-h7-es'', CRYPTOCARD_H7_ES),
     (''cryptocard-d7-es'', CRYPTOCARD_D7_ES),
     (''cryptocard-hp-es'', CRYPTOCARD_HP_ES),
     (''cryptocard-dp-es'', CRYPTOCARD_DP_ES),
     (''cryptocard-h8-rs'', CRYPTOCARD_H8_RS),
     (''cryptocard-d8-rs'', CRYPTOCARD_D8_RS),
     (''cryptocard-h7-rs'', CRYPTOCARD_H7_RS),
     (''cryptocard-d7-rs'', CRYPTOCARD_D7_RS),
     (''cryptocard-hp-rs'', CRYPTOCARD_HP_RS),
     (''cryptocard-dp-rs'', CRYPTOCARD_DP_RS)]"

definition cryptocard_name2fm :: "user_t \<Rightarrow> state_t \<Rightarrow> user_t cres" where
  "cryptocard_name2fm user state = name2fm_tbl cryptocard_cards user"

definition cryptocard_keystring2key :: "user_t \<Rightarrow> state_t \<Rightarrow> (user_t \<times> state_t \<times> nat) cres" where
  "cryptocard_keystring2key user state =
     (if length (u_keystring user) \<noteq> 16 then CErr (-1)
      else case a2nx (u_keystring user) 8 of
        None \<Rightarrow> CErr (-1)
      | Some key \<Rightarrow> COk (user\<lparr>u_key := key\<rparr>, state, 8))"

definition cryptocard_nullstate :: "config_t \<Rightarrow> user_t \<Rightarrow> state_t \<Rightarrow> int \<Rightarrow> state_t cres" where
  "cryptocard_nullstate config user state when = CErr (-1)"

text \<open>One octet of the MAC as a digit of the next challenge, then the whole step.\<close>

definition cryptocard_digit :: "byte \<Rightarrow> byte" where
  "cryptocard_digit b =
     (let b = b AND 0x0f; b = (if 9 < b then b - 10 else b) in b OR 0x30)"

definition cryptocard_challenge ::
  "crypto \<Rightarrow> user_t \<Rightarrow> state_t \<Rightarrow> byte list \<Rightarrow> int \<Rightarrow> int \<Rightarrow> int \<Rightarrow> (state_t \<times> byte list) cres" where
  "cryptocard_challenge cr user state challenge when twin ewin =
     (case x99_mac cr challenge (s_clen state) (u_key user) of
        COk output \<Rightarrow> COk (state\<lparr>s_clen := 8\<rparr>,
          memcpy challenge (map (\<lambda>i. cryptocard_digit (output ! i)) [0..<8]) 8)
      | CErr e \<Rightarrow> CErr (-1)
      | CFault \<Rightarrow> CFault)"

definition cryptocard_response :: "crypto \<Rightarrow> user_t \<Rightarrow> state_t \<Rightarrow> byte list \<Rightarrow> nat \<Rightarrow> int \<Rightarrow> string cres" where
  "cryptocard_response cr user state challenge len now =
     (case x99_mac cr challenge len (u_key user) of
        COk output \<Rightarrow> COk (x99_display (u_featuremask user) CRYPTOCARD_CF_DD CRYPTOCARD_CF_PH output)
      | CErr e \<Rightarrow> CErr 1
      | CFault \<Rightarrow> CFault)"

definition cryptocard_updatecsd :: "state_t \<Rightarrow> int \<Rightarrow> int \<Rightarrow> int \<Rightarrow> otp_rc \<Rightarrow> state_t cres" where
  "cryptocard_updatecsd state when twin ewin auth_rc =
     (if auth_rc = OTP_RC_OK then COk (state\<lparr>s_rd := []\<rparr>)
      else COk (state\<lparr>s_rd := fmt_x32 (word_of_int ewin)\<rparr>))"

definition cryptocard_isconsecutive :: "user_t \<Rightarrow> state_t \<Rightarrow> int \<Rightarrow> bool" where
  "cryptocard_isconsecutive user state thisewin =
     (if s_rd state = [] then False
      else case sscanf_x32 (s_rd state) of
        None \<Rightarrow> False
      | Some nextewin \<Rightarrow> thisewin = sint nextewin + 1)"

definition cryptocard_maxtwin :: "user_t \<Rightarrow> state_t \<Rightarrow> int \<Rightarrow> int" where
  "cryptocard_maxtwin user state when = 0"

definition cryptocard_printchallenge :: "byte list \<Rightarrow> nat \<Rightarrow> string" where
  "cryptocard_printchallenge challenge len = chars_of (take len challenge)"

definition cryptocard_cardops :: "crypto \<Rightarrow> cardops_t" where
  "cryptocard_cardops cr = \<lparr>co_prefix = ''cryptocard'', co_plen = 10,
     co_name2fm = cryptocard_name2fm, co_keystring2key = cryptocard_keystring2key, co_nullstate = cryptocard_nullstate,
     co_challenge = cryptocard_challenge cr, co_response = cryptocard_response cr, co_updatecsd = cryptocard_updatecsd,
     co_isconsecutive = cryptocard_isconsecutive, co_maxtwin = cryptocard_maxtwin,
     co_printchallenge = cryptocard_printchallenge\<rparr>"

section \<open>Lemmas\<close>

lemmas cryptocard_fm_defs = CRYPTOCARD_H8_RC_def CRYPTOCARD_H7_RC_def CRYPTOCARD_HP_RC_def CRYPTOCARD_D8_RC_def
  CRYPTOCARD_D7_RC_def CRYPTOCARD_DP_RC_def CRYPTOCARD_H8_ES_def CRYPTOCARD_H7_ES_def
  CRYPTOCARD_HP_ES_def CRYPTOCARD_D8_ES_def CRYPTOCARD_D7_ES_def CRYPTOCARD_DP_ES_def
  CRYPTOCARD_H8_RS_def CRYPTOCARD_H7_RS_def CRYPTOCARD_HP_RS_def CRYPTOCARD_D8_RS_def
  CRYPTOCARD_D7_RS_def CRYPTOCARD_DP_RS_def
  CRYPTOCARD_CF_HD_def CRYPTOCARD_CF_DD_def CRYPTOCARD_CF_PH_def CRYPTOCARD_CF_LEN7_def CRYPTOCARD_CF_LEN8_def

lemmas x99_fm_defs = X99_H8_def X99_H7_def X99_D8_def X99_D7_def X99_CF_HD_def X99_CF_DD_def
  X99_CF_PH_def X99_CF_LEN7_def X99_CF_LEN8_def

lemma x99_fm_cases:
  "fm \<in> snd ` set x99_cards \<Longrightarrow> cf_len fm \<in> {7, 8} \<and> \<not> cf_has fm X99_CF_PH"
  by (auto simp: x99_cards_def x99_fm_defs cf_defs)

lemma cryptocard_fm_cases:
  "fm \<in> snd ` set cryptocard_cards \<Longrightarrow>
     cf_len fm \<in> {7, 8} \<and> (cf_has fm CRYPTOCARD_CF_PH \<longrightarrow> cf_len fm = 8)"
  by (auto simp: cryptocard_cards_def cryptocard_fm_defs cf_defs)

lemma conversion_chars:
  "conv \<in> {x2a_hex_conversion, x2a_cc_dec_conversion} \<Longrightarrow> set (x2a bs n conv) \<subseteq> set conv"
  by (auto dest!: x2a_set simp: x2a_hex_conversion_def x2a_cc_dec_conversion_def)

lemma x99_display_chars:
  "set (x99_display fm dd ph output) \<subseteq>
     insert (CHR ''-'') (set (if cf_has fm dd then x2a_cc_dec_conversion else x2a_hex_conversion))"
proof -
  define conv where "conv = (if cf_has fm dd then x2a_cc_dec_conversion else x2a_hex_conversion)"
  have "set (x2a output 4 conv) \<subseteq> set conv"
    by (rule conversion_chars) (simp add: conv_def)
  then show ?thesis
    unfolding x99_display_def Let_def conv_def [symmetric]
    by (auto dest!: in_set_takeD in_set_dropD dest: set_update_subset_insert [THEN subsetD])
qed

lemma length_x99_display: "length (x99_display fm dd ph output) \<le> 8"
  by (auto simp: x99_display_def Let_def length_x2a)

lemma x99_display_result:
  "length (x99_display fm dd ph output) \<le> OTP_MAX_RESPONSE_LEN \<and> no_nul (x99_display fm dd ph output)"
proof -
  have "NUL \<notin> set x2a_cc_dec_conversion" "NUL \<notin> set x2a_hex_conversion"
    by (simp_all add: x2a_cc_dec_conversion_def x2a_hex_conversion_def)
  then show ?thesis
    using x99_display_chars [of fm dd ph "output"] length_x99_display [of fm dd ph "output"]
    by (auto simp: no_nul_def max_defs split: if_splits)
qed

lemma x99_keystring_result:
  "x99_keystring2key u st = COk (u', st', n) \<Longrightarrow>
     u' = u\<lparr>u_key := u_key u'\<rparr> \<and> st' = st\<lparr>s_scratch1 := s_scratch1 st'\<rparr> \<and> length (u_key u') = n"
  by (auto simp: x99_keystring2key_def length_a2nx split: if_splits option.splits)

lemma x99_key_no_fault: "x99_keystring2key u st \<noteq> CFault"
  by (simp add: x99_keystring2key_def split: option.splits)

lemma cryptocard_keystring2key_eq: "cryptocard_keystring2key = x99_keystring2key"
  by (intro ext) (simp only: cryptocard_keystring2key_def x99_keystring2key_def)

lemma cryptocard_rwindow_eq:
  "cryptocard_updatecsd = hotp_updatecsd" "cryptocard_isconsecutive = hotp_isconsecutive"
  by (intro ext, simp only: cryptocard_updatecsd_def hotp_updatecsd_def)
    (intro ext, simp only: cryptocard_isconsecutive_def hotp_isconsecutive_def)

lemma x99_name2fm_contract:
  "x99_name2fm u st = COk u' \<Longrightarrow>
     u' = u\<lparr>u_featuremask := u_featuremask u'\<rparr> \<and> cf_len (u_featuremask u') \<le> 9"
  unfolding x99_name2fm_def by (frule name2fm_tbl_COk) (use x99_fm_cases in force)

lemma x99_response_result:
  "x99_response cr u st ch len now = COk s \<Longrightarrow> length s \<le> OTP_MAX_RESPONSE_LEN \<and> no_nul s"
  using x99_display_result by (auto simp: x99_response_def split: cres.splits)

lemma x99_ops [simp]:
  "co_prefix (x99_cardops cr) = ''x99''" "co_plen (x99_cardops cr) = 3"
  "co_name2fm (x99_cardops cr) = x99_name2fm" "co_keystring2key (x99_cardops cr) = x99_keystring2key"
  "co_nullstate (x99_cardops cr) = x99_nullstate" "co_challenge (x99_cardops cr) = x99_challenge"
  "co_response (x99_cardops cr) = x99_response cr" "co_updatecsd (x99_cardops cr) = x99_updatecsd"
  "co_isconsecutive (x99_cardops cr) = x99_isconsecutive" "co_maxtwin (x99_cardops cr) = x99_maxtwin"
  by (simp_all add: x99_cardops_def)

interpretation x99: card_module "x99_cardops cr" for cr
  by unfold_locales (unfold x99_ops,
    (erule x99_name2fm_contract x99_keystring_result x99_response_result | rule x99_key_no_fault
     | simp add: x99_name2fm_def x99_nullstate_def x99_updatecsd_def x99_maxtwin_def x99_challenge_def)+)

lemma cryptocard_name2fm_contract:
  "cryptocard_name2fm u st = COk u' \<Longrightarrow>
     u' = u\<lparr>u_featuremask := u_featuremask u'\<rparr> \<and> cf_len (u_featuremask u') \<le> 9"
  unfolding cryptocard_name2fm_def by (frule name2fm_tbl_COk) (use cryptocard_fm_cases in force)

lemma cryptocard_response_result:
  "cryptocard_response cr u st ch len now = COk s \<Longrightarrow> length s \<le> OTP_MAX_RESPONSE_LEN \<and> no_nul s"
  using x99_display_result by (auto simp: cryptocard_response_def split: cres.splits)

lemma cryptocard_ops [simp]:
  "co_prefix (cryptocard_cardops cr) = ''cryptocard''" "co_plen (cryptocard_cardops cr) = 10"
  "co_name2fm (cryptocard_cardops cr) = cryptocard_name2fm" "co_keystring2key (cryptocard_cardops cr) = cryptocard_keystring2key"
  "co_nullstate (cryptocard_cardops cr) = cryptocard_nullstate" "co_challenge (cryptocard_cardops cr) = cryptocard_challenge cr"
  "co_response (cryptocard_cardops cr) = cryptocard_response cr" "co_updatecsd (cryptocard_cardops cr) = cryptocard_updatecsd"
  "co_isconsecutive (cryptocard_cardops cr) = cryptocard_isconsecutive" "co_maxtwin (cryptocard_cardops cr) = cryptocard_maxtwin"
  by (simp_all add: cryptocard_cardops_def)

lemma cryptocard_challenge_result:
  "cryptocard_challenge cr u st ch now t e = COk (st', ch') \<Longrightarrow> length ch = OTP_MAX_CHALLENGE_LEN \<Longrightarrow>
   s_clen st \<le> OTP_MAX_CHALLENGE_LEN \<Longrightarrow>
   st' = st\<lparr>s_clen := s_clen st'\<rparr> \<and> s_clen st' \<le> OTP_MAX_CHALLENGE_LEN \<and> length ch' = OTP_MAX_CHALLENGE_LEN"
  by (auto simp: cryptocard_challenge_def max_defs split: cres.splits)

interpretation cryptocard: card_module "cryptocard_cardops cr" for cr
  by unfold_locales (unfold cryptocard_ops cryptocard_keystring2key_eq cryptocard_rwindow_eq,
    (erule cryptocard_name2fm_contract x99_keystring_result cryptocard_response_result hotp_updatecsd_result
     | (erule cryptocard_challenge_result, assumption, assumption) | rule x99_key_no_fault
     | simp add: cryptocard_name2fm_def cryptocard_nullstate_def hotp_updatecsd_def cryptocard_maxtwin_def)+)

lemma cryptocard_digit_range: "cryptocard_digit b \<in> byte_of ` set ''0123456789''"
proof -
  have "\<forall>n \<in> set [0..<256]. cryptocard_digit (word_of_nat n) \<in> set (map byte_of ''0123456789'')"
    by code_simp
  then have "\<forall>n<256. cryptocard_digit (word_of_nat n) \<in> byte_of ` set ''0123456789''"
    by simp
  from this [rule_format, OF unat_byte_lt [of b]] show ?thesis by simp
qed

section \<open>Properties\<close>

text \<open>
  The next CRYPTOCard challenge is eight ASCII digits. Whatever cipherblock the DES library
  produces, the challenge written over the previous one consists of decimal digits, the rest of the
  buffer is unchanged and the length becomes 8.
\<close>

theorem cryptocard_challenge_digits:
  assumes "cryptocard_challenge cr user st ch now t e = COk (st', ch')" and "8 \<le> length ch"
  shows "set (take 8 ch') \<subseteq> byte_of ` set ''0123456789'' \<and> drop 8 ch' = drop 8 ch \<and> st' = st\<lparr>s_clen := 8\<rparr>"
proof -
  obtain mac where
    out: "ch' = memcpy ch (map (\<lambda>i. cryptocard_digit (mac ! i)) [0..<8]) 8" "st' = st\<lparr>s_clen := 8\<rparr>"
    using assms(1) by (auto simp: cryptocard_challenge_def split: cres.splits)
  then have "take 8 ch' = map (\<lambda>i. cryptocard_digit (mac ! i)) [0..<8]" by simp
  then show ?thesis
    using out cryptocard_digit_range by (auto simp: memcpy_def)
qed

theorem cryptocard_challenge_digits_witness:
  "cryptocard_challenge sample_crypto (sample_user\<lparr>u_featuremask := CRYPTOCARD_DP_RS\<rparr>) (state_zero\<lparr>s_clen := 8\<rparr>) (replicate 16 0x31) 0 0 0
     = COk (state_zero\<lparr>s_clen := 8\<rparr>, replicate 8 0x34 @ replicate 8 0x31)
   \<and> set (take 8 (replicate 8 0x34 @ replicate 8 (0x31 :: byte))) \<subseteq> byte_of ` set ''0123456789''"
proof -
  have "cryptocard_challenge sample_crypto (sample_user\<lparr>u_featuremask := CRYPTOCARD_DP_RS\<rparr>) (state_zero\<lparr>s_clen := 8\<rparr>) (replicate 16 0x31) 0 0 0
     = COk (state_zero\<lparr>s_clen := 8\<rparr>, replicate 8 0x34 @ replicate 8 0x31)"
    by code_simp
  from this cryptocard_challenge_digits [OF this] show ?thesis by simp
qed

text \<open>
  The displayed response. For every CRYPTOCard card type the response to a challenge of one to
  sixteen octets has exactly the number of characters the feature mask announces; in phone format
  its fourth character is the dash; every other character is a digit of the display's alphabet.
\<close>

theorem cryptocard_response_format:
  assumes "u_featuremask user \<in> snd ` set cryptocard_cards"
    and "\<And>k m. length (des_cbc_encrypt cr k m) = 8 * ((length m + 7) div 8)"
    and "des_set_key_checked cr (take 8 (u_key user)) = 0"
    and "0 < len" and "len \<le> length ch" and "len \<le> OTP_MAX_CHALLENGE_LEN"
  shows "\<exists>s. cryptocard_response cr user st ch len now = COk s \<and> length s = cf_len (u_featuremask user)
    \<and> (cf_has (u_featuremask user) CRYPTOCARD_CF_PH \<longrightarrow> s ! 3 = CHR ''-'')
    \<and> set s - {CHR ''-''} \<subseteq>
        set (if cf_has (u_featuremask user) CRYPTOCARD_CF_DD then x2a_cc_dec_conversion else x2a_hex_conversion)"
proof -
  define mac where
    "mac = take 8 (drop (8 * ((len - 1) div 8)) (des_cbc_encrypt cr (take 8 (u_key user)) (take len ch)))"
  have "len + 7 = len - 1 + 8" using assms(4) by simp
  then have "(len + 7) div 8 = (len - 1) div 8 + 1" by simp
  then have len8: "length mac = 8" using assms(2,5) by (simp add: mac_def)
  have resp: "cryptocard_response cr user st ch len now =
      COk (x99_display (u_featuremask user) CRYPTOCARD_CF_DD CRYPTOCARD_CF_PH mac)"
    using assms(3,4,6) by (simp add: cryptocard_response_def x99_mac_def mac_def max_defs)
  have x2a8: "length (x2a mac 4 conv) = 8" for conv
    using len8 by (simp add: length_x2a)
  define s where "s = x99_display (u_featuremask user) CRYPTOCARD_CF_DD CRYPTOCARD_CF_PH mac"
  have "length s = cf_len (u_featuremask user)"
    "cf_has (u_featuremask user) CRYPTOCARD_CF_PH \<longrightarrow> s ! 3 = CHR ''-''"
    using cryptocard_fm_cases [OF assms(1)] by (auto simp: s_def x99_display_def Let_def x2a8)
  then show ?thesis
    using resp x99_display_chars [of "u_featuremask user" CRYPTOCARD_CF_DD CRYPTOCARD_CF_PH mac]
    unfolding s_def [symmetric] by blast
qed

theorem cryptocard_response_format_witness:
  "\<exists>s. cryptocard_response sample_crypto (sample_user\<lparr>u_featuremask := CRYPTOCARD_DP_RS\<rparr>) state_zero (replicate 16 0x31) 8 0 = COk s
     \<and> length s = 8 \<and> s ! 3 = CHR ''-''"
proof -
  have fm: "CRYPTOCARD_DP_RS \<in> snd ` set cryptocard_cards" by (simp add: cryptocard_cards_def)
  have ph: "cf_len CRYPTOCARD_DP_RS = 8" "cf_has CRYPTOCARD_DP_RS CRYPTOCARD_CF_PH"
    by (simp_all add: cryptocard_fm_defs cf_defs)
  show ?thesis
    using cryptocard_response_format [of "sample_user\<lparr>u_featuremask := CRYPTOCARD_DP_RS\<rparr>" sample_crypto 8 "replicate 16 0x31" state_zero 0] fm ph
    by (auto simp: sample_user_def sample_crypto_def max_defs)
qed

end
