(* ===== verification/Otpd_Verify.thy ===== *)
theory Otpd_Verify
  imports Otpd_State Otpd_Compare Otpd_Userops_File Otpd_Card_Time Otpd_Card_X99
begin

text \<open>
  The passcode verification, \<open>verify\<close> of \<^verbatim>\<open>src/otp.c\<close>, stage by stage in the order of the code.

  A stage maps the local variables to a \<open>vres\<close>: \<open>VNext\<close> goes on with the next stage, and \<open>VDone\<close>, \<open>VErr\<close>
  and \<open>VErrTimeout\<close> are the jumps to the labels \<open>auth_done\<close>, \<open>auth_done_service_err\<close> and
  \<open>auth_done_service_err_timeout\<close> with the value of \<open>rc\<close>. The readings of the clocks during one call are
  the record \<open>clock_t\<close>; the card modules, the user database, the cryptographic library and the
  environment of the state manager are arguments.
\<close>

section \<open>Definitions\<close>

text \<open>
  \<open>k_now\<close> is \<open>time(NULL)\<close> at the start, \<open>k_hr0\<close> to \<open>k_hr3\<close> the four readings of \<open>xgethrtime\<close>;
  \<open>k_async\<close> and \<open>k_sync t e\<close> are the time during the calls of the card's \<open>response\<close>.
\<close>

record clock_t =
  k_now :: int
  k_hr0 :: int
  k_hr1 :: int
  k_hr2 :: int
  k_hr3 :: int
  k_async :: int
  k_sync :: "int \<Rightarrow> int \<Rightarrow> int"

record vars_t =
  v_user :: user_t
  v_state :: state_t
  v_challenge :: "byte list"
  v_e_response :: string
  v_pin_len :: nat
  v_resync :: bool
  v_timeout :: int
  v_hrlast :: int

datatype 'a vres = VNext 'a | VDone otp_rc vars_t | VErr otp_rc vars_t | VErrTimeout otp_rc vars_t | VFault

fun vbind :: "'a vres \<Rightarrow> ('a \<Rightarrow> 'b vres) \<Rightarrow> 'b vres" where
  "vbind (VNext x) f = f x"
| "vbind (VDone rc v) f = VDone rc v"
| "vbind (VErr rc v) f = VErr rc v"
| "vbind (VErrTimeout rc v) f = VErrTimeout rc v"
| "vbind VFault f = VFault"

datatype failcondition = OTP_FC_FAIL_NONE | OTP_FC_FAIL_HARD | OTP_FC_FAIL_SOFT

subsection \<open>Before the state is read\<close>

text \<open>The search for the card module.\<close>

definition find_cardops :: "cardops_t list \<Rightarrow> string \<Rightarrow> cardops_t option" where
  "find_cardops cardops cname = find (\<lambda>co. strncaseeq (co_prefix co) cname (co_plen co)) cardops"

text \<open>
  The static password override; \<open>VNext ()\<close> when the user has none. Both \<open>strncmp\<close> tests are taken when
  the prefix does \<^emph>\<open>not\<close> match. Outside PAP the member \<open>pap.passcode\<close> is the string the bytes of the union
  hold.
\<close>

definition static_password :: "crypto \<Rightarrow> otp_request_t \<Rightarrow> vars_t \<Rightarrow> unit vres" where
  "static_password cr request v = (case u_password (v_user v) of
     None \<Rightarrow> VNext ()
   | Some password \<Rightarrow>
       if password \<noteq> [] \<and> password ! 0 = CHR ''{'' \<and> r_pwe request \<noteq> PWE_PAP then VErr OTP_RC_SERVICE_ERR v
       else
         let nmatch =
           (if \<not> strneq password ''{MD5'' 4
            then COk (take 16 (u_password_hash (v_user v)) = md5 cr (bytes_of (r_passcode request)))
            else if \<not> strneq password ''{SHA'' 4
            then COk (take 20 (u_password_hash (v_user v)) = sha1 cr (bytes_of (r_passcode request)))
            else compare cr request password)
         in case nmatch of
              COk True \<Rightarrow> VErr OTP_RC_OK v
            | COk False \<Rightarrow> VErr OTP_RC_AUTH_ERR v
            | _ \<Rightarrow> VFault)"

text \<open>Feature mask and key.\<close>

definition card_setup :: "cardops_t \<Rightarrow> vars_t \<Rightarrow> vars_t vres" where
  "card_setup co v = (case co_name2fm co (v_user v) (v_state v) of
     COk user \<Rightarrow>
       (case co_keystring2key co user (v_state v) of
          COk (user, state, _) \<Rightarrow> VNext (v\<lparr>v_user := user, v_state := state\<rparr>)
        | CErr _ \<Rightarrow> VErr OTP_RC_SERVICE_ERR (v\<lparr>v_user := user\<rparr>)
        | CFault \<Rightarrow> VFault)
   | CErr _ \<Rightarrow> VErr OTP_RC_SERVICE_ERR v
   | CFault \<Rightarrow> VFault)"

text \<open>
  The PIN. Where \<open>a2x\<close> returns -1, or more octets than \<open>pin[]\<close> holds, the terminator is written
  outside the array.
\<close>

definition pin_setup :: "vars_t \<Rightarrow> vars_t vres" where
  "pin_setup v = (case a2x (u_pinstring (v_user v)) of
     None \<Rightarrow> VFault
   | Some pin \<Rightarrow> if OTP_MAX_PIN_LEN < length pin then VFault
       else VNext (v\<lparr>v_user := (v_user v)\<lparr>u_pin := chars_of pin\<rparr>, v_pin_len := length pin\<rparr>))"

text \<open>Decryption of key and PIN, for each encryption mode.\<close>

definition decrypt_by_pin :: "crypto \<Rightarrow> config_t \<Rightarrow> otp_request_t \<Rightarrow> vars_t \<Rightarrow> vars_t vres" where
  "decrypt_by_pin cr config request v =
     (let user = v_user v; otp_len = cf_len (u_featuremask user); passcode = r_passcode request in
      if r_pwe request \<noteq> PWE_PAP then VErr OTP_RC_SERVICE_ERR v
      else if v_pin_len v \<noteq> 0 then VErr OTP_RC_SERVICE_ERR v
      else if length passcode < otp_len then VDone OTP_RC_AUTH_ERR v
      else
        let pin_len = length passcode - otp_len in
        if OTP_MAX_PIN_LEN < pin_len then VDone OTP_RC_AUTH_ERR (v\<lparr>v_pin_len := pin_len\<rparr>)
        else
          let pin = (if c_prepend_pin config then take pin_len passcode else drop otp_len passcode);
              key = (if u_encryptmode user = EMODE_PINMD5
                     then decrypt (u_key user) (md5 cr (bytes_of pin))
                     else decrypt (u_key user) (bytes_of pin))
          in VNext (v\<lparr>v_user := user\<lparr>u_pin := pin, u_key := key\<rparr>, v_pin_len := pin_len\<rparr>))"

definition decrypt_by_key :: "config_t \<Rightarrow> vars_t \<Rightarrow> vars_t vres" where
  "decrypt_by_key config v =
     (let user = v_user v in
      case c_key config (u_keyid user) of
        None \<Rightarrow> VFault
      | Some k \<Rightarrow> VNext (v\<lparr>v_user := user\<lparr>u_key := decrypt (u_key user) k,
                              u_pin := chars_of (decrypt (bytes_of (u_pin user)) k)\<rparr>\<rparr>))"

definition decrypt_setup :: "crypto \<Rightarrow> config_t \<Rightarrow> otp_request_t \<Rightarrow> vars_t \<Rightarrow> vars_t vres" where
  "decrypt_setup cr config request v = (case u_encryptmode (v_user v) of
     EMODE_PIN \<Rightarrow> decrypt_by_pin cr config request v
   | EMODE_PINMD5 \<Rightarrow> decrypt_by_pin cr config request v
   | EMODE_KEYID \<Rightarrow> decrypt_by_key config v
   | EMODE_CLEAR \<Rightarrow> VNext v)"

text \<open>The early exit for a passcode of the wrong length.\<close>

definition length_check :: "otp_request_t \<Rightarrow> vars_t \<Rightarrow> vars_t vres" where
  "length_check request v =
     (let user = v_user v in
      if u_encryptmode user \<noteq> EMODE_PIN \<and> u_encryptmode user \<noteq> EMODE_PINMD5 \<and> r_pwe request = PWE_PAP
         \<and> cf_len (u_featuremask user) + v_pin_len v \<noteq> length (r_passcode request)
      then VDone OTP_RC_AUTH_ERR v else VNext v)"

definition verify_prepare :: "crypto \<Rightarrow> config_t \<Rightarrow> otp_request_t \<Rightarrow> cardops_t \<Rightarrow> vars_t \<Rightarrow> vars_t vres" where
  "verify_prepare cr config request co v =
     vbind (static_password cr request v) (\<lambda>_.
     vbind (card_setup co v) (\<lambda>v.
     vbind (pin_setup v) (\<lambda>v.
     vbind (decrypt_setup cr config request v) (\<lambda>v. length_check request v))))"

subsection \<open>Reading the state\<close>

text \<open>
  \<open>config->timeout\<close> is charged with the time since the last reading.
\<close>

definition charge :: "int \<Rightarrow> vars_t \<Rightarrow> vars_t" where
  "charge hr v = v\<lparr>v_timeout := v_timeout v - (hr - v_hrlast v), v_hrlast := hr\<rparr>"

text \<open>A negative \<open>authtime\<close> marks a null state without a successful authentication since.\<close>

definition state_setup :: "config_t \<Rightarrow> clock_t \<Rightarrow> cardops_t \<Rightarrow> vars_t \<Rightarrow> vars_t vres" where
  "state_setup config clk co v =
     (let state = v_state v in
      if s_nullstate state
      then case co_nullstate co config (v_user v) state (k_now clk) of
             COk state \<Rightarrow> VNext (v\<lparr>v_state := state\<rparr>)
           | CErr _ \<Rightarrow> VErr OTP_RC_SERVICE_ERR v
           | CFault \<Rightarrow> VFault
      else if sint (s_authtime state) < 0
      then VNext (v\<lparr>v_state := state\<lparr>s_authtime := - s_authtime state, s_nullstate := True\<rparr>\<rparr>)
      else VNext v)"

definition put_timeout_check :: "clock_t \<Rightarrow> vars_t \<Rightarrow> vars_t vres" where
  "put_timeout_check clk v =
     (let v = charge (k_hr2 clk) v in
      if v_timeout v < 250000000 then VErrTimeout OTP_RC_SERVICE_ERR (v\<lparr>v_timeout := 250000000\<rparr>) else VNext v)"

subsection \<open>The failure condition\<close>

text \<open>
  \<open>fcount\<close> is an \<open>int\<close>; a shift by a negative count has no defined result, and \<open>None\<close> stands for it.
\<close>

definition softfail_nextauth :: "u32 \<Rightarrow> state_t \<Rightarrow> u32 option" where
  "softfail_nextauth softfail state =
     (let fcount = sint (s_failcount state - softfail) in
      if fcount < 0 then None
      else Some (s_authtime state + (if 5 < fcount then push_bit 6 32 else push_bit 6 (push_bit (nat fcount) 1))))"

definition failcondition_of :: "config_t \<Rightarrow> clock_t \<Rightarrow> state_t \<Rightarrow> failcondition option" where
  "failcondition_of config clk state =
     (if c_hardfail config \<noteq> 0 \<and> c_hardfail config \<le> s_failcount state then Some OTP_FC_FAIL_HARD
      else if c_softfail config \<noteq> 0 \<and> s_nullstate state then Some OTP_FC_FAIL_SOFT
      else if c_softfail config \<noteq> 0 \<and> c_softfail config \<le> s_failcount state
      then map_option (\<lambda>nextauth. if (word_of_int (k_now clk) :: u32) < nextauth then OTP_FC_FAIL_SOFT else OTP_FC_FAIL_NONE)
             (softfail_nextauth (c_softfail config) state)
      else Some OTP_FC_FAIL_NONE)"

subsection \<open>Testing the passcode\<close>

text \<open>The expected passcode: the response with the PIN before or after it.\<close>

definition expected :: "config_t \<Rightarrow> user_t \<Rightarrow> string \<Rightarrow> string" where
  "expected config user response =
     (if c_prepend_pin config then cstr (u_pin user) @ response else response @ cstr (u_pin user))"

text \<open>The result of a matching asynchronous response.\<close>

definition async_rc :: "clock_t \<Rightarrow> otp_request_t \<Rightarrow> failcondition \<Rightarrow> state_t \<Rightarrow> otp_rc" where
  "async_rc clk request fc state =
     (if fc = OTP_FC_FAIL_HARD then OTP_RC_MAXTRIES
      else if fc = OTP_FC_FAIL_SOFT then OTP_RC_MAXTRIES
      else if r_challenge_delay request \<noteq> 0
        \<and> word_of_int (k_now clk) - s_authtime state < r_challenge_delay request then OTP_RC_MAXTRIES
      else OTP_RC_OK)"

text \<open>The response to the challenge in \<open>v_challenge\<close> and its comparison.\<close>

definition async_response :: "crypto \<Rightarrow> config_t \<Rightarrow> otp_request_t \<Rightarrow> clock_t \<Rightarrow> cardops_t \<Rightarrow> failcondition \<Rightarrow> nat \<Rightarrow> vars_t \<Rightarrow> vars_t vres" where
  "async_response cr config request clk co fc clen v =
     (case co_response co (v_user v) (v_state v) (v_challenge v) clen (k_async clk) of
        COk response \<Rightarrow>
          let v = v\<lparr>v_e_response := expected config (v_user v) response\<rparr> in
          (case compare cr request (v_e_response v) of
             COk True \<Rightarrow> VDone (async_rc clk request fc (v_state v)) v
           | COk False \<Rightarrow> VNext v
           | _ \<Rightarrow> VFault)
      | CErr _ \<Rightarrow> VErr OTP_RC_SERVICE_ERR v
      | CFault \<Rightarrow> VFault)"

definition async_test :: "crypto \<Rightarrow> config_t \<Rightarrow> otp_request_t \<Rightarrow> clock_t \<Rightarrow> cardops_t \<Rightarrow> failcondition \<Rightarrow> vars_t \<Rightarrow> vars_t vres" where
  "async_test cr config request clk co fc v =
     (let clen = length (r_challenge request) in
      if OTP_MAX_CHALLENGE_LEN < clen then VFault
      else
        let challenge = memcpy (v_challenge v) (bytes_of (r_challenge request)) clen in
        if clen \<noteq> 0 \<and> cf_has (u_featuremask (v_user v)) OTP_CF_AM \<and> r_allow_async request
        then case (if c_site_transform config then challenge_transform (r_username request) challenge clen
                   else COk (challenge, clen)) of
               COk (challenge, clen) \<Rightarrow> async_response cr config request clk co fc clen (v\<lparr>v_challenge := challenge\<rparr>)
             | _ \<Rightarrow> VFault
        else VNext (v\<lparr>v_challenge := challenge\<rparr>))"

text \<open>The end of the event window.\<close>

definition sync_eend :: "config_t \<Rightarrow> user_t \<Rightarrow> int" where
  "sync_eend config user =
     (if cf_has (u_featuremask user) OTP_CF_FRW then int (cf_frw (u_featuremask user))
      else if cf_has (u_featuremask user) OTP_CF_ES
      then (if u_rwindow_size user \<noteq> 0 then sint (u_rwindow_size user)
            else if c_rwindow_size config \<noteq> 0 then sint (c_rwindow_size config)
            else sint (c_ewindow_size config))
      else 0)"

text \<open>The positions of the window in the order of the two loops.\<close>

definition window :: "int \<Rightarrow> int \<Rightarrow> (int \<times> int) list" where
  "window tend eend = concat (map (\<lambda>t. map (\<lambda>e. (t, e)) [0..eend]) [0..tend])"

text \<open>The result of a matching synchronous response at event position \<open>e\<close>.\<close>

definition sync_rc :: "config_t \<Rightarrow> clock_t \<Rightarrow> cardops_t \<Rightarrow> failcondition \<Rightarrow> user_t \<Rightarrow> state_t \<Rightarrow> int \<Rightarrow> otp_rc" where
  "sync_rc config clk co fc user state e =
     (if fc = OTP_FC_FAIL_HARD then OTP_RC_MAXTRIES
      else if co_isconsecutive co user state e
      then (if word_of_int (k_now clk) \<le> s_authtime state then OTP_RC_NEXTPASSCODE else OTP_RC_OK)
      else if fc = OTP_FC_FAIL_SOFT then OTP_RC_NEXTPASSCODE
      else if \<not> cf_has (u_featuremask user) OTP_CF_FRW \<and> sint (c_ewindow_size config) < e then OTP_RC_NEXTPASSCODE
      else OTP_RC_OK)"

definition sync_match :: "config_t \<Rightarrow> clock_t \<Rightarrow> cardops_t \<Rightarrow> failcondition \<Rightarrow> int \<Rightarrow> int \<Rightarrow> vars_t \<Rightarrow> vars_t vres" where
  "sync_match config clk co fc t e v =
     (let rc = sync_rc config clk co fc (v_user v) (v_state v) e; v = v\<lparr>v_resync := True\<rparr> in
      case co_updatecsd co (v_state v) (k_now clk) t e rc of
        COk state \<Rightarrow> VDone rc (v\<lparr>v_state := state\<rparr>)
      | CErr _ \<Rightarrow> VErr OTP_RC_SERVICE_ERR v
      | CFault \<Rightarrow> VFault)"

text \<open>
  The loop over the window. The card modules return -1 or -2 from \<open>challenge\<close> when they fail, and -2
  skips the position.
\<close>

fun sync_loop :: "crypto \<Rightarrow> config_t \<Rightarrow> otp_request_t \<Rightarrow> clock_t \<Rightarrow> cardops_t \<Rightarrow> failcondition \<Rightarrow> (int \<times> int) list \<Rightarrow> vars_t \<Rightarrow> vars_t vres" where
  "sync_loop cr config request clk co fc [] v = VNext v"
| "sync_loop cr config request clk co fc ((t, e) # ps) v =
     (case co_challenge co (v_user v) (v_state v) (v_challenge v) (k_now clk) t e of
        COk (state, challenge) \<Rightarrow>
          let v = v\<lparr>v_state := state, v_challenge := challenge\<rparr> in
          (case co_response co (v_user v) state challenge (s_clen state) (k_sync clk t e) of
             COk response \<Rightarrow>
               let v = v\<lparr>v_e_response := expected config (v_user v) response\<rparr> in
               (case compare cr request (v_e_response v) of
                  COk True \<Rightarrow> sync_match config clk co fc t e v
                | COk False \<Rightarrow> sync_loop cr config request clk co fc ps v
                | _ \<Rightarrow> VFault)
           | CErr _ \<Rightarrow> VErr OTP_RC_SERVICE_ERR v
           | CFault \<Rightarrow> VFault)
      | CErr n \<Rightarrow> if n = - 2 then sync_loop cr config request clk co fc ps v else VErr OTP_RC_SERVICE_ERR v
      | CFault \<Rightarrow> VFault)"

definition sync_test :: "crypto \<Rightarrow> config_t \<Rightarrow> otp_request_t \<Rightarrow> clock_t \<Rightarrow> cardops_t \<Rightarrow> failcondition \<Rightarrow> vars_t \<Rightarrow> vars_t vres" where
  "sync_test cr config request clk co fc v =
     (if cf_has (u_featuremask (v_user v)) OTP_CF_SM \<and> r_allow_sync request
      then let v = v\<lparr>v_challenge := memcpy (v_challenge v) (s_challenge (v_state v)) (s_clen (v_state v))\<rparr>;
               tend = co_maxtwin co (v_user v) (v_state v) (k_now clk)
           in if tend < 0 then VErr OTP_RC_SERVICE_ERR v
              else sync_loop cr config request clk co fc (window tend (sync_eend config (v_user v))) v
      else VNext v)"

definition passcode_test :: "crypto \<Rightarrow> config_t \<Rightarrow> otp_request_t \<Rightarrow> clock_t \<Rightarrow> cardops_t \<Rightarrow> vars_t \<Rightarrow> vars_t vres" where
  "passcode_test cr config request clk co v =
     (case failcondition_of config clk (v_state v) of
        None \<Rightarrow> VFault
      | Some fc \<Rightarrow>
          vbind (async_test cr config request clk co fc v) (\<lambda>v.
          vbind (sync_test cr config request clk co fc v) (\<lambda>v. VDone OTP_RC_AUTH_ERR v)))"

text \<open>Everything between \<open>state_get\<close> and the label \<open>auth_done\<close>.\<close>

definition verify_state :: "crypto \<Rightarrow> config_t \<Rightarrow> otp_request_t \<Rightarrow> clock_t \<Rightarrow> cardops_t \<Rightarrow> vars_t \<Rightarrow> vars_t vres" where
  "verify_state cr config request clk co v =
     vbind (state_setup config clk co v) (\<lambda>v.
     vbind (put_timeout_check clk v) (\<lambda>v. passcode_test cr config request clk co v))"

subsection \<open>The exits\<close>

definition UINT_MAX :: u32 where "UINT_MAX = - 1"

definition auth_ok :: "clock_t \<Rightarrow> vars_t \<Rightarrow> state_t" where
  "auth_ok clk v =
     (let state = v_state v;
          state = (if v_resync v then state\<lparr>s_challenge := memcpy (s_challenge state) (v_challenge v) (s_clen state)\<rparr>
                   else state)
      in state\<lparr>s_failcount := 0, s_authtime := word_of_int (k_now clk), s_updated := True\<rparr>)"

definition auth_failed :: "clock_t \<Rightarrow> vars_t \<Rightarrow> state_t" where
  "auth_failed clk v =
     (let state = v_state v;
          failcount = s_failcount state + 1;
          failcount = (if failcount = UINT_MAX then failcount - 1 else failcount)
      in state\<lparr>s_failcount := failcount,
               s_authtime := (if s_nullstate state then - word_of_int (k_now clk) else word_of_int (k_now clk)),
               s_updated := True\<rparr>)"

text \<open>\<open>auth_done\<close>: the reply carries the passcode when the authentication succeeded.\<close>

definition auth_done :: "clock_t \<Rightarrow> otp_rc \<Rightarrow> vars_t \<Rightarrow> otp_reply_t \<Rightarrow> vars_t \<times> otp_reply_t" where
  "auth_done clk rc v reply =
     (if rc = OTP_RC_OK then (v\<lparr>v_state := auth_ok clk v\<rparr>, reply\<lparr>y_passcode := v_e_response v\<rparr>)
      else (v\<lparr>v_state := auth_failed clk v\<rparr>, reply))"

definition verify_put :: "env_t \<Rightarrow> config_t \<Rightarrow> otp_rc \<Rightarrow> vars_t \<Rightarrow> world_t \<Rightarrow> (otp_rc \<times> world_t) cres" where
  "verify_put env config rc v w =
     cbind (state_put env (config\<lparr>c_timeout := v_timeout v\<rparr>) (v_user v) (v_state v) w) (\<lambda>(ok, _, w).
       COk (if ok then rc else OTP_RC_SERVICE_ERR, w))"

text \<open>\<open>auth_done_service_err\<close>: the state is released if it is locked.\<close>

definition auth_done_service_err :: "env_t \<Rightarrow> config_t \<Rightarrow> clock_t \<Rightarrow> otp_rc \<Rightarrow> vars_t \<Rightarrow> world_t \<Rightarrow> (otp_rc \<times> world_t) cres" where
  "auth_done_service_err env config clk rc v w =
     (if s_locked (v_state v)
      then let v = charge (k_hr3 clk) v in verify_put env config rc (v\<lparr>v_timeout := max 250000000 (v_timeout v)\<rparr>) w
      else COk (rc, w))"

text \<open>From a label to the end of the function; \<open>VNext\<close> does not occur here.\<close>

definition verify_exit :: "userops_t \<Rightarrow> env_t \<Rightarrow> config_t \<Rightarrow> clock_t \<Rightarrow> otp_reply_t \<Rightarrow> vars_t vres \<Rightarrow> world_t \<Rightarrow> (otp_reply_t \<times> world_t) cres" where
  "verify_exit uo env config clk reply r w =
     (let finish = (\<lambda>v reply m. cbind m (\<lambda>(rc, w). cbind (uo_put uo (Some (v_user v))) (\<lambda>_. COk (reply\<lparr>y_rc := rc\<rparr>, w)))) in
      case r of
        VDone rc v \<Rightarrow> (case auth_done clk rc v reply of
          (v, reply) \<Rightarrow> finish v reply (auth_done_service_err env config clk rc v w))
      | VErr rc v \<Rightarrow> finish v reply (auth_done_service_err env config clk rc v w)
      | VErrTimeout rc v \<Rightarrow> finish v reply (verify_put env config rc v w)
      | VNext _ \<Rightarrow> CFault
      | VFault \<Rightarrow> CFault)"

text \<open>The exits before there is a user.\<close>

definition verify_no_user :: "userops_t \<Rightarrow> otp_rc \<Rightarrow> otp_reply_t \<Rightarrow> world_t \<Rightarrow> (otp_reply_t \<times> world_t) cres" where
  "verify_no_user uo rc reply w = cbind (uo_put uo None) (\<lambda>_. COk (reply\<lparr>y_rc := rc\<rparr>, w))"

text \<open>From the static password to the end, for the card module of the user.\<close>

definition verify_card :: "crypto \<Rightarrow> userops_t \<Rightarrow> env_t \<Rightarrow> clock_t \<Rightarrow> config_t \<Rightarrow> otp_request_t \<Rightarrow> otp_reply_t \<Rightarrow>
    cardops_t \<Rightarrow> vars_t \<Rightarrow> world_t \<Rightarrow> (otp_reply_t \<times> world_t) cres" where
  "verify_card cr uo env clk config request reply co v w =
     (case verify_prepare cr config request co v of
        VNext v \<Rightarrow>
          let v = charge (k_hr1 clk) v in
          if v_timeout v < 500000000 then verify_exit uo env config clk reply (VErr OTP_RC_SERVICE_ERR v) w
          else
            (case state_get env (config\<lparr>c_timeout := v_timeout v\<rparr>) (v_user v) (v_state v) w of
               COk (Some state, w) \<Rightarrow>
                 verify_exit uo env config clk reply (verify_state cr config request clk co (v\<lparr>v_state := state\<rparr>)) w
             | COk (None, w) \<Rightarrow> verify_exit uo env config clk reply (VErr OTP_RC_SERVICE_ERR v) w
             | _ \<Rightarrow> CFault)
      | r \<Rightarrow> verify_exit uo env config clk reply r w)"

text \<open>
  The local variables once there is a user; \<open>challenge0\<close> is the initial contents of the array
  \<open>challenge\<close>.
\<close>

definition start_vars :: "clock_t \<Rightarrow> byte list \<Rightarrow> config_t \<Rightarrow> otp_request_t \<Rightarrow> user_t \<Rightarrow> vars_t" where
  "start_vars clk challenge0 config request user = \<lparr>v_user = user, v_state = state_zero, v_challenge = challenge0,
     v_e_response = [], v_pin_len = 0, v_resync = r_resync request, v_timeout = c_timeout config, v_hrlast = k_hr0 clk\<rparr>"

text \<open>\<open>verify\<close>. The user databases return 0, -1 or -2 from \<open>get\<close>.\<close>

definition verify :: "crypto \<Rightarrow> cardops_t list \<Rightarrow> userops_t \<Rightarrow> env_t \<Rightarrow> clock_t \<Rightarrow> byte list \<Rightarrow>
    config_t \<Rightarrow> otp_request_t \<Rightarrow> otp_reply_t \<Rightarrow> world_t \<Rightarrow> (otp_reply_t \<times> world_t) cres" where
  "verify cr cardops uo env clk challenge0 config request reply w =
     (case uo_get uo (r_username request) config (k_now clk) of
        CFault \<Rightarrow> CFault
      | CErr n \<Rightarrow> verify_no_user uo (if n = - 1 then OTP_RC_USER_UNKNOWN else OTP_RC_AUTHINFO_UNAVAIL) reply w
      | COk user \<Rightarrow>
          let v = start_vars clk challenge0 config request user in
          (case find_cardops cardops (u_card user) of
             None \<Rightarrow> verify_exit uo env config clk reply (VErr OTP_RC_SERVICE_ERR v) w
           | Some co \<Rightarrow> verify_card cr uo env clk config request reply co v w))"

subsection \<open>Sample values\<close>

text \<open>A request of a user with a HOTP card, on a state file with one line; 000008 is the code of counter 8.\<close>

definition sample_clock :: clock_t where
  "sample_clock = \<lparr>k_now = 100, k_hr0 = 0, k_hr1 = 1, k_hr2 = 2, k_hr3 = 3, k_async = 100, k_sync = (\<lambda>t e. 100)\<rparr>"

definition sample_request :: otp_request_t where
  "sample_request = \<lparr>r_version = 2, r_username = ''joe'', r_challenge = [], r_pwe = PWE_PAP,
     r_passcode = ''1234000008'', r_chap_challenge = [], r_chap_clen = 0, r_chap_response = [], r_chap_rlen = 0,
     r_allow_async = True, r_allow_sync = True, r_challenge_delay = 0, r_resync = False\<rparr>"

definition sample_reply :: otp_reply_t where
  "sample_reply = \<lparr>y_version = 1, y_rc = OTP_RC_OK, y_passcode = []\<rparr>"

definition sample_state :: state_t where
  "sample_state = state_zero\<lparr>s_clen := 8, s_challenge := replicate 7 0 @ [7] @ replicate 8 0, s_failcount := 2, s_authtime := 16\<rparr>"

definition stored_world :: world_t where
  "stored_world = sample_world\<lparr>w_fs := [''d/joe'' \<mapsto> add_newline (state_unparse sample_user sample_state)]\<rparr>"

definition sample_verify :: "config_t \<Rightarrow> string \<Rightarrow> (otp_reply_t \<times> world_t) cres" where
  "sample_verify config passcode =
     verify sample_crypto [hotp_cardops sample_crypto] (userops_file sample_passwd sample_user) sample_env sample_clock
       (replicate 16 0) config (sample_request\<lparr>r_passcode := passcode\<rparr>) sample_reply stored_world"

end
