(* ===== verification/Otpd_Verify_Inv.thy ===== *)
theory Otpd_Verify_Inv
  imports Otpd_Verify
begin

text \<open>
  The invariants of the passcode verification: what every stage of \<open>verify\<close> keeps of the user and the
  state, that no stage leaves an array or follows a null pointer, and that every exit releases the
  lock or socket the request took. The lemmas about the stages are proved in the contract of a card
  module, those about the exits in the contract of a user database.
\<close>

section \<open>Invariants\<close>

fun vall :: "('a \<Rightarrow> bool) \<Rightarrow> (vars_t \<Rightarrow> bool) \<Rightarrow> 'a vres \<Rightarrow> bool" where
  "vall P Q (VNext x) = P x"
| "vall P Q (VDone rc v) = Q v"
| "vall P Q (VErr rc v) = Q v"
| "vall P Q (VErrTimeout rc v) = Q v"
| "vall P Q VFault = True"

lemma vall_vbind:
  "vall P Q m \<Longrightarrow> (\<And>x. P x \<Longrightarrow> vall P' Q (f x)) \<Longrightarrow> vall P' Q (vbind m f)"
  by (cases m) simp_all

lemma vbind_eq_iff [simp]:
  "vbind m f = VNext y \<longleftrightarrow> (\<exists>x. m = VNext x \<and> f x = VNext y)"
  "vbind m f = VFault \<longleftrightarrow> m = VFault \<or> (\<exists>x. m = VNext x \<and> f x = VFault)"
  "vbind m f = VDone rc v \<longleftrightarrow> m = VDone rc v \<or> (\<exists>x. m = VNext x \<and> f x = VDone rc v)"
  "vbind m f = VErr rc v \<longleftrightarrow> m = VErr rc v \<or> (\<exists>x. m = VNext x \<and> f x = VErr rc v)"
  "vbind m f = VErrTimeout rc v \<longleftrightarrow> m = VErrTimeout rc v \<or> (\<exists>x. m = VNext x \<and> f x = VErrTimeout rc v)"
  by (cases m; simp)+

text \<open>
  What the stages after \<open>state_get\<close> keep of the user \<open>u\<close> and the state \<open>st\<close> that was read: the user, the
  handle of the state and its failure count, and that the state can be written in the file format.
\<close>

definition vinv :: "user_t \<Rightarrow> state_t \<Rightarrow> vars_t \<Rightarrow> bool" where
  "vinv u st v \<longleftrightarrow> v_user v = u \<and> same_handle st (v_state v) \<and> s_failcount (v_state v) = s_failcount st
     \<and> s_challenge (v_state v) = s_challenge st \<and> s_csd (v_state v) = s_csd st \<and> s_scratch1 (v_state v) = s_scratch1 st
     \<and> s_updated (v_state v) = s_updated st
     \<and> length (v_challenge v) = OTP_MAX_CHALLENGE_LEN \<and> state_wf (v_state v)"

lemma vinv_simps [simp]:
  "vinv u st (v\<lparr>v_e_response := s\<rparr>) = vinv u st v" "vinv u st (v\<lparr>v_resync := b\<rparr>) = vinv u st v"
  "vinv u st (v\<lparr>v_timeout := tm\<rparr>) = vinv u st v" "vinv u st (v\<lparr>v_hrlast := hr\<rparr>) = vinv u st v"
  "vinv u st (charge hr v) = vinv u st v"
  by (simp_all add: vinv_def charge_def)

lemma length_challenge_transform:
  "challenge_transform username ch n = COk (ch', n') \<Longrightarrow> length ch' = length ch"
  by (auto simp: challenge_transform_def challenge_append_def Let_def split: if_splits list.splits)

lemma vinv_state_simps [simp]:
  "vinv u st (v\<lparr>v_state := (v_state v)\<lparr>s_authtime := at, s_nullstate := b\<rparr>\<rparr>) = vinv u st v"
  by (simp add: vinv_def same_handle_def state_wf_def)

lemma vinv_challenge:
  "vinv u st v \<Longrightarrow> length ch = OTP_MAX_CHALLENGE_LEN \<Longrightarrow> vinv u st (v\<lparr>v_challenge := ch\<rparr>)"
  by (simp add: vinv_def)

lemma vinv_user: "vinv u st v \<Longrightarrow> v_user v = u"
  by (simp add: vinv_def)

context card_module
begin

lemma state_setup_inv:
  assumes "vinv u st v"
  shows "vall (vinv u st) (vinv u st) (state_setup config clk co v)"
proof (cases "co_nullstate co config (v_user v) (v_state v) (k_now clk)")
  case (COk st')
  with nullstate_result have "st' = v_state v" by blast
  with COk assms show ?thesis by (simp add: state_setup_def Let_def)
qed (use assms in \<open>simp_all add: state_setup_def Let_def\<close>)

lemma async_test_inv:
  assumes "vinv u st v"
  shows "vall (vinv u st) (vinv u st) (async_test cr config request clk co fc v)"
proof -
  let ?clen = "length (r_challenge request)"
  have tested: "vall (vinv u st) (vinv u st) (async_response cr config request clk co fc clen v')" if "vinv u st v'" for v' clen
    using that by (auto simp: async_response_def Let_def split: cres.splits bool.splits)
  show ?thesis
  proof (cases "?clen \<le> OTP_MAX_CHALLENGE_LEN")
    case True
    define ch where "ch = memcpy (v_challenge v) (bytes_of (r_challenge request)) ?clen"
    have ch: "length ch = OTP_MAX_CHALLENGE_LEN" using True assms by (simp add: ch_def vinv_def)
    define tr where "tr = (if c_site_transform config then challenge_transform (r_username request) ch ?clen else COk (ch, ?clen))"
    have tr: "length ch' = OTP_MAX_CHALLENGE_LEN" if "tr = COk (ch', n)" for ch' n
      using that length_challenge_transform [of "r_username request" ch ?clen] ch by (auto simp: tr_def split: if_splits)
    have "async_test cr config request clk co fc v =
       (if ?clen \<noteq> 0 \<and> cf_has (u_featuremask (v_user v)) OTP_CF_AM \<and> r_allow_async request
        then case tr of COk (c, n) \<Rightarrow> async_response cr config request clk co fc n (v\<lparr>v_challenge := c\<rparr>) | _ \<Rightarrow> VFault
        else VNext (v\<lparr>v_challenge := ch\<rparr>))"
      using True by (simp only: async_test_def ch_def tr_def Let_def not_less [symmetric] if_False)
    then show ?thesis
      using vinv_challenge [OF assms ch] vinv_challenge [OF assms tr] tested by (auto split: cres.splits)
  qed (simp add: async_test_def)
qed

lemma sync_match_inv:
  assumes "vinv u st v"
  shows "vall (vinv u st) (vinv u st) (sync_match config clk co fc t e v)"
proof (cases "co_updatecsd co (v_state v) (k_now clk) t e (sync_rc config clk co fc (v_user v) (v_state v) e)")
  case (COk st')
  then obtain r where "st' = (v_state v)\<lparr>s_rd := r\<rparr>"
    "r = s_rd (v_state v) \<or> length r \<le> 8 \<and> CHR '':'' \<notin> set r \<and> no_nul r"
    using updatecsd_result by blast
  with COk assms show ?thesis
    by (auto simp: sync_match_def vinv_def same_handle_def state_wf_def max_defs Let_def)
qed (use assms in \<open>simp_all add: sync_match_def Let_def\<close>)

lemma challenge_inv:
  assumes "vinv u st v" and "co_challenge co (v_user v) (v_state v) (v_challenge v) now t e = COk (st', ch')"
  shows "vinv u st (v\<lparr>v_state := st', v_challenge := ch'\<rparr>)"
proof -
  have *: "st' = (v_state v)\<lparr>s_clen := s_clen st'\<rparr>" "s_clen st' \<le> OTP_MAX_CHALLENGE_LEN" "length ch' = OTP_MAX_CHALLENGE_LEN"
    using challenge_result [OF assms(2)] assms(1) by (auto simp: vinv_def state_wf_def)
  then obtain n where "st' = (v_state v)\<lparr>s_clen := n\<rparr>" by blast
  with assms(1) *(2,3) show ?thesis by (auto simp: vinv_def same_handle_def state_wf_def)
qed

lemma sync_loop_inv:
  "vinv u st v \<Longrightarrow> vall (vinv u st) (vinv u st) (sync_loop cr config request clk co fc ps v)"
proof (induction ps arbitrary: v)
  case (Cons p ps)
  obtain t e where p: "p = (t, e)" by (cases p)
  show ?case
  proof (cases "co_challenge co (v_user v) (v_state v) (v_challenge v) (k_now clk) t e")
    case (COk r)
    obtain st' ch' where r: "r = (st', ch')" by (cases r)
    let ?v = "v\<lparr>v_state := st', v_challenge := ch'\<rparr>"
    have inv: "vinv u st ?v" using challenge_inv [OF Cons.prems] COk r by simp
    then have "vinv u st (?v\<lparr>v_e_response := s\<rparr>)" for s by (simp only: vinv_simps)
    with inv COk Cons.IH sync_match_inv show ?thesis
      by (auto simp: p r Let_def split: cres.splits bool.splits)
  qed (use Cons in \<open>auto simp: p\<close>)
qed simp

lemma sync_test_inv:
  assumes "vinv u st v"
  shows "vall (vinv u st) (vinv u st) (sync_test cr config request clk co fc v)"
proof -
  have "vinv u st (v\<lparr>v_challenge := memcpy (v_challenge v) (s_challenge (v_state v)) (s_clen (v_state v))\<rparr>)"
    using assms by (intro vinv_challenge) (auto simp: vinv_def state_wf_def)
  with assms show ?thesis by (auto simp: sync_test_def Let_def intro: sync_loop_inv)
qed

lemma verify_state_inv:
  assumes "vinv u st v"
  shows "vall (vinv u st) (vinv u st) (verify_state cr config request clk co v)"
proof -
  have "vall (vinv u st) (vinv u st) (put_timeout_check clk v)" if "vinv u st v" for v
    using that by (simp add: put_timeout_check_def Let_def)
  moreover have "vall (vinv u st) (vinv u st) (passcode_test cr config request clk co v)" if "vinv u st v" for v
    using that
    by (auto simp: passcode_test_def split: option.splits intro!: vall_vbind [OF async_test_inv] vall_vbind [OF sync_test_inv])
  ultimately show ?thesis
    using assms unfolding verify_state_def by (blast intro: vall_vbind state_setup_inv)
qed

end


section \<open>No fault\<close>

text \<open>What the request, the user and the configuration must satisfy.\<close>

definition request_ok :: "otp_request_t \<Rightarrow> bool" where
  "request_ok request \<longleftrightarrow> length (r_challenge request) \<le> OTP_MAX_CHALLENGE_LEN
     \<and> (r_pwe request = PWE_CHAP \<longrightarrow> r_chap_clen request \<le> OTP_MAX_CHAP_CHALLENGE_LEN)"

definition user_ok :: "config_t \<Rightarrow> user_t \<Rightarrow> bool" where
  "user_ok config user \<longleftrightarrow> (case a2x (u_pinstring user) of None \<Rightarrow> False | Some pin \<Rightarrow> length pin \<le> OTP_MAX_PIN_LEN)
     \<and> (u_encryptmode user = EMODE_KEYID \<longrightarrow> c_key config (u_keyid user) \<noteq> None)"

lemma compare_returns:
  assumes "request_ok request" and "length passcode \<le> OTP_MAX_PIN_LEN + OTP_MAX_RESPONSE_LEN"
  shows "\<exists>b. compare cr request passcode = COk b"
  using assms by (cases "r_pwe request") (auto simp: compare_def request_ok_def Let_def max_defs)

lemma length_expected:
  "length response \<le> OTP_MAX_RESPONSE_LEN \<Longrightarrow> length (u_pin user) \<le> OTP_MAX_PIN_LEN \<Longrightarrow>
     length (expected config user response) \<le> OTP_MAX_PIN_LEN + OTP_MAX_RESPONSE_LEN"
  using length_cstr_le [of "u_pin user"] by (simp add: expected_def)

lemma static_password_no_fault: "static_password cr request v \<noteq> VFault"
  by (auto simp: static_password_def strneq_def Let_def split: option.splits bool.splits)

lemma not_bit_sint_nonneg: "\<not> bit (w :: u32) 31 \<Longrightarrow> 0 \<le> sint w"
  using bit_last_iff [of w] by simp

lemma softfail_nextauth_defined:
  assumes "softfail \<le> s_failcount state" and "unat (s_failcount state) < 2 ^ 31"
  shows "softfail_nextauth softfail state \<noteq> None"
proof -
  have le: "unat softfail \<le> unat (s_failcount state)" using assms(1) by (simp add: word_le_nat_alt)
  then have "unat (s_failcount state - softfail) = unat (s_failcount state) - unat softfail"
    by (simp add: unat_sub_if')
  then have "\<not> bit (s_failcount state - softfail) 31" using assms(2) by (simp add: bit31_iff)
  then have "0 \<le> sint (s_failcount state - softfail)" by (simp add: not_bit_sint_nonneg)
  then show ?thesis by (simp add: softfail_nextauth_def Let_def)
qed

lemma failcondition_defined:
  "c_softfail config = 0 \<or> unat (s_failcount state) < 2 ^ 31 \<Longrightarrow> failcondition_of config clk state \<noteq> None"
  using softfail_nextauth_defined [of "c_softfail config" state] by (auto simp: failcondition_of_def)

lemma challenge_transform_returns:
  "length ch = OTP_MAX_CHALLENGE_LEN \<Longrightarrow> n \<le> OTP_MAX_CHALLENGE_LEN \<Longrightarrow> \<exists>r. challenge_transform username ch n = COk r"
  by (auto simp: challenge_transform_def challenge_append_def Let_def max_defs split: list.splits)

context card_module
begin

lemma card_setup_result:
  assumes "card_setup co v = VNext v'"
  shows "\<exists>u' key n. co_name2fm co (v_user v) (v_state v) = COk u'
    \<and> v' = v\<lparr>v_user := (v_user v)\<lparr>u_featuremask := u_featuremask u', u_key := key\<rparr>, v_state := (v_state v)\<lparr>s_scratch1 := n\<rparr>\<rparr>"
proof -
  obtain u' st' n where *: "co_name2fm co (v_user v) (v_state v) = COk u'"
    "co_keystring2key co u' (v_state v) = COk (v_user v', st', n)" "v' = v\<lparr>v_user := v_user v', v_state := st'\<rparr>"
    using assms by (auto simp: card_setup_def split: cres.splits)
  have "u' = (v_user v)\<lparr>u_featuremask := u_featuremask u'\<rparr>" using name2fm_result [OF *(1)] by blast
  moreover have "v_user v' = u'\<lparr>u_key := u_key (v_user v')\<rparr>" "st' = (v_state v)\<lparr>s_scratch1 := s_scratch1 st'\<rparr>"
    using key_result [OF *(2)] by blast+
  ultimately show ?thesis using *(1,3) by metis
qed

lemma pin_setup_result:
  "pin_setup v = VNext v' \<Longrightarrow> \<exists>pin. v' = v\<lparr>v_user := (v_user v)\<lparr>u_pin := pin\<rparr>, v_pin_len := length pin\<rparr> \<and> length pin \<le> OTP_MAX_PIN_LEN"
  by (intro exI [of _ "u_pin (v_user v')"]) (auto simp: pin_setup_def split: option.splits if_splits)

lemma decrypt_setup_result:
  assumes "decrypt_setup cr config request v = VNext v'" and "length (u_pin (v_user v)) \<le> OTP_MAX_PIN_LEN"
  shows "\<exists>key pin n. v' = v\<lparr>v_user := (v_user v)\<lparr>u_key := key, u_pin := pin\<rparr>, v_pin_len := n\<rparr> \<and> length pin \<le> OTP_MAX_PIN_LEN"
proof (cases "u_encryptmode (v_user v) = EMODE_PIN \<or> u_encryptmode (v_user v) = EMODE_PINMD5")
  case True
  let ?pin = "if c_prepend_pin config then take (length (r_passcode request) - cf_len (u_featuremask (v_user v))) (r_passcode request)
    else drop (cf_len (u_featuremask (v_user v))) (r_passcode request)"
  have "decrypt_by_pin cr config request v = VNext v'"
    using assms(1) True by (auto simp: decrypt_setup_def)
  then show ?thesis
    by (intro exI [of _ "u_key (v_user v')"] exI [of _ ?pin] exI [of _ "v_pin_len v'"])
      (auto simp: decrypt_by_pin_def Let_def split: if_splits)
next
  case False
  show ?thesis
  proof (cases "u_encryptmode (v_user v) = EMODE_KEYID")
    case True
    then show ?thesis
      using assms by (intro exI [of _ "u_key (v_user v')"] exI [of _ "u_pin (v_user v')"] exI [of _ "v_pin_len v'"])
        (auto simp: decrypt_setup_def decrypt_by_key_def Let_def split: option.splits)
  next
    case clear: False
    with False assms have "v' = v" by (cases "u_encryptmode (v_user v)") (auto simp: decrypt_setup_def)
    then show ?thesis
      using assms(2) by (intro exI [of _ "u_key (v_user v')"] exI [of _ "u_pin (v_user v')"] exI [of _ "v_pin_len v'"]) simp
  qed
qed

lemma verify_prepare_result:
  assumes "verify_prepare cr config request co v = VNext v'"
  shows "length (u_pin (v_user v')) \<le> OTP_MAX_PIN_LEN \<and> u_username (v_user v') = u_username (v_user v)
    \<and> u_password (v_user v) = None
    \<and> v_challenge v' = v_challenge v \<and> v_resync v' = v_resync v \<and> v_timeout v' = v_timeout v \<and> v_hrlast v' = v_hrlast v
    \<and> (\<exists>u'. co_name2fm co (v_user v) (v_state v) = COk u' \<and> u_featuremask (v_user v') = u_featuremask u')
    \<and> (\<exists>n. v_state v' = (v_state v)\<lparr>s_scratch1 := n\<rparr>)"
proof -
  obtain v1 v2 where s: "static_password cr request v = VNext ()" "card_setup co v = VNext v1" "pin_setup v1 = VNext v2"
    "decrypt_setup cr config request v2 = VNext v'"
    using assms by (auto simp: verify_prepare_def length_check_def Let_def split: if_splits)
  have "u_password (v_user v) = None"
    using s(1) by (auto simp: static_password_def Let_def split: option.splits if_splits cres.splits bool.splits)
  then show ?thesis
    using card_setup_result [OF s(2)] pin_setup_result [OF s(3)] decrypt_setup_result [OF s(4)] by auto blast
qed

lemma verify_prepare_no_fault:
  assumes "user_ok config (v_user v)"
  shows "verify_prepare cr config request co v \<noteq> VFault"
proof
  assume "verify_prepare cr config request co v = VFault"
  then consider "card_setup co v = VFault" | v1 where "card_setup co v = VNext v1" "pin_setup v1 = VFault"
    | v1 v2 where "card_setup co v = VNext v1" "pin_setup v1 = VNext v2" "decrypt_setup cr config request v2 = VFault"
    using static_password_no_fault by (auto simp: verify_prepare_def length_check_def Let_def split: if_splits)
  then show False
  proof cases
    case 1
    then show ?thesis using name2fm_no_fault key_no_fault by (auto simp: card_setup_def split: cres.splits)
  next
    case 2
    then show ?thesis
      using assms card_setup_result [OF 2(1)] by (auto simp: pin_setup_def user_ok_def split: option.splits if_splits)
  next
    case 3
    then show ?thesis
      using assms card_setup_result [OF 3(1)] pin_setup_result [OF 3(2)]
      by (auto simp: decrypt_setup_def decrypt_by_key_def decrypt_by_pin_def user_ok_def Let_def
          split: emode.splits option.splits if_splits)
  qed
qed

text \<open>The early exits happen before the state is locked.\<close>

lemma verify_prepare_exit:
  "vall (\<lambda>_. True) (\<lambda>v'. s_locked (v_state v') = s_locked (v_state v)) (verify_prepare cr config request co v)"
proof -
  let ?ok = "\<lambda>v'. s_locked (v_state v') = s_locked (v_state v)"
  have 1: "vall (\<lambda>_. True) ?ok (static_password cr request v)"
    by (auto simp: static_password_def Let_def split: option.splits cres.splits bool.splits)
  have 2: "vall ?ok ?ok (card_setup co v)"
  proof (cases "card_setup co v")
    case (VNext v')
    then show ?thesis using card_setup_result [OF VNext] by auto
  qed (auto simp: card_setup_def split: cres.splits)
  have 3: "vall ?ok ?ok (pin_setup v')" if "?ok v'" for v'
    using that by (auto simp: pin_setup_def split: option.splits)
  have 4: "vall ?ok ?ok (decrypt_setup cr config request v')" if "?ok v'" for v'
    using that by (auto simp: decrypt_setup_def decrypt_by_pin_def decrypt_by_key_def Let_def split: emode.splits option.splits)
  have 5: "vall (\<lambda>_. True) ?ok (length_check request v')" if "?ok v'" for v'
    using that by (simp add: length_check_def Let_def)
  show ?thesis
    unfolding verify_prepare_def
    by (intro vall_vbind [OF 1] vall_vbind [OF 2] vall_vbind [OF 3] vall_vbind [OF 4] 5)
qed

end

context robust_card_module
begin

lemma async_test_no_fault:
  assumes "vinv u st v" and "request_ok request" and "length (u_pin u) \<le> OTP_MAX_PIN_LEN"
  shows "async_test cr config request clk co fc v \<noteq> VFault"
proof -
  have tested: "async_response cr config request clk co fc n (v\<lparr>v_challenge := ch\<rparr>) \<noteq> VFault" for n ch
  proof (cases "co_response co u (v_state v) ch n (k_async clk)")
    case (COk s)
    then have "\<exists>b. compare cr request (expected config u s) = COk b"
      using compare_returns [OF assms(2)] length_expected [OF _ assms(3)] response_result by blast
    with COk show ?thesis using vinv_user [OF assms(1)] by (auto simp: async_response_def Let_def split: bool.splits)
  qed (use response_no_fault vinv_user [OF assms(1)] in \<open>auto simp: async_response_def\<close>)
  have "length (memcpy (v_challenge v) (bytes_of (r_challenge request)) (length (r_challenge request))) = OTP_MAX_CHALLENGE_LEN"
    using assms(1,2) by (simp add: vinv_def request_ok_def)
  from challenge_transform_returns [OF this, of "length (r_challenge request)" "r_username request"] tested assms(2) show ?thesis
    by (auto simp: async_test_def request_ok_def Let_def)
qed

lemma sync_loop_no_fault:
  assumes "request_ok request" and "length (u_pin u) \<le> OTP_MAX_PIN_LEN"
  shows "v_user v = u \<Longrightarrow> sync_loop cr config request clk co fc ps v \<noteq> VFault"
proof (induction ps arbitrary: v)
  case (Cons p ps)
  obtain t e where p: "p = (t, e)" by (cases p)
  have match: "sync_match config clk co fc t e v' \<noteq> VFault" for v'
    using updatecsd_no_fault by (auto simp: sync_match_def Let_def split: cres.splits)
  have comp: "compare cr request (expected config u s) \<noteq> CErr m \<and> compare cr request (expected config u s) \<noteq> CFault"
    if "co_response co u' st' ch' n now = COk s" for u' st' ch' n now s m
  proof -
    have "\<exists>b. compare cr request (expected config u s) = COk b"
      using that compare_returns [OF assms(1)] length_expected [OF _ assms(2)] response_result by blast
    then show ?thesis by auto
  qed
  show ?case
    using challenge_no_fault response_no_fault match comp Cons
    by (auto simp: p Let_def split: cres.splits bool.splits; blast)
qed simp

lemma verify_state_no_fault:
  assumes "vinv u st v" and "request_ok request" and "length (u_pin u) \<le> OTP_MAX_PIN_LEN"
    and "c_softfail config = 0 \<or> unat (s_failcount st) < 2 ^ 31"
  shows "verify_state cr config request clk co v \<noteq> VFault"
proof -
  have st_setup: "state_setup config clk co v \<noteq> VFault"
    using nullstate_no_fault by (auto simp: state_setup_def Let_def split: cres.splits)
  have tested: "passcode_test cr config request clk co v' \<noteq> VFault" if inv: "vinv u st v'" for v'
  proof -
    obtain fc where fc: "failcondition_of config clk (v_state v') = Some fc"
      using failcondition_defined [of config "v_state v'" clk] inv assms(4) by (auto simp: vinv_def)
    have "sync_test cr config request clk co fc v'' \<noteq> VFault" if "vinv u st v''" for v''
      using sync_loop_no_fault [OF assms(2,3)] vinv_user [OF that] by (auto simp: sync_test_def Let_def)
    with async_test_inv [OF inv, of cr config request clk fc] async_test_no_fault [OF inv assms(2,3)] show ?thesis
      by (auto simp: passcode_test_def fc)
  qed
  have "vinv u st v'" if "state_setup config clk co v = VNext v'" for v'
    using state_setup_inv [OF assms(1), of config clk] that by simp
  with st_setup tested show ?thesis
    by (auto simp: verify_state_def put_timeout_check_def Let_def split: if_splits)
qed

end

section \<open>The whole request\<close>

lemma next_field_ok:
  "next_field p = COk (f, q) \<Longrightarrow> no_nul p \<Longrightarrow> CHR '':'' \<notin> set f \<and> no_nul f \<and> no_nul q"
  by (auto simp: next_field_def split: option.splits dest!: strsep_SomeD)

text \<open>What was parsed can be printed.\<close>

lemma state_parse_wf:
  assumes "state_parse buf u st = COk st'" and "state_wf st"
  shows "state_wf st'"
proof (cases "length buf = 0")
  case True
  with assms show ?thesis by (auto simp: state_parse_def state_wf_def)
next
  case False
  define p0 where "p0 = drop (2 + length u + 1) (cstr buf)"
  have "no_nul (cstr buf)" by simp
  then have p0: "no_nul p0" by (auto simp: p0_def no_nul_def dest: in_set_dropD)
  obtain st1 p1 st2 p2 st3 p3 where
    f: "challenge_field p0 (st\<lparr>s_nullstate := False\<rparr>) = COk (st1, p1)" "csd_field p1 st1 = COk (st2, p2)"
      "rd_field p2 st2 = COk (st3, p3)" "counter_fields p3 st3 = COk st'"
    using assms(1) False by (auto simp: state_parse_def p0_def Let_def split: if_splits)
  have 1: "no_nul p1 \<and> state_wf st1"
    using f(1) assms(2) p0
    by (auto simp: challenge_field_def state_wf_def max_defs a2x_def split: if_splits option.splits
        dest!: length_a2nx next_field_ok)
  then have 2: "no_nul p2 \<and> state_wf st2"
    using f(2) by (auto simp: csd_field_def state_wf_def split: if_splits dest!: next_field_ok)
  then have "state_wf st3"
    using f(3) by (auto simp: rd_field_def state_wf_def split: if_splits dest!: next_field_ok)
  then show ?thesis using f(4) by (auto simp: counter_fields_def state_wf_def)
qed

text \<open>What \<open>state_get\<close> returns comes from \<open>state_parse\<close>, in both modes.\<close>

lemma state_get_parsed:
  assumes "state_get env config u st w = COk (Some st1, w1)" and "state_wf st"
  shows "\<exists>buf st0 st'. state_parse buf (u_username u) st0 = COk st' \<and> st1 = st'\<lparr>s_locked := True, s_updated := False\<rparr>
    \<and> state_wf st0 \<and> s_scratch1 st0 = s_scratch1 st"
proof (cases "c_state_mode config = SMODE_LOCAL")
  case True
  then show ?thesis
    using assms state_get_local_reads [of env config u "st\<lparr>s_locked := False\<rparr>" w st1 w1]
    by (fastforce simp: state_get_def state_wf_def)
next
  case False
  have frame: "state_wf st' = state_wf st0 \<and> s_scratch1 st' = s_scratch1 st0"
    if "world_gsmd g timeout user st0 cmsg env net hr0 w0 = (r, st', w')" for g timeout user st0 cmsg env net hr0 w0 r st' w'
    using that by (auto simp: world_gsmd_def gsmd_def state_wf_def Let_def)
  have wf: "state_wf (st\<lparr>s_locked := False, s_gname := a, s_gactive := b\<rparr>) = state_wf st" for a b
    by (simp add: state_wf_def)
  show ?thesis
    using assms False
    by (auto simp: wf state_get_def state_get_global_def Let_def
        split: if_splits option.splits prod.splits cres.splits dest!: frame) blast
qed

lemma state_get_vinv:
  assumes "state_get env config u st w = COk (Some st1, w1)" and "v_user v = u" and "v_state v = st"
    and "state_wf st" and "length (v_challenge v) = OTP_MAX_CHALLENGE_LEN"
  shows "vinv u st1 (v\<lparr>v_state := st1\<rparr>)"
proof -
  obtain buf st0 st' where p: "state_parse buf (u_username u) st0 = COk st'" "st1 = st'\<lparr>s_locked := True, s_updated := False\<rparr>"
    "state_wf st0"
    using state_get_parsed [OF assms(1,4)] by blast
  then have "state_wf st1" using state_parse_wf [OF p(1)] by (simp add: state_wf_def)
  with assms(2,5) show ?thesis by (simp add: vinv_def same_handle_def)
qed

text \<open>The exits: what \<open>auth_done\<close> keeps of the handle, and that the label for errors releases the lock.\<close>

lemma state_wf_zero [simp]: "state_wf (state_zero\<lparr>s_scratch1 := k\<rparr>)"
  by (simp add: state_wf_def state_zero_def max_defs)

lemma auth_done_handle:
  "auth_done clk rc v reply = (v', reply') \<Longrightarrow> same_handle (v_state v) (v_state v') \<and> v_user v' = v_user v
     \<and> v_timeout v' = v_timeout v \<and> s_updated (v_state v')"
  by (auto simp: auth_done_def auth_ok_def auth_failed_def same_handle_def Let_def split: if_splits)

context user_database
begin

lemma exit_unlocked:
  assumes "vall (\<lambda>_. False) (\<lambda>v. \<not> s_locked (v_state v)) r" and "r \<noteq> VFault"
  shows "\<exists>reply'. verify_exit uo env config clk reply r w = COk (reply', w)"
proof (cases r)
  case (VDone rc v)
  obtain v' reply' where d: "auth_done clk rc v reply = (v', reply')" by (cases "auth_done clk rc v reply")
  have "\<not> s_locked (v_state v')"
    using auth_done_handle [OF d] assms VDone by (simp add: same_handle_def)
  then show ?thesis by (simp add: verify_exit_def VDone d auth_done_service_err_def put_returns Let_def)
next
  case (VErrTimeout rc v)
  with assms show ?thesis by (simp add: verify_exit_def verify_put_def state_put_def put_returns Let_def)
qed (use assms in \<open>simp_all add: verify_exit_def auth_done_service_err_def put_returns Let_def\<close>)

lemma exit_locked:
  assumes "idle A n u w" and "state_get env (config\<lparr>c_timeout := tmo\<rparr>) u st w = COk (Some st1, w1)"
    and "vall (\<lambda>_. False) (vinv u st1) r" and "r \<noteq> VFault"
  shows "\<exists>reply' w'. verify_exit uo env config clk reply r w1 = COk (reply', w') \<and> idle A n u w'"
proof -
  have put: "\<exists>rc' w'. verify_put env config rc v w1 = COk (rc', w') \<and> idle A n u w'"
    if h: "same_handle st1 (v_state v)" "v_user v = u" for rc v
  proof -
    obtain ok st3 w2 where p: "state_put env (config\<lparr>c_timeout := v_timeout v\<rparr>) u (v_state v) w1 = COk (ok, st3, w2)" "idle A n u w2"
      using store.transaction [OF assms(1,2) h(1), of "v_timeout v"] by auto
    then have "verify_put env config rc v w1 = COk (if ok then rc else OTP_RC_SERVICE_ERR, w2)"
      using h(2) by (simp add: verify_put_def del: cbind_eq_COk_iff)
    with p(2) show ?thesis by blast
  qed
  have locked: "s_locked st1" using store.get_flags [OF assms(2)] by simp
  have err: "\<exists>rc' w'. auth_done_service_err env config clk rc v w1 = COk (rc', w') \<and> idle A n u w'"
    if "same_handle st1 (v_state v)" "v_user v = u" for rc v
  proof -
    have "s_locked (v_state v)" using that(1) locked by (simp add: same_handle_def)
    then show ?thesis
      using put [of "(charge (k_hr3 clk) v)\<lparr>v_timeout := max 250000000 (v_timeout (charge (k_hr3 clk) v))\<rparr>" rc] that
      by (simp add: auth_done_service_err_def charge_def Let_def)
  qed
  show ?thesis
  proof (cases r)
    case (VDone rc v)
    obtain v' reply' where d: "auth_done clk rc v reply = (v', reply')" by (cases "auth_done clk rc v reply")
    have "same_handle st1 (v_state v')" "v_user v' = u"
      using auth_done_handle [OF d] assms(3) VDone by (auto simp: vinv_def intro: same_handle_trans)
    from err [OF this, of rc] show ?thesis by (auto simp: verify_exit_def VDone d put_returns Let_def)
  next
    case (VErr rc v)
    with err [of v rc] assms(3) show ?thesis by (auto simp: verify_exit_def vinv_def put_returns Let_def)
  next
    case (VErrTimeout rc v)
    with put [of v rc] assms(3) show ?thesis by (auto simp: verify_exit_def vinv_def put_returns Let_def)
  qed (use assms in simp_all)
qed

end

text \<open>The name is all that \<open>idle\<close> depends on.\<close>

lemma idle_cong: "u_username u = u_username u' \<Longrightarrow> idle A n u w = idle A n u' w"
  by (simp add: idle_def)

lemma find_cardops_SomeD: "find_cardops cardops cname = Some co \<Longrightarrow> co \<in> set cardops"
  by (auto simp: find_cardops_def find_Some_iff)

lemma start_vars_simps [simp]:
  "v_user (start_vars clk ch config request user) = user" "v_state (start_vars clk ch config request user) = state_zero"
  "v_challenge (start_vars clk ch config request user) = ch" "v_resync (start_vars clk ch config request user) = r_resync request"
  "v_timeout (start_vars clk ch config request user) = c_timeout config"
  by (simp_all add: start_vars_def)

lemma charge_simps [simp]:
  "v_user (charge hr v) = v_user v" "v_state (charge hr v) = v_state v" "v_challenge (charge hr v) = v_challenge v"
  "v_resync (charge hr v) = v_resync v"
  by (simp_all add: charge_def)

lemma vall_exit: "(\<And>v. r \<noteq> VNext v) \<Longrightarrow> vall (\<lambda>_. P) Q r \<Longrightarrow> vall (\<lambda>_. False) Q r"
  by (cases r) auto

lemma vall_mono: "vall P Q r \<Longrightarrow> (\<And>x. P x \<Longrightarrow> P' x) \<Longrightarrow> vall P' Q r"
  by (cases r) auto

lemma verify_state_not_VNext: "verify_state cr config request clk co v \<noteq> VNext v'"
  by (auto simp: verify_state_def passcode_test_def split: option.splits)

text \<open>A user database and a card module together.\<close>

locale verifier = user_database uo + robust_card_module co for uo co
begin

lemma verify_card_returns:
  assumes req: "request_ok request" and ch0: "length (v_challenge v) = OTP_MAX_CHALLENGE_LEN"
    and user: "user_ok config (v_user v)" and st0: "v_state v = state_zero"
    and idle: "idle A n (v_user v) w"
    and count: "\<And>cfg user st st1 w1. state_get env cfg user st w = COk (Some st1, w1) \<Longrightarrow>
      c_softfail config = 0 \<or> unat (s_failcount st1) < 2 ^ 31"
  shows "\<exists>reply' w'. verify_card cr uo env clk config request reply co v w = COk (reply', w') \<and> idle A n (v_user v) w'"
proof (cases "verify_prepare cr config request co v")
  case (VNext v')
  let ?v = "charge (k_hr1 clk) v'"
  let ?config = "config\<lparr>c_timeout := v_timeout ?v\<rparr>"
  note prep = verify_prepare_result [OF VNext]
  then obtain k where st: "v_state v' = state_zero\<lparr>s_scratch1 := k\<rparr>" using st0 by auto
  have idle': "idle A n (v_user v') w" using idle idle_cong prep by metis
  have early: "\<exists>reply'. verify_exit uo env config clk reply (VErr OTP_RC_SERVICE_ERR ?v) w' = COk (reply', w')" for w'
    by (rule exit_unlocked) (simp_all add: st state_zero_def)
  obtain r w1 where get: "state_get env ?config (v_user v') (v_state v') w = COk (r, w1)"
    using store.get_returns [OF idle'] by blast
  have "\<exists>reply' w'. verify_card cr uo env clk config request reply co v w = COk (reply', w') \<and> idle A n (v_user v') w'"
  proof (cases "v_timeout ?v < 500000000")
    case True
    with early [of w] idle' VNext show ?thesis by (auto simp: verify_card_def Let_def)
  next
    case ontime: False
    show ?thesis
    proof (cases r)
      case None
      with store.get_failed [OF idle'] get have "idle A n (v_user v') w1" by blast
      with early [of w1] VNext None get ontime show ?thesis by (auto simp: verify_card_def Let_def)
    next
      case (Some st1)
      have inv: "vinv (v_user v') st1 (?v\<lparr>v_state := st1\<rparr>)"
        by (rule state_get_vinv [OF get [unfolded Some]]) (use prep ch0 in \<open>simp_all add: st\<close>)
      let ?r = "verify_state cr config request clk co (?v\<lparr>v_state := st1\<rparr>)"
      have "vall (\<lambda>_. False) (vinv (v_user v') st1) ?r"
        using verify_state_inv [OF inv, of cr config request clk] verify_state_not_VNext by (metis vall_exit vall_mono)
      moreover have "?r \<noteq> VFault"
        using prep count [OF get [unfolded Some]] by (intro verify_state_no_fault [OF inv req]) auto
      ultimately have "\<exists>reply' w'. verify_exit uo env config clk reply ?r w1 = COk (reply', w') \<and> idle A n (v_user v') w'"
        by (rule exit_locked [OF idle' get [unfolded Some]])
      with VNext Some get ontime show ?thesis by (simp add: verify_card_def Let_def)
    qed
  qed
  then show ?thesis using idle_cong prep by metis
qed (use exit_unlocked [of "verify_prepare cr config request co v" env config clk reply w]
    verify_prepare_exit [of v cr config request] verify_prepare_no_fault [OF user] st0 idle
    in \<open>auto simp: verify_card_def state_zero_def\<close>)

end

context user_database
begin

lemma verify_returns:
  assumes cards: "\<forall>co \<in> set cardops. robust_card_module co"
    and req: "request_ok request" and ch0: "length challenge0 = OTP_MAX_CHALLENGE_LEN"
    and get: "uo_get uo (r_username request) config (k_now clk) \<noteq> CFault"
    and user: "\<And>user. uo_get uo (r_username request) config (k_now clk) = COk user \<Longrightarrow> user_ok config user"
    and idle: "idle A n u w" "u_username u = r_username request"
    and count: "\<And>cfg user st st1 w1. state_get env cfg user st w = COk (Some st1, w1) \<Longrightarrow>
      c_softfail config = 0 \<or> unat (s_failcount st1) < 2 ^ 31"
  shows "\<exists>reply' w'. verify cr cardops uo env clk challenge0 config request reply w = COk (reply', w') \<and> idle A n u w'"
proof (cases "uo_get uo (r_username request) config (k_now clk)")
  case (CErr e)
  then show ?thesis using idle by (simp add: verify_def verify_no_user_def put_returns)
next
  case CFault
  with get show ?thesis by simp
next
  case (COk user)
  let ?v = "start_vars clk challenge0 config request user"
  have "u_username user = r_username request" by (rule get_name [OF COk])
  then have idle': "idle A n user w' = idle A n u w'" for w' using idle(2) idle_cong by metis
  show ?thesis
  proof (cases "find_cardops cardops (u_card user)")
    case None
    then show ?thesis
      using COk idle exit_unlocked [of "VErr OTP_RC_SERVICE_ERR ?v" env config clk reply w]
      by (auto simp: verify_def state_zero_def)
  next
    case (Some co)
    then have "verifier uo co"
      using cards find_cardops_SomeD by (auto intro: verifier.intro user_database_axioms)
    from verifier.verify_card_returns [OF this req, of ?v config A n w env cr clk reply] user [OF COk] ch0 idle(1) count
    show ?thesis by (simp add: verify_def COk Some idle')
  qed
qed

end

end
