(* ===== verification/Otpd_Verify_Run.thy ===== *)
theory Otpd_Verify_Run
  imports Otpd_Verify_Inv
begin

text \<open>
  The anatomy of a whole request: where a reply other than a service error comes from, what an accepted
  passcode matched, and how far a HOTP counter moves.
\<close>

section \<open>Accepted passcodes\<close>

text \<open>The error exits carry \<open>OTP_RC_SERVICE_ERR\<close>.\<close>

fun err_exit :: "'a vres \<Rightarrow> bool" where
  "err_exit (VErr rc v) \<longleftrightarrow> rc = OTP_RC_SERVICE_ERR"
| "err_exit (VErrTimeout rc v) \<longleftrightarrow> rc = OTP_RC_SERVICE_ERR"
| "err_exit _ \<longleftrightarrow> True"

lemma err_exit_vbind: "err_exit m \<Longrightarrow> (\<And>x. m = VNext x \<Longrightarrow> err_exit (f x)) \<Longrightarrow> err_exit (vbind m f)"
  by (cases m) simp_all

lemma err_exit_sync_loop: "err_exit (sync_loop cr config request clk co fc ps v)"
  by (induction cr config request clk co fc ps v rule: sync_loop.induct)
    (auto simp: sync_match_def Let_def split: cres.splits bool.splits)

lemma err_exit_verify_state: "err_exit (verify_state cr config request clk co v)"
proof -
  have "err_exit (state_setup config clk co v)"
    by (auto simp: state_setup_def Let_def split: cres.splits)
  moreover have "err_exit (put_timeout_check clk v)" for v
    by (simp add: put_timeout_check_def Let_def)
  moreover have "err_exit (async_test cr config request clk co fc v)" for fc v
    by (auto simp: async_test_def async_response_def Let_def split: cres.splits bool.splits)
  moreover have "err_exit (sync_test cr config request clk co fc v)" for fc v
    by (simp add: sync_test_def err_exit_sync_loop Let_def)
  ultimately show ?thesis
    unfolding verify_state_def passcode_test_def
    by (auto intro!: err_exit_vbind split: option.splits)
qed

lemma verify_prepare_rc:
  assumes "u_password (v_user v) = None"
  shows "err_exit (verify_prepare cr config request co v) \<and> (verify_prepare cr config request co v = VDone rc v' \<longrightarrow> rc = OTP_RC_AUTH_ERR)"
proof -
  have "static_password cr request v = VNext ()" using assms by (simp add: static_password_def)
  moreover have "err_exit (card_setup co v)" "card_setup co v = VDone rc v' \<longrightarrow> rc = OTP_RC_AUTH_ERR"
    by (auto simp: card_setup_def split: cres.splits)
  moreover have "err_exit (pin_setup v1)" "pin_setup v1 = VDone rc v' \<longrightarrow> rc = OTP_RC_AUTH_ERR" for v1
    by (auto simp: pin_setup_def split: option.splits)
  moreover have "err_exit (decrypt_setup cr config request v1)" "decrypt_setup cr config request v1 = VDone rc v' \<longrightarrow> rc = OTP_RC_AUTH_ERR" for v1
    by (auto simp: decrypt_setup_def decrypt_by_pin_def decrypt_by_key_def Let_def split: emode.splits option.splits)
  moreover have "err_exit (length_check request v1)" "length_check request v1 = VDone rc v' \<longrightarrow> rc = OTP_RC_AUTH_ERR" for v1
    by (auto simp: length_check_def Let_def)
  ultimately show ?thesis
    by (auto simp: verify_prepare_def intro!: err_exit_vbind)
qed

text \<open>
  A reply other than a service error comes from \<open>auth_done\<close> with that code, and the state was put if it
  was locked.
\<close>

definition done_state :: "clock_t \<Rightarrow> otp_rc \<Rightarrow> vars_t \<Rightarrow> state_t" where
  "done_state clk rc v = (if rc = OTP_RC_OK then auth_ok clk v else auth_failed clk v)"

lemma verify_exit_rc:
  assumes "verify_exit uo env config clk reply r w = COk (reply', w')" and "y_rc reply' \<noteq> OTP_RC_SERVICE_ERR" and "err_exit r"
  shows "\<exists>v. r = VDone (y_rc reply') v \<and> y_passcode reply' = (if y_rc reply' = OTP_RC_OK then v_e_response v else y_passcode reply)
    \<and> (if s_locked (v_state v)
       then \<exists>tmo st'. state_put env (config\<lparr>c_timeout := tmo\<rparr>) (v_user v) (done_state clk (y_rc reply') v) w = COk (True, st', w')
       else w' = w)"
proof -
  let ?rc = "y_rc reply'"
  have put: "rc = ?rc \<and> (\<exists>st'. state_put env (config\<lparr>c_timeout := v_timeout v\<rparr>) (v_user v) (v_state v) w = COk (True, st', w'))"
    if "verify_put env config rc v w = COk (?rc, w')" for rc v
    using that assms(2) by (auto simp: verify_put_def split: if_splits)
  have err: "rc = ?rc \<and> (if s_locked (v_state v)
      then \<exists>tmo st'. state_put env (config\<lparr>c_timeout := tmo\<rparr>) (v_user v) (v_state v) w = COk (True, st', w') else w' = w)"
    if "auth_done_service_err env config clk rc v w = COk (?rc, w')" for rc v
    using that put [of rc] by (fastforce simp: auth_done_service_err_def charge_def Let_def split: if_splits)
  show ?thesis
  proof (cases r)
    case (VDone rc v)
    obtain v' reply1 where d: "auth_done clk rc v reply = (v', reply1)" by (cases "auth_done clk rc v reply")
    have a: "auth_done_service_err env config clk rc v' w = COk (?rc, w')" "y_passcode reply' = y_passcode reply1"
      using assms(1) by (auto simp: verify_exit_def VDone d Let_def)
    with err have rc: "rc = ?rc" by blast
    with d have "v' = v\<lparr>v_state := done_state clk rc v\<rparr>"
      "y_passcode reply1 = (if rc = OTP_RC_OK then v_e_response v else y_passcode reply)"
      by (auto simp: auth_done_def done_state_def split: if_splits)
    moreover have "s_locked (done_state clk rc v) = s_locked (v_state v)"
      by (simp add: done_state_def auth_ok_def auth_failed_def Let_def)
    ultimately show ?thesis using err [OF a(1)] a(2) rc VDone by (auto split: if_splits)
  next
    case (VErr rc v)
    then have "auth_done_service_err env config clk rc v w = COk (?rc, w')"
      using assms(1) by (auto simp: verify_exit_def Let_def)
    from err [OF this] assms(2,3) VErr show ?thesis by auto
  next
    case (VErrTimeout rc v)
    then have "verify_put env config rc v w = COk (?rc, w')"
      using assms(1) by (auto simp: verify_exit_def Let_def)
    from put [OF this] assms(2,3) VErrTimeout show ?thesis by auto
  qed (use assms in \<open>simp_all add: verify_exit_def\<close>)
qed

lemma sync_loop_done:
  assumes "sync_loop cr config request clk co fc ps v = VDone rc v'"
  shows "\<exists>t e st ch response. (t, e) \<in> set ps \<and> v_user v' = v_user v
    \<and> co_response co (v_user v) st ch (s_clen st) (k_sync clk t e) = COk response
    \<and> v_e_response v' = expected config (v_user v) response \<and> compare cr request (v_e_response v') = COk True
    \<and> rc = sync_rc config clk co fc (v_user v) st e"
  using assms
proof (induction ps arbitrary: v)
  case (Cons p ps)
  obtain t e where p: "p = (t, e)" by (cases p)
  let ?found = "\<lambda>w ps. \<exists>t e st ch response. (t, e) \<in> set ps \<and> v_user v' = v_user w
    \<and> co_response co (v_user w) st ch (s_clen st) (k_sync clk t e) = COk response
    \<and> v_e_response v' = expected config (v_user w) response \<and> compare cr request (v_e_response v') = COk True
    \<and> rc = sync_rc config clk co fc (v_user w) st e"
  have later: "?found v (p # ps)" if "?found w ps" "v_user w = v_user v" for w
    using that by (metis list.set_intros(2))
  show ?case
  proof (cases "co_challenge co (v_user v) (v_state v) (v_challenge v) (k_now clk) t e")
    case (COk r)
    obtain st ch where r: "r = (st, ch)" by (cases r)
    obtain response where response: "co_response co (v_user v) st ch (s_clen st) (k_sync clk t e) = COk response"
      using Cons.prems COk r p by (auto simp: Let_def split: cres.splits)
    let ?v = "v\<lparr>v_state := st, v_challenge := ch, v_e_response := expected config (v_user v) response\<rparr>"
    obtain b where b: "compare cr request (expected config (v_user v) response) = COk b"
      using Cons.prems COk r p response by (auto simp: Let_def split: cres.splits)
    show ?thesis
    proof (cases b)
      case True
      then have "sync_match config clk co fc t e ?v = VDone rc v'"
        using Cons.prems COk r p response b by (simp add: Let_def)
      then have "v_user v' = v_user v" "v_e_response v' = expected config (v_user v) response"
        "rc = sync_rc config clk co fc (v_user v) st e"
        by (auto simp: sync_match_def Let_def split: cres.splits)
      with p response b True show ?thesis
        by (intro exI [of _ t] exI [of _ e] exI [of _ st] exI [of _ ch] exI [of _ response]) simp
    next
      case False
      then have "sync_loop cr config request clk co fc ps ?v = VDone rc v'"
        using Cons.prems COk r p response b by (simp add: Let_def)
      from later [OF Cons.IH [OF this]] show ?thesis by simp
    qed
  next
    case (CErr n)
    then have "sync_loop cr config request clk co fc ps v = VDone rc v'"
      using Cons.prems p by (auto split: if_splits)
    from later [OF Cons.IH [OF this] refl] show ?thesis .
  qed (use Cons.prems p in simp)
qed simp

lemma sync_test_done:
  "sync_test cr config request clk co fc v = VDone rc v' \<Longrightarrow>
     sync_loop cr config request clk co fc (window (co_maxtwin co (v_user v) (v_state v) (k_now clk)) (sync_eend config (v_user v)))
       (v\<lparr>v_challenge := memcpy (v_challenge v) (s_challenge (v_state v)) (s_clen (v_state v))\<rparr>) = VDone rc v'"
  by (auto simp: sync_test_def Let_def split: if_splits)

text \<open>
  An exit with \<open>OTP_RC_OK\<close> after the state was read: the passcode matched a response of the card,
  and the user was not locked out.
\<close>

lemma passcode_test_ok:
  assumes "passcode_test cr config request clk co v = VDone OTP_RC_OK v'"
  shows "\<exists>st ch n now response. co_response co (v_user v) st ch n now = COk response
    \<and> v_e_response v' = expected config (v_user v) response \<and> compare cr request (v_e_response v') = COk True
    \<and> (c_hardfail config = 0 \<or> s_failcount (v_state v) < c_hardfail config)"
proof -
  obtain fc where fc: "failcondition_of config clk (v_state v) = Some fc"
    and ex: "async_test cr config request clk co fc v = VDone OTP_RC_OK v'
      \<or> (\<exists>v1. async_test cr config request clk co fc v = VNext v1 \<and> sync_test cr config request clk co fc v1 = VDone OTP_RC_OK v')"
    using assms by (auto simp: passcode_test_def split: option.splits)
  have hard: "c_hardfail config = 0 \<or> s_failcount (v_state v) < c_hardfail config" if "fc \<noteq> OTP_FC_FAIL_HARD"
    using fc that by (auto simp: failcondition_of_def not_less split: if_splits)
  have async: "v_user v1 = v_user v" if "async_test cr config request clk co fc v = VNext v1" for v1
    using that by (auto simp: async_test_def async_response_def Let_def split: if_splits cres.splits bool.splits)
  from ex show ?thesis
  proof (elim disjE exE conjE)
    assume "async_test cr config request clk co fc v = VDone OTP_RC_OK v'"
    then obtain n ch where "async_response cr config request clk co fc n (v\<lparr>v_challenge := ch\<rparr>) = VDone OTP_RC_OK v'"
      by (auto simp: async_test_def Let_def split: if_splits cres.splits)
    then obtain response where "co_response co (v_user v) (v_state v) ch n (k_async clk) = COk response"
      "v_e_response v' = expected config (v_user v) response" "compare cr request (v_e_response v') = COk True"
      "async_rc clk request fc (v_state v) = OTP_RC_OK"
      by (auto simp: async_response_def Let_def split: cres.splits bool.splits)
    with hard show ?thesis by (auto simp: async_rc_def split: if_splits) blast+
  next
    fix v1
    assume v1: "async_test cr config request clk co fc v = VNext v1" and "sync_test cr config request clk co fc v1 = VDone OTP_RC_OK v'"
    from sync_loop_done [OF sync_test_done [OF this(2)]] async [OF v1] hard show ?thesis
      by (auto simp: sync_rc_def split: if_splits) blast+
  qed
qed

lemma verify_state_done:
  assumes "verify_state cr config request clk co v = VDone rc v'" and "card_module co" and "vinv u st v"
  shows "\<exists>v2. passcode_test cr config request clk co v2 = VDone rc v' \<and> vinv u st v2
    \<and> s_clen (v_state v2) = s_clen (v_state v) \<and> s_rd (v_state v2) = s_rd (v_state v)"
proof -
  obtain v1 v2 where s: "state_setup config clk co v = VNext v1" "put_timeout_check clk v1 = VNext v2"
    and test: "passcode_test cr config request clk co v2 = VDone rc v'"
    using assms(1) by (auto simp: verify_state_def state_setup_def put_timeout_check_def Let_def split: if_splits cres.splits)
  have "vinv u st v1" using card_module.state_setup_inv [OF assms(2,3), of config clk] s(1) by simp
  moreover have "s_clen (v_state v1) = s_clen (v_state v) \<and> s_rd (v_state v1) = s_rd (v_state v)"
    using s(1)
    by (auto simp: state_setup_def Let_def split: if_splits cres.splits dest!: card_module.nullstate_result [OF assms(2)])
  ultimately show ?thesis using test s(2) by (auto simp: put_timeout_check_def Let_def split: if_splits)
qed

lemma verify_state_ok:
  assumes "verify_state cr config request clk co v = VDone OTP_RC_OK v'" and "card_module co" and "vinv u st v"
  shows "\<exists>st2 ch n now response. co_response co u st2 ch n now = COk response
    \<and> v_e_response v' = expected config u response \<and> compare cr request (v_e_response v') = COk True
    \<and> (c_hardfail config = 0 \<or> s_failcount st < c_hardfail config)"
proof -
  obtain v2 where "passcode_test cr config request clk co v2 = VDone OTP_RC_OK v'" "vinv u st v2"
    using verify_state_done [OF assms] by blast
  with passcode_test_ok [of cr config request clk co v2 v'] show ?thesis by (auto simp: vinv_def)
qed

text \<open>
  What happened during a request for a user without a static password that was not answered with a
  service error: either the passcode was turned down before the state was read, or the state was
  read, the passcode tested, and the new state put back with success.
\<close>

lemma verify_run:
  assumes get: "uo_get uo (r_username request) config (k_now clk) = COk user" "u_password user = None"
    and cards: "\<forall>co \<in> set cardops. card_module co" and ch0: "length challenge0 = OTP_MAX_CHALLENGE_LEN"
    and run: "verify cr cardops uo env clk challenge0 config request reply w = COk (reply', w')" "y_rc reply' \<noteq> OTP_RC_SERVICE_ERR"
  shows "\<exists>co. find_cardops cardops (u_card user) = Some co \<and> card_module co
    \<and> (y_rc reply' = OTP_RC_AUTH_ERR \<and> w' = w \<and> y_passcode reply' = y_passcode reply
          \<and> (\<exists>v. verify_prepare cr config request co (start_vars clk challenge0 config request user) = VDone OTP_RC_AUTH_ERR v)
       \<or> (\<exists>v st w1 v' tmo st'.
          verify_prepare cr config request co (start_vars clk challenge0 config request user) = VNext v
          \<and> state_get env (config\<lparr>c_timeout := v_timeout (charge (k_hr1 clk) v)\<rparr>) (v_user v) (v_state v) w = COk (Some st, w1)
          \<and> vinv (v_user v) st ((charge (k_hr1 clk) v)\<lparr>v_state := st\<rparr>)
          \<and> verify_state cr config request clk co ((charge (k_hr1 clk) v)\<lparr>v_state := st\<rparr>) = VDone (y_rc reply') v'
          \<and> vinv (v_user v) st v'
          \<and> state_put env (config\<lparr>c_timeout := tmo\<rparr>) (v_user v) (done_state clk (y_rc reply') v') w1 = COk (True, st', w')
          \<and> y_passcode reply' = (if y_rc reply' = OTP_RC_OK then v_e_response v' else y_passcode reply)))"
proof -
  let ?v0 = "start_vars clk challenge0 config request user"
  note exit_rc = verify_exit_rc [OF _ run(2)]
  have no_err: "verify_exit uo env config clk reply (VErr OTP_RC_SERVICE_ERR v) w2 \<noteq> COk (reply', w')" for v w2
    using exit_rc by fastforce
  obtain co where co: "find_cardops cardops (u_card user) = Some co"
    and card: "verify_card cr uo env clk config request reply co ?v0 w = COk (reply', w')"
    using run(1) get(1) no_err
    by (cases "find_cardops cardops (u_card user)") (auto simp: verify_def)
  have cm: "card_module co" using cards find_cardops_SomeD [OF co] by blast
  note rc = verify_prepare_rc [of ?v0 cr config request co, unfolded start_vars_simps, OF get(2)]
  show ?thesis
  proof (cases "\<exists>v. verify_prepare cr config request co ?v0 = VNext v")
    case True
    then obtain v where v: "verify_prepare cr config request co ?v0 = VNext v" by blast
    let ?v = "charge (k_hr1 clk) v"
    have on_time: "\<not> v_timeout ?v < 500000000"
      using card v no_err by (auto simp: verify_card_def Let_def)
    obtain st w1 where st: "state_get env (config\<lparr>c_timeout := v_timeout ?v\<rparr>) (v_user v) (v_state v) w = COk (Some st, w1)"
      using card v on_time no_err by (auto simp: verify_card_def Let_def split: cres.splits option.splits)
    note prep = card_module.verify_prepare_result [OF cm v]
    have inv: "vinv (v_user v) st (?v\<lparr>v_state := st\<rparr>)"
      by (rule state_get_vinv [OF st]) (use prep ch0 in auto)
    have "verify_exit uo env config clk reply (verify_state cr config request clk co (?v\<lparr>v_state := st\<rparr>)) w1 = COk (reply', w')"
      using card v on_time st by (simp add: verify_card_def Let_def)
    from exit_rc [OF this err_exit_verify_state] obtain v' where
      v': "verify_state cr config request clk co (?v\<lparr>v_state := st\<rparr>) = VDone (y_rc reply') v'"
      "y_passcode reply' = (if y_rc reply' = OTP_RC_OK then v_e_response v' else y_passcode reply)"
      and put: "s_locked (v_state v') \<longrightarrow> (\<exists>tmo st'. state_put env (config\<lparr>c_timeout := tmo\<rparr>) (v_user v') (done_state clk (y_rc reply') v') w1 = COk (True, st', w'))"
      by metis
    have inv': "vinv (v_user v) st v'" using card_module.verify_state_inv [OF cm inv, of cr config request clk] v'(1) by simp
    then have "s_locked (v_state v')" "v_user v' = v_user v"
      using store.get_flags [OF st] by (auto simp: vinv_def same_handle_def)
    with put obtain tmo st' where p: "state_put env (config\<lparr>c_timeout := tmo\<rparr>) (v_user v) (done_state clk (y_rc reply') v') w1 = COk (True, st', w')"
      by auto
    with co cm v st inv v' inv' show ?thesis by metis
  next
    case False
    then have "verify_exit uo env config clk reply (verify_prepare cr config request co ?v0) w = COk (reply', w')"
      using card by (auto simp: verify_card_def split: vres.splits)
    from exit_rc [OF this conjunct1 [OF rc]] obtain v' where
      v': "verify_prepare cr config request co ?v0 = VDone (y_rc reply') v'"
      "y_passcode reply' = (if y_rc reply' = OTP_RC_OK then v_e_response v' else y_passcode reply)"
      and put: "\<not> s_locked (v_state v') \<longrightarrow> w' = w" by metis
    have "\<not> s_locked (v_state v')"
      using card_module.verify_prepare_exit [OF cm, of ?v0 cr config request] v'(1) by (simp add: state_zero_def)
    then have "w' = w" using put by simp
    moreover have "y_rc reply' = OTP_RC_AUTH_ERR" using v'(1) rc by blast
    ultimately show ?thesis using v' co cm by auto
  qed
qed

text \<open>The card modules of the program.\<close>

definition otpd_modules :: "crypto \<Rightarrow> cardops_t set" where
  "otpd_modules cr = {cryptocard_cardops cr, hotp_cardops cr, totp_cardops cr, c200_cardops cr, x99_cardops cr}"

lemma card_module_otpd: "co \<in> otpd_modules cr \<Longrightarrow> card_module co"
  using hotp.card_module_axioms totp.card_module_axioms c200.card_module_axioms x99.card_module_axioms
    cryptocard.card_module_axioms by (auto simp: otpd_modules_def)

lemma robust_modules: "co \<in> {hotp_cardops cr, totp_cardops cr, c200_cardops cr} \<Longrightarrow> robust_card_module co"
  using hotp_robust.robust_card_module_axioms totp_robust.robust_card_module_axioms c200_robust.robust_card_module_axioms
  by auto

interpretation file_hotp: verifier "userops_file penv tuser" "hotp_cardops cr" for penv tuser cr
  by (intro verifier.intro filedb.user_database_axioms hotp_robust.robust_card_module_axioms)

section \<open>The HOTP counter\<close>

definition hotp_count :: "byte list \<Rightarrow> nat" where
  "hotp_count ch = be_val (take 8 ch)"

lemma hotp_step:
  assumes "8 \<le> length ch" and "hotp_count ch < 2 ^ 31"
  shows "\<exists>ch'. hotp_challenge u st ch now t e = COk (st\<lparr>s_clen := 8\<rparr>, ch') \<and> hotp_count ch' = hotp_count ch + 1
    \<and> length ch' = length ch"
  using assms hotp_next_counter [of ch]
  by (simp add: hotp_count_def hotp_challenge_eq be_val_be64_bytes)

text \<open>A match in the window stands at a counter above the starting one, and the response is its code.\<close>

lemma hotp_loop:
  assumes "sync_loop cr config request clk (hotp_cardops cr) fc ps v = VDone rc v'"
    and "8 \<le> length (v_challenge v)" and "hotp_count (v_challenge v) + length ps < 2 ^ 31"
  shows "hotp_count (v_challenge v) < hotp_count (v_challenge v')
    \<and> hotp_count (v_challenge v') \<le> hotp_count (v_challenge v) + length ps
    \<and> s_clen (v_state v') = 8 \<and> v_resync v' \<and> s_challenge (v_state v') = s_challenge (v_state v)
    \<and> (\<exists>response. hotp_mac cr (v_challenge v') (u_key (v_user v)) (s_scratch1 (v_state v)) (cf_len (u_featuremask (v_user v))) = COk response
         \<and> v_e_response v' = expected config (v_user v) response)"
  using assms
proof (induction ps arbitrary: v)
  case (Cons p ps)
  obtain t e where p: "p = (t, e)" by (cases p)
  obtain ch where ch: "hotp_challenge (v_user v) (v_state v) (v_challenge v) (k_now clk) t e = COk ((v_state v)\<lparr>s_clen := 8\<rparr>, ch)"
    "hotp_count ch = hotp_count (v_challenge v) + 1" "length ch = length (v_challenge v)"
    using hotp_step [OF Cons.prems(2), of "v_user v" "v_state v" "k_now clk" t e] Cons.prems(3) by auto
  let ?st = "(v_state v)\<lparr>s_clen := 8\<rparr>"
  obtain response where response: "hotp_response cr (v_user v) ?st ch 8 (k_sync clk t e) = COk response"
    using Cons.prems(1) ch(1) p by (auto simp: Let_def split: cres.splits)
  let ?v = "v\<lparr>v_state := ?st, v_challenge := ch, v_e_response := expected config (v_user v) response\<rparr>"
  obtain b where b: "compare cr request (expected config (v_user v) response) = COk b"
    using Cons.prems(1) ch(1) p response by (auto simp: Let_def split: cres.splits)
  show ?case
  proof (cases b)
    case True
    then have "sync_match config clk (hotp_cardops cr) fc t e ?v = VDone rc v'"
      using Cons.prems(1) ch(1) p response b by (simp add: Let_def)
    then have "v_challenge v' = ch" "v_resync v'" "s_clen (v_state v') = 8" "s_challenge (v_state v') = s_challenge (v_state v)"
      "v_e_response v' = expected config (v_user v) response"
      by (auto simp: sync_match_def hotp_updatecsd_def Let_def split: if_splits)
    with ch response show ?thesis by (auto simp: hotp_response_def)
  next
    case False
    then have "sync_loop cr config request clk (hotp_cardops cr) fc ps ?v = VDone rc v'"
      using Cons.prems(1) ch(1) p response b by (simp add: Let_def)
    from Cons.IH [OF this] Cons.prems(2,3) ch show ?thesis by auto
  qed
qed simp

text \<open>A HOTP card has no asynchronous mode, and its window starts at the stored counter.\<close>

lemma hotp_no_async: "fm \<in> {HOTP5, HOTP6, HOTP7, HOTP8, HOTP9} \<Longrightarrow> \<not> cf_has fm OTP_CF_AM"
  by (auto simp: hotp_fm_values cf_defs)

lemma length_window: "length (window 0 eend) = nat (eend + 1)"
  by (simp add: window_def)

lemma hotp_passcode_test:
  assumes "passcode_test cr config request clk (hotp_cardops cr) v = VDone OTP_RC_OK v'" and "vinv u st v"
    and "u_featuremask u \<in> {HOTP5, HOTP6, HOTP7, HOTP8, HOTP9}" and "s_clen (v_state v) = 8"
    and "hotp_count (s_challenge st) + nat (sync_eend config u + 1) < 2 ^ 31"
  shows "hotp_count (s_challenge st) < hotp_count (v_challenge v') \<and> s_clen (v_state v') = 8 \<and> v_resync v'
    \<and> hotp_count (v_challenge v') \<le> hotp_count (s_challenge st) + nat (sync_eend config u + 1)
    \<and> (\<exists>response. hotp_mac cr (v_challenge v') (u_key u) (s_scratch1 st) (cf_len (u_featuremask u)) = COk response
         \<and> v_e_response v' = expected config u response)"
proof -
  have u: "v_user v = u" and len: "length (v_challenge v) = 16" "length (s_challenge st) = 16"
    and same: "s_challenge (v_state v) = s_challenge st" "s_scratch1 (v_state v) = s_scratch1 st"
    using assms(2) by (auto simp: vinv_def state_wf_def max_defs)
  obtain fc v1 where v1: "async_test cr config request clk (hotp_cardops cr) fc v = VNext v1"
    "sync_test cr config request clk (hotp_cardops cr) fc v1 = VDone OTP_RC_OK v'"
    using assms(1) hotp_no_async [OF assms(3)] u
    by (auto simp: passcode_test_def async_test_def Let_def split: option.splits if_splits)
  then obtain ch where ch: "v1 = v\<lparr>v_challenge := ch\<rparr>"
    using hotp_no_async [OF assms(3)] u by (auto simp: async_test_def Let_def split: if_splits)
  have "length ch = 16"
  proof -
    have "vall (vinv u st) (vinv u st) (async_test cr config request clk (hotp_cardops cr) fc v)"
      by (rule hotp.async_test_inv [OF assms(2)])
    then show ?thesis using v1(1) ch by (simp add: vinv_def max_defs)
  qed
  then have start: "hotp_count (memcpy ch (s_challenge st) 8) = hotp_count (s_challenge st)"
      "8 \<le> length (memcpy ch (s_challenge st) 8)"
    using len by (simp_all add: hotp_count_def memcpy_def min_def)
  have "sync_loop cr config request clk (hotp_cardops cr) fc (window 0 (sync_eend config u))
      (v1\<lparr>v_challenge := memcpy ch (s_challenge st) 8\<rparr>) = VDone OTP_RC_OK v'"
    using sync_test_done [OF v1(2)] u same ch assms(4) by (simp add: hotp_maxtwin_def)
  from hotp_loop [OF this] start assms(5) show ?thesis
    by (simp add: length_window ch u same)
qed

lemma verify_prepare_done:
  "verify_prepare cr config request co v = VDone rc v' \<Longrightarrow> r_pwe request = PWE_PAP"
proof -
  have "r_pwe request = PWE_PAP" if "decrypt_setup cr config request v1 = VDone rc v'" for v1
    using that by (cases "u_encryptmode (v_user v1)")
      (auto simp: decrypt_setup_def decrypt_by_pin_def decrypt_by_key_def Let_def split: option.splits if_splits)
  moreover have "r_pwe request = PWE_PAP" if "length_check request v1 = VDone rc v'" for v1
    using that by (auto simp: length_check_def Let_def split: if_splits)
  moreover have "static_password cr request v \<noteq> VDone rc v'" "card_setup co v \<noteq> VDone rc v'" "pin_setup v1 \<noteq> VDone rc v'" for v1
    by (auto simp: static_password_def card_setup_def pin_setup_def Let_def split: option.splits cres.splits bool.splits)
  moreover assume "verify_prepare cr config request co v = VDone rc v'"
  ultimately show ?thesis by (auto simp: verify_prepare_def)
qed

lemma done_state_wf: "vinv u st v \<Longrightarrow> state_wf (done_state clk rc v)"
  by (auto simp: done_state_def auth_ok_def auth_failed_def vinv_def state_wf_def Let_def)

lemma verify_ok_run:
  assumes "uo_get uo (r_username request) config (k_now clk) = COk user" and "u_password user = None"
    and "set cardops \<subseteq> otpd_modules cr'" and "length challenge0 = OTP_MAX_CHALLENGE_LEN"
    and "verify cr cardops uo env clk challenge0 config request reply w = COk (reply', w')" and "y_rc reply' = OTP_RC_OK"
  obtains co v st w1 v' tmo st' where "find_cardops cardops (u_card user) = Some co" "card_module co"
    "verify_prepare cr config request co (start_vars clk challenge0 config request user) = VNext v"
    "state_get env (config\<lparr>c_timeout := v_timeout (charge (k_hr1 clk) v)\<rparr>) (v_user v) (v_state v) w = COk (Some st, w1)"
    "vinv (v_user v) st ((charge (k_hr1 clk) v)\<lparr>v_state := st\<rparr>)"
    "verify_state cr config request clk co ((charge (k_hr1 clk) v)\<lparr>v_state := st\<rparr>) = VDone OTP_RC_OK v'"
    "vinv (v_user v) st v'" "y_passcode reply' = v_e_response v'"
    "state_put env (config\<lparr>c_timeout := tmo\<rparr>) (v_user v) (done_state clk OTP_RC_OK v') w1 = COk (True, st', w')"
proof -
  have cards: "\<forall>co \<in> set cardops. card_module co" using assms(3) card_module_otpd by blast
  show thesis
    using verify_run [OF assms(1,2) cards assms(4,5)] assms(6) that by (simp only: otp_rc.distinct simp_thms if_True) blast
qed

text \<open>The steps before the state is read do not look at the clock.\<close>

lemma prepare_timers:
  "card_setup co v = VNext v' \<Longrightarrow> v_timeout v' = v_timeout v \<and> v_hrlast v' = v_hrlast v"
  "pin_setup v = VNext v' \<Longrightarrow> v_timeout v' = v_timeout v \<and> v_hrlast v' = v_hrlast v"
  "decrypt_by_pin cr config request v = VNext v' \<Longrightarrow> v_timeout v' = v_timeout v \<and> v_hrlast v' = v_hrlast v"
  "decrypt_by_key config v = VNext v' \<Longrightarrow> v_timeout v' = v_timeout v \<and> v_hrlast v' = v_hrlast v"
  "length_check request v = VNext v' \<Longrightarrow> v_timeout v' = v_timeout v \<and> v_hrlast v' = v_hrlast v"
  subgoal by (auto simp: card_setup_def split: cres.splits)
  subgoal by (auto simp: pin_setup_def split: option.splits if_splits)
  subgoal by (auto simp: decrypt_by_pin_def Let_def split: if_splits option.splits)
  subgoal by (auto simp: decrypt_by_key_def Let_def split: if_splits option.splits)
  subgoal by (auto simp: length_check_def Let_def split: if_splits)
  done

lemma verify_prepare_timer:
  assumes "verify_prepare cr config request co v = VNext v'"
  shows "v_timeout v' = v_timeout v \<and> v_hrlast v' = v_hrlast v"
proof -
  have decrypt: "v_timeout v2 = v_timeout v1 \<and> v_hrlast v2 = v_hrlast v1" if "decrypt_setup cr config request v1 = VNext v2" for v1 v2
    using that prepare_timers(3,4) by (auto simp: decrypt_setup_def Let_def split: emode.splits if_splits)
  obtain v1 v2 v3 where v: "card_setup co v = VNext v1" "pin_setup v1 = VNext v2" "decrypt_setup cr config request v2 = VNext v3"
    "length_check request v3 = VNext v'"
    using assms by (auto simp: verify_prepare_def vbind_eq_iff)
  from prepare_timers(1) [OF v(1)] prepare_timers(2) [OF v(2)] decrypt [OF v(3)] prepare_timers(5) [OF v(4)] show ?thesis by simp
qed

text \<open>With less than half a second no state is read and no passcode is accepted.\<close>

lemma verify_no_time:
  assumes "c_timeout config < 500000000" and "k_hr0 clk \<le> k_hr1 clk"
    and "\<And>user. uo_get uo (r_username request) config (k_now clk) = COk user \<Longrightarrow> u_password user = None"
    and "verify cr cardops uo env clk challenge0 config request reply w = COk (reply', w')"
  shows "y_rc reply' \<noteq> OTP_RC_OK"
proof
  assume ok: "y_rc reply' = OTP_RC_OK"
  have exit_ok: "\<exists>v. r = VDone OTP_RC_OK v" if "verify_exit uo env config clk reply r w1 = COk (reply', w')" "err_exit r" for r w1
    using verify_exit_rc [OF that(1) _ that(2)] ok by auto
  have no_err: "verify_exit uo env config clk reply (VErr OTP_RC_SERVICE_ERR v) w1 \<noteq> COk (reply', w')" for v w1
    using exit_ok [of "VErr OTP_RC_SERVICE_ERR v"] by auto
  obtain user where get: "uo_get uo (r_username request) config (k_now clk) = COk user"
    using assms(4) ok by (auto simp: verify_def verify_no_user_def split: cres.splits if_splits)
  let ?v = "start_vars clk challenge0 config request user"
  obtain co where co: "verify_card cr uo env clk config request reply co ?v w = COk (reply', w')"
    using assms(4) get no_err by (cases "find_cardops cardops (u_card user)") (auto simp: verify_def Let_def)
  note rc = verify_prepare_rc [of ?v cr config request co, unfolded start_vars_simps, OF assms(3) [OF get]]
  show False
  proof (cases "\<exists>v. verify_prepare cr config request co ?v = VNext v")
    case True
    then obtain v where v: "verify_prepare cr config request co ?v = VNext v" by blast
    have "v_timeout (charge (k_hr1 clk) v) < 500000000"
      using verify_prepare_timer [OF v] assms(1,2) by (simp add: charge_def start_vars_def)
    with co v no_err show False by (simp add: verify_card_def)
  next
    case False
    then have "verify_exit uo env config clk reply (verify_prepare cr config request co ?v) w = COk (reply', w')"
      using co by (cases "verify_prepare cr config request co ?v") (simp_all add: verify_card_def)
    with exit_ok rc show False by blast
  qed
qed

end
