(* ===== verification/Otpd_Verify_Props.thy ===== *)
theory Otpd_Verify_Props
  imports Otpd_Verify_Run
begin

text \<open>
  The properties of \<open>verify\<close>: soundness of acceptance, lockout, counting of failures, absence of leaks,
  replay protection of HOTP cards, and the failure conditions.
\<close>

section \<open>Sample runs\<close>

lemma sample_get: "uo_get (userops_file sample_passwd tuser) ''joe'' config now = COk (entry_user tuser config sample_entry)"
proof -
  have "pe_mode sample_passwd AND loose_mode = 0" "entry_wf sample_entry" by code_simp+
  then have "find_line ''joe'' None (entry_line sample_entry) = COk (Some (entry_line sample_entry))"
    using find_line_entries [of "''joe''" "[sample_entry]"] by (simp add: sample_entry_def)
  moreover have "e_user sample_entry = ''joe''" by (simp add: sample_entry_def)
  ultimately show ?thesis
    using \<open>pe_mode sample_passwd AND loose_mode = 0\<close> file_user_entry [OF \<open>entry_wf sample_entry\<close>, of tuser config]
    by (simp add: userops_file_def file_get_def sample_passwd_def)
qed

lemma sample_joe [simp]: "r_username (sample_request\<lparr>r_passcode := passcode\<rparr>) = ''joe''"
  by (simp add: sample_request_def)

lemma sample_config_simps [simp]:
  "c_file_encryptmode sample_config = EMODE_CLEAR" "c_softfail sample_config = 0" "c_state_mode sample_config = SMODE_LOCAL"
  "c_statedir sample_config = ''d''" "c_prepend_pin sample_config"
  by (simp_all add: sample_config_def)

lemma sample_entry_user [simp]:
  "u_password (entry_user tuser config en) = None" "u_username (entry_user tuser config en) = e_user en" "e_user sample_entry = ''joe''"
  by (simp_all add: entry_user_def sample_entry_def)

lemma no_nul_joe: "no_nul ''joe''"
  by simp

lemma sample_request_get:
  "uo_get (userops_file sample_passwd tuser) (r_username (sample_request\<lparr>r_passcode := passcode\<rparr>)) config now
     = COk (entry_user tuser config sample_entry)"
  by (simp only: sample_joe sample_get)

lemma sample_cards:
  "set [hotp_cardops sample_crypto] \<subseteq> otpd_modules sample_crypto"
  "find_cardops [hotp_cardops sample_crypto] (u_card (entry_user tuser config sample_entry)) = Some (hotp_cardops sample_crypto)"
proof -
  have "strncaseeq ''hotp'' ''hotp-d6'' 4" by code_simp
  then show "find_cardops [hotp_cardops sample_crypto] (u_card (entry_user tuser config sample_entry)) = Some (hotp_cardops sample_crypto)"
    by (simp add: find_cardops_def entry_user_def sample_entry_def hotp_cardops_def)
qed (simp add: otpd_modules_def)

lemma sample_idle: "idle (\<lambda>b. []) 0 u stored_world"
  by (simp add: idle_def stored_world_def sample_world_def lock_abs_init)

lemma sample_request_ok: "request_ok (sample_request\<lparr>r_passcode := passcode\<rparr>)"
  by (simp add: request_ok_def sample_request_def)

lemma sample_user_ok: "c_file_encryptmode config = EMODE_CLEAR \<Longrightarrow> user_ok config (entry_user tuser config sample_entry)"
proof -
  have "case a2x ''31323334'' of None \<Rightarrow> False | Some pin \<Rightarrow> length pin \<le> OTP_MAX_PIN_LEN" by code_simp
  then show "c_file_encryptmode config = EMODE_CLEAR \<Longrightarrow> user_ok config (entry_user tuser config sample_entry)"
    by (simp add: user_ok_def entry_user_def sample_entry_def)
qed

lemma sample_returns:
  assumes "c_file_encryptmode config = EMODE_CLEAR" and "c_softfail config = 0"
  shows "\<exists>reply' w'. sample_verify config passcode = COk (reply', w')"
proof -
  have "\<exists>reply' w'. sample_verify config passcode = COk (reply', w') \<and> idle (\<lambda>b. []) 0 (entry_user sample_user config sample_entry) w'"
    unfolding sample_verify_def
    by (intro filedb.verify_returns)
      (use sample_get sample_user_ok [OF assms(1)] assms(2) hotp_robust.robust_card_module_axioms sample_idle sample_request_ok
        in \<open>auto simp: max_defs\<close>)
  then show ?thesis by blast
qed

lemma sample_stored:
  assumes "state_get sample_env config u st0 stored_world = COk (Some st, w1)" and "u_username u = ''joe''"
    and "c_state_mode config = SMODE_LOCAL" and "c_statedir config = ''d''"
  shows "same_state st sample_state"
proof (rule state_get_local_stored)
  show "state_get_local sample_env config u (st0\<lparr>s_locked := False\<rparr>) stored_world = COk (Some st, w1)"
    using assms(1,3) by (simp add: state_get_def)
  have "state_filename ''d'' ''joe'' = ''d/joe''" by code_simp
  moreover have "state_unparse u sample_state = state_unparse sample_user sample_state"
    using assms(2) by (simp add: state_unparse_def sample_user_def)
  ultimately show "w_fs stored_world (state_filename (c_statedir config) (u_username u)) = Some (add_newline (state_unparse u sample_state))"
    using assms(2,4) by (simp add: stored_world_def)
  show "state_wf sample_state" by (simp add: state_wf_def sample_state_def state_zero_def max_defs)
qed (use assms(2) in simp)

text \<open>The passcode 000008 after the PIN 1234 is accepted on the stored counter 7.\<close>

lemma sample_accepts: "\<exists>reply' w'. sample_verify sample_config ''1234000008'' = COk (reply', w') \<and> y_rc reply' = OTP_RC_OK"
proof -
  have "case sample_verify sample_config ''1234000008'' of COk (r, w) \<Rightarrow> y_rc r = OTP_RC_OK | _ \<Rightarrow> False" by code_simp
  then show ?thesis by (auto split: cres.splits)
qed

lemma sample_rejects:
  "\<exists>reply' w'. sample_verify (sample_config\<lparr>c_rwindow_size := 1\<rparr>) ''1234999999'' = COk (reply', w')
     \<and> y_rc reply' = OTP_RC_AUTH_ERR \<and> w' \<noteq> stored_world"
proof -
  have "case sample_verify (sample_config\<lparr>c_rwindow_size := 1\<rparr>) ''1234999999'' of
      COk (r, w) \<Rightarrow> y_rc r = OTP_RC_AUTH_ERR \<and> w_fs w ''d/joe'' \<noteq> w_fs stored_world ''d/joe'' | _ \<Rightarrow> False"
    by code_simp
  then show ?thesis by (auto split: cres.splits)
qed

section \<open>Properties\<close>



text \<open>
  C2: hard lockout. Once the stored failure count has reached \<open>hardfail\<close>, no passcode whatsoever is
  accepted for a user without a static password.
\<close>

theorem verify_locked_out:
  assumes "uo_get uo (r_username request) config (k_now clk) = COk user" and "u_password user = None"
    and "set cardops \<subseteq> otpd_modules cr'" and "length challenge0 = OTP_MAX_CHALLENGE_LEN"
    and "c_hardfail config \<noteq> 0"
    and "\<And>tmo u k st w1. u_username u = u_username user \<Longrightarrow>
      state_get env (config\<lparr>c_timeout := tmo\<rparr>) u (state_zero\<lparr>s_scratch1 := k\<rparr>) w = COk (Some st, w1) \<Longrightarrow>
      c_hardfail config \<le> s_failcount st"
    and "verify cr cardops uo env clk challenge0 config request reply w = COk (reply', w')"
  shows "y_rc reply' \<noteq> OTP_RC_OK"
proof
  assume "y_rc reply' = OTP_RC_OK"
  then obtain co v st w1 v' where r: "card_module co"
    "state_get env (config\<lparr>c_timeout := v_timeout (charge (k_hr1 clk) v)\<rparr>) (v_user v) (v_state v) w = COk (Some st, w1)"
    "vinv (v_user v) st ((charge (k_hr1 clk) v)\<lparr>v_state := st\<rparr>)"
    "verify_state cr config request clk co ((charge (k_hr1 clk) v)\<lparr>v_state := st\<rparr>) = VDone OTP_RC_OK v'"
    "verify_prepare cr config request co (start_vars clk challenge0 config request user) = VNext v"
    using verify_ok_run [OF assms(1-4,7)] by metis
  obtain k where "v_state v = state_zero\<lparr>s_scratch1 := k\<rparr>" "u_username (v_user v) = u_username user"
    using card_module.verify_prepare_result [OF r(1,5)] by auto
  with assms(6) r(2) have "c_hardfail config \<le> s_failcount st" by simp
  with verify_state_ok [OF r(4,1,3)] assms(5) show False by auto
qed

theorem verify_locked_out_witness:
  "\<exists>reply' w'. sample_verify (sample_config\<lparr>c_hardfail := 2\<rparr>) ''1234000008'' = COk (reply', w') \<and> y_rc reply' \<noteq> OTP_RC_OK"
proof -
  let ?config = "sample_config\<lparr>c_hardfail := 2\<rparr>"
  obtain reply' w' where run: "sample_verify ?config ''1234000008'' = COk (reply', w')"
    using sample_returns [of ?config "''1234000008''"] by auto
  have "c_hardfail ?config \<le> s_failcount st"
    if "u_username u = ''joe''" "state_get sample_env (?config\<lparr>c_timeout := tmo\<rparr>) u st0 stored_world = COk (Some st, w1)" for tmo u st0 st w1
    using sample_stored [OF that(2,1)] by (simp add: same_state_def sample_state_def)
  then have "y_rc reply' \<noteq> OTP_RC_OK"
    by (intro verify_locked_out [OF sample_request_get _ sample_cards(1) _ _ _ run [unfolded sample_verify_def]])
      (auto simp: max_defs)
  with run show ?thesis by blast
qed







text \<open>
  C15: the delay of the soft failure mode. From \<open>softfail\<close> failures on, a user is in soft failure for 64
  seconds after the last attempt, and for twice as long with every further failure, up to 2048
  seconds; below \<open>softfail\<close> failures, and after the delay, no failure condition holds.
\<close>

theorem softfail_delay:
  assumes "c_hardfail config = 0" and "\<not> s_nullstate st" and "c_softfail config \<noteq> 0"
    and "unat (s_failcount st) < 2 ^ 31" and "0 \<le> k_now clk" and "k_now clk < 2 ^ 31"
    and "unat (s_authtime st) < 2 ^ 31"
  shows "failcondition_of config clk st = Some
    (if unat (c_softfail config) \<le> unat (s_failcount st)
        \<and> k_now clk < int (unat (s_authtime st)) + 64 * 2 ^ min 5 (unat (s_failcount st) - unat (c_softfail config))
     then OTP_FC_FAIL_SOFT else OTP_FC_FAIL_NONE)"
proof (cases "c_softfail config \<le> s_failcount st")
  case True
  define f where "f = unat (s_failcount st) - unat (c_softfail config)"
  have le: "unat (c_softfail config) \<le> unat (s_failcount st)" using True by (simp add: word_le_nat_alt)
  have diff: "s_failcount st - c_softfail config = word_of_nat f"
    using le by (simp add: f_def of_nat_diff)
  have "int f < 2 ^ 31" using assms(4) by (simp add: f_def)
  then have fc: "sint (s_failcount st - c_softfail config) = int f"
    unfolding diff by (simp add: signed_of_nat signed_take_bit_int_eq_self)
  define d where "d = (if 5 < f then push_bit 6 32 else push_bit 6 (push_bit f 1) :: u32)"
  have "f \<in> {0, 1, 2, 3, 4, 5} \<or> 5 < f" by auto
  then have d: "unat d = 64 * 2 ^ min 5 f" by (elim disjE insertE) (simp_all add: d_def)
  have "(2 :: nat) ^ min 5 f \<le> 2 ^ 5" by (intro power_increasing) simp_all
  then have sum: "unat (s_authtime st + d) = unat (s_authtime st) + 64 * 2 ^ min 5 f"
    using assms(7) by (simp only: unat_word_ariths d) simp
  have now: "unat (word_of_int (k_now clk) :: u32) = nat (k_now clk)"
    using assms(5,6) by (simp add: unat_eq_nat_uint uint_word_of_int)
  have "(word_of_int (k_now clk) :: u32) < s_authtime st + d \<longleftrightarrow> k_now clk < int (unat (s_authtime st)) + 64 * 2 ^ min 5 f"
    using assms(5) by (simp add: word_less_nat_alt sum now nat_less_iff)
  moreover have "softfail_nextauth (c_softfail config) st = Some (s_authtime st + d)"
    by (simp add: softfail_nextauth_def fc Let_def d_def)
  ultimately show ?thesis
    using assms(1-3) True le by (simp add: failcondition_of_def f_def [symmetric])
next
  case False
  then show ?thesis using assms(1-3) by (simp add: failcondition_of_def word_le_nat_alt)
qed

theorem softfail_delay_witness:
  "failcondition_of (sample_config\<lparr>c_softfail := 2\<rparr>) sample_clock (state_zero\<lparr>s_failcount := 3, s_authtime := 90\<rparr>) = Some OTP_FC_FAIL_SOFT"
  using softfail_delay [of "sample_config\<lparr>c_softfail := 2\<rparr>" "state_zero\<lparr>s_failcount := 3, s_authtime := 90\<rparr>" sample_clock]
  by (simp add: sample_config_def sample_clock_def state_zero_def)

text \<open>
  The soft failure delay does not reach time based cards. For TOTP and C200 cards
  \<open>isconsecutive\<close> answers 1 for every passcode, which \<open>verify\<close> takes for the second of two consecutive
  passcodes: a valid passcode in soft failure is accepted as soon as the clock has moved past the
  last attempt.
\<close>

theorem time_cards_ignore_softfail:
  assumes "co = totp_cardops cr \<or> co = c200_cardops cr" and "s_authtime st < word_of_int (k_now clk)"
  shows "sync_rc config clk co OTP_FC_FAIL_SOFT user st e = OTP_RC_OK"
  using assms by (auto simp: sync_rc_def totp_isconsecutive_def c200_isconsecutive_def)

theorem time_cards_ignore_softfail_witness:
  "sync_rc sample_config sample_clock (totp_cardops sample_crypto) OTP_FC_FAIL_SOFT sample_user state_zero 0 = OTP_RC_OK"
  by (rule time_cards_ignore_softfail [where cr = sample_crypto]) (simp_all add: state_zero_def sample_clock_def)

text \<open>
  C39: the static password override. A static password that does not start with \<open>{MD5\<close>, in particular one in
  clear text, is never compared with the passcode: the result depends on the MD5 hash of the passcode
  and the user's stored hash alone. A password that does start with \<open>{MD5\<close> is checked with SHA-1.
\<close>

theorem static_password_inverted:
  assumes "uo_get uo (r_username request) config (k_now clk) = COk user" and "u_password user = Some password"
    and "r_pwe request = PWE_PAP" and "find_cardops cardops (u_card user) = Some co"
    and "\<And>u. uo_put uo u = COk ()"
  shows "verify cr cardops uo env clk challenge0 config request reply w = COk (reply\<lparr>y_rc :=
    (if (if strneq password ''{MD5'' 4 then take 20 (u_password_hash user) = sha1 cr (bytes_of (r_passcode request))
         else take 16 (u_password_hash user) = md5 cr (bytes_of (r_passcode request)))
     then OTP_RC_OK else OTP_RC_AUTH_ERR)\<rparr>, w)"
proof -
  have "strneq password ''{MD5'' 4 \<Longrightarrow> \<not> strneq password ''{SHA'' 4" by (auto simp: strneq_def)
  then have "static_password cr request (start_vars clk challenge0 config request user) = VErr
      (if (if strneq password ''{MD5'' 4 then take 20 (u_password_hash user) = sha1 cr (bytes_of (r_passcode request))
           else take 16 (u_password_hash user) = md5 cr (bytes_of (r_passcode request)))
       then OTP_RC_OK else OTP_RC_AUTH_ERR) (start_vars clk challenge0 config request user)"
    using assms(2,3) by (simp add: static_password_def Let_def)
  then show ?thesis
    using assms(1,4,5)
    by (simp add: verify_def verify_card_def verify_prepare_def verify_exit_def auth_done_service_err_def state_zero_def Let_def)
qed

theorem static_password_inverted_witness:
  "\<exists>uo. u_password (sample_user\<lparr>u_password := Some ''secret''\<rparr>) = Some ''secret''
     \<and> uo_get uo ''joe'' sample_config 100 = COk (sample_user\<lparr>u_password := Some ''secret''\<rparr>)
     \<and> verify sample_crypto [hotp_cardops sample_crypto] uo sample_env sample_clock [] sample_config
         (sample_request\<lparr>r_passcode := ''secret''\<rparr>) sample_reply sample_world = COk (sample_reply\<lparr>y_rc := OTP_RC_AUTH_ERR\<rparr>, sample_world)"
proof -
  let ?user = "sample_user\<lparr>u_password := Some ''secret''\<rparr>"
  let ?uo = "\<lparr>uo_get = \<lambda>name config now. COk ?user, uo_put = \<lambda>u. COk ()\<rparr>"
  let ?request = "sample_request\<lparr>r_passcode := ''secret''\<rparr>"
  have "strncaseeq ''hotp'' ''hotp-d6'' 4" "\<not> strneq ''secret'' ''{MD5'' 4" by code_simp+
  moreover have "find_cardops [hotp_cardops sample_crypto] (u_card ?user) = Some (hotp_cardops sample_crypto)"
    using calculation(1) by (simp add: find_cardops_def sample_user_def hotp_cardops_def)
  ultimately show ?thesis
    using static_password_inverted [of ?uo ?request sample_config sample_clock ?user "''secret''" "[hotp_cardops sample_crypto]"
      "hotp_cardops sample_crypto" sample_crypto sample_env "[]" sample_reply sample_world]
    by (intro exI [of _ ?uo]) (simp add: sample_request_def sample_user_def sample_crypto_def)
qed

end
