(* ===== verification/Otpd_Work_Thread.thy ===== *)
theory Otpd_Work_Thread
  imports Otpd_Verify_Props
begin

text \<open>
  The work thread, \<^verbatim>\<open>src/work_thread.c\<close>: it serves the requests of one plugin connection, one after the
  other. A request is read in the size of its version, a version 1 request is converted, the request
  is validated, verified and answered.

  The memory layout of the structures is the compiler's and a parameter (\<open>abi_t\<close>): their sizes and the
  functions that read and write their members; an \<open>int\<close> has four octets. What one request meets in its
  environment is the record \<open>turn_t\<close>.
\<close>

section \<open>Definitions\<close>

text \<open>A request as it is in memory: the character arrays with all their characters.\<close>

record wire_t =
  q_username :: string       \<comment> \<open>32 characters\<close>
  q_challenge :: string      \<comment> \<open>17 characters\<close>
  q_pwe :: otp_pwe_t
  q_passcode :: string       \<comment> \<open>48 characters\<close>
  q_chap_challenge :: "byte list"
  q_chap_clen :: nat
  q_chap_response :: "byte list"
  q_chap_rlen :: nat
  q_allow_async :: bool
  q_allow_sync :: bool
  q_challenge_delay :: u32
  q_resync :: bool

text \<open>
  \<open>get_request\<close> reads a \<open>otp_request_t\<close>, \<open>get_request_v1\<close> the members of a \<open>otp_request_v1_t\<close> after the
  version, which the code leaves in the other structure.
\<close>

record abi_t =
  sizeof_request :: nat
  sizeof_request_v1 :: nat
  get_version :: "byte list \<Rightarrow> int"
  get_request :: "byte list \<Rightarrow> wire_t"
  get_request_v1 :: "byte list \<Rightarrow> wire_t"
  put_reply :: "otp_reply_t \<Rightarrow> string"

text \<open>
  \<open>t_union\<close>: how the members of the union read that a conversion does not write; \<open>t_writes\<close>: the outcomes
  of the \<open>write\<close> calls for the reply.
\<close>

record turn_t =
  t_env :: env_t
  t_clock :: clock_t
  t_challenge :: "byte list"
  t_union :: wire_t
  t_writes :: "write_ev list"

subsection \<open>Reading a request\<close>

text \<open>
  The loop \<open>while (nread < n)\<close>, on the outcomes of the \<open>read\<close> calls and the octets the plugin sends
  before it closes. \<open>None\<close>: an error or the end of the connection, which both end the thread.
\<close>

fun read_exact :: "read_ev list \<Rightarrow> nat \<Rightarrow> byte list \<Rightarrow> (byte list \<times> read_ev list \<times> byte list) option" where
  "read_exact [] n stream = (if length stream < n then None else Some (take n stream, [], drop n stream))"
| "read_exact (ev # evs) n stream =
     (if n = 0 then Some ([], ev # evs, stream)
      else if stream = [] then None
      else case ev of
        ReadErr \<Rightarrow> None
      | ReadAgain \<Rightarrow> None
      | ReadN k \<Rightarrow>
          let r = min (Suc k) (min n (length stream))
          in map_option (\<lambda>(bs, rest). (take r stream @ bs, rest)) (read_exact evs (n - r) (drop r stream)))"

text \<open>The conversion to version 2: of the union, only the members of the request's kind are copied.\<close>

definition convert_v1 :: "wire_t \<Rightarrow> wire_t \<Rightarrow> wire_t" where
  "convert_v1 other request_v1 =
     (if q_pwe request_v1 = PWE_PAP
      then request_v1\<lparr>q_chap_challenge := q_chap_challenge other, q_chap_clen := q_chap_clen other,
                      q_chap_response := q_chap_response other, q_chap_rlen := q_chap_rlen other\<rparr>
      else request_v1\<lparr>q_passcode := q_passcode other\<rparr>)"

definition read_request :: "abi_t \<Rightarrow> wire_t \<Rightarrow> read_ev list \<Rightarrow> byte list \<Rightarrow> (wire_t \<times> read_ev list \<times> byte list) option" where
  "read_request abi other evs stream =
     (case read_exact evs 4 stream of
        None \<Rightarrow> None
      | Some (vb, evs, stream) \<Rightarrow>
          if get_version abi vb = 2
          then map_option (\<lambda>(bs, rest). (get_request abi (vb @ bs), rest)) (read_exact evs (sizeof_request abi - 4) stream)
          else if get_version abi vb = 1
          then map_option (\<lambda>(bs, rest). (convert_v1 other (get_request_v1 abi bs), rest))
                 (read_exact evs (sizeof_request_v1 abi - 4) stream)
          else None)"

subsection \<open>Validation\<close>

datatype validity = Invalid | BadFlags | Valid otp_request_t

definition request_of :: "wire_t \<Rightarrow> otp_request_t" where
  "request_of q = \<lparr>r_version = 2, r_username = cstr (q_username q), r_challenge = cstr (q_challenge q), r_pwe = q_pwe q,
     r_passcode = cstr (q_passcode q), r_chap_challenge = q_chap_challenge q, r_chap_clen = q_chap_clen q,
     r_chap_response = q_chap_response q, r_chap_rlen = q_chap_rlen q, r_allow_async = q_allow_async q,
     r_allow_sync = q_allow_sync q, r_challenge_delay = q_challenge_delay q, r_resync = q_resync q\<rparr>"

definition username_charset :: "string \<Rightarrow> bool" where
  "username_charset u \<longleftrightarrow> u \<noteq> ''!'' \<and> CHR ''='' \<notin> set u \<and> CHR ''<'' \<notin> set u \<and> CHR ''>'' \<notin> set u
     \<and> CHR ''*'' \<notin> set u \<and> CHR ''~'' \<notin> set u"

definition validate :: "wire_t \<Rightarrow> validity" where
  "validate q =
     (if q_username q ! OTP_MAX_USERNAME_LEN \<noteq> NUL then Invalid
      else if \<not> username_charset (cstr (q_username q)) then Invalid
      else if q_challenge q ! OTP_MAX_CHALLENGE_LEN \<noteq> NUL then Invalid
      else case q_pwe q of
        PWE_PAP \<Rightarrow> if q_passcode q ! OTP_MAX_PASSCODE_LEN \<noteq> NUL then Invalid else Valid (request_of q)
      | PWE_CHAP \<Rightarrow>
          if 16 < q_chap_clen q then Invalid
          else if q_chap_rlen q \<noteq> 17 then Invalid else Valid (request_of q)
      | PWE_MSCHAP \<Rightarrow>
          if q_chap_clen q \<noteq> 8 then Invalid
          else if q_chap_rlen q \<noteq> 50 then Invalid
          else if q_chap_response q ! 1 \<noteq> 1 then BadFlags else Valid (request_of q)
      | PWE_MSCHAP2 \<Rightarrow>
          if q_chap_clen q \<noteq> 16 then Invalid
          else if q_chap_rlen q \<noteq> 50 then Invalid else Valid (request_of q)
      | PWE_OTHER \<Rightarrow> Invalid)"

subsection \<open>The loop\<close>

text \<open>
  One request after it was read: \<open>None\<close> where the thread ends without a reply. The configuration, with
  the original timeout, is the same for every request, and so is the reply structure, which keeps what
  the request before left in it.
\<close>

definition handle_request :: "crypto \<Rightarrow> cardops_t list \<Rightarrow> userops_t \<Rightarrow> config_t \<Rightarrow> turn_t \<Rightarrow> wire_t \<Rightarrow> otp_reply_t \<Rightarrow> world_t \<Rightarrow>
    (otp_reply_t \<times> world_t) option cres" where
  "handle_request cr cardops uo config turn q reply w = (case validate q of
     Invalid \<Rightarrow> COk None
   | BadFlags \<Rightarrow> COk (Some (reply\<lparr>y_rc := OTP_RC_AUTH_ERR\<rparr>, w))
   | Valid request \<Rightarrow>
       cbind (verify cr cardops uo (t_env turn) (t_clock turn) (t_challenge turn) config request reply w) (\<lambda>r. COk (Some r)))"

lemma read_exact_length:
  "read_exact evs n stream = Some (bs, evs', rest) \<Longrightarrow> stream = bs @ rest \<and> length bs = n"
proof (induction evs arbitrary: n stream bs)
  case (Cons ev evs)
  show ?case
  proof (cases "n = 0")
    case False
    then obtain k bs' where ev: "ev = ReadN k" and r: "read_exact evs (n - min (Suc k) (min n (length stream)))
        (drop (min (Suc k) (min n (length stream))) stream) = Some (bs', evs', rest)"
      and bs: "bs = take (min (Suc k) (min n (length stream))) stream @ bs'"
      using Cons.prems by (auto simp: Let_def split: if_splits read_ev.splits)
    define m where "m = min (Suc k) (min n (length stream))"
    have m: "m \<le> n" "m \<le> length stream" by (auto simp: m_def)
    have "drop m stream = bs' @ rest \<and> length bs' = n - m" using Cons.IH r unfolding m_def by blast
    with bs m show ?thesis
      unfolding m_def [symmetric] by (metis append_take_drop_id append_assoc length_append length_take min_absorb2 le_add_diff_inverse)
  qed (use Cons.prems in auto)
qed (auto split: if_splits)

lemma read_request_length: "read_request abi other evs stream = Some (q, evs', rest) \<Longrightarrow> length rest < length stream"
  by (auto simp: read_request_def split: option.splits if_splits dest!: read_exact_length)

text \<open>\<open>work_thread\<close>: the octets written for each request, and the world at the end.\<close>

function work_loop :: "abi_t \<Rightarrow> crypto \<Rightarrow> cardops_t list \<Rightarrow> userops_t \<Rightarrow> config_t \<Rightarrow> (nat \<Rightarrow> turn_t) \<Rightarrow> nat \<Rightarrow>
    read_ev list \<Rightarrow> byte list \<Rightarrow> otp_reply_t \<Rightarrow> world_t \<Rightarrow> (string list \<times> world_t) cres" where
  "work_loop abi cr cardops uo config turns i evs stream reply w =
     (case read_request abi (t_union (turns i)) evs stream of
        None \<Rightarrow> COk ([], w)
      | Some (q, evs', stream') \<Rightarrow>
          cbind (handle_request cr cardops uo config (turns i) q reply w) (\<lambda>r. case r of
            None \<Rightarrow> COk ([], w)
          | Some (reply, w) \<Rightarrow>
              (case xwrite (t_writes (turns i)) (put_reply abi reply) of
                 (written, ok) \<Rightarrow>
                   if ok then cbind (work_loop abi cr cardops uo config turns (i + 1) evs' stream' reply w)
                                (\<lambda>(out, w). COk (written # out, w))
                   else COk ([written], w))))"
  by pat_completeness auto

termination
  by (relation "measure (\<lambda>(_, _, _, _, _, _, _, _, stream, _). length stream)") (auto dest!: read_request_length)

definition reply_init :: otp_reply_t where
  "reply_init = \<lparr>y_version = 1, y_rc = OTP_RC_OK, y_passcode = []\<rparr>"

definition work_thread :: "abi_t \<Rightarrow> crypto \<Rightarrow> cardops_t list \<Rightarrow> userops_t \<Rightarrow> config_t \<Rightarrow> (nat \<Rightarrow> turn_t) \<Rightarrow>
    read_ev list \<Rightarrow> byte list \<Rightarrow> world_t \<Rightarrow> (string list \<times> world_t) cres" where
  "work_thread abi cr cardops uo config turns evs stream w =
     work_loop abi cr cardops uo config turns 0 evs stream reply_init w"

subsection \<open>Sample values\<close>

definition sample_wire :: wire_t where
  "sample_wire = \<lparr>q_username = ''joe'' @ replicate 29 NUL, q_challenge = replicate 17 NUL, q_pwe = PWE_PAP,
     q_passcode = ''1234999999'' @ replicate 38 NUL, q_chap_challenge = [], q_chap_clen = 0, q_chap_response = [],
     q_chap_rlen = 0, q_allow_async = True, q_allow_sync = True, q_challenge_delay = 0, q_resync = False\<rparr>"

definition sample_abi :: abi_t where
  "sample_abi = \<lparr>sizeof_request = 8, sizeof_request_v1 = 8, get_version = (\<lambda>bs. int (unat (bs ! 0))),
     get_request = (\<lambda>bs. sample_wire), get_request_v1 = (\<lambda>bs. sample_wire), put_reply = y_passcode\<rparr>"

definition sample_turn :: turn_t where
  "sample_turn = \<lparr>t_env = sample_env, t_clock = sample_clock, t_challenge = replicate 16 0, t_union = sample_wire, t_writes = []\<rparr>"

section \<open>Lemmas\<close>

declare work_loop.simps [simp del]

lemma cstr_terminated: "i < length s \<Longrightarrow> s ! i = NUL \<Longrightarrow> length (cstr s) \<le> i"
  unfolding cstr_def by (rule ccontr) (metis (full_types) not_le nth_mem set_takeWhileD takeWhile_nth)

text \<open>Reads without an error give what was asked for, however the octets arrive.\<close>

definition error_free :: "read_ev list \<Rightarrow> bool" where
  "error_free evs \<longleftrightarrow> ReadErr \<notin> set evs \<and> ReadAgain \<notin> set evs"

lemma read_exact_error_free:
  "error_free evs \<Longrightarrow> \<exists>evs'. error_free evs' \<and>
     read_exact evs n stream = (if length stream < n then None else Some (take n stream, evs', drop n stream))"
proof (induction evs arbitrary: n stream)
  case (Cons ev evs)
  show ?case
  proof (cases "n = 0 \<or> stream = []")
    case True
    with Cons.prems show ?thesis by auto
  next
    case False
    obtain k where ev: "ev = ReadN k" using Cons.prems by (cases ev) (auto simp: error_free_def)
    define m where "m = min (Suc k) (min n (length stream))"
    have m: "m \<le> n" "m \<le> length stream" by (auto simp: m_def)
    obtain evs' where "error_free evs'" and r: "read_exact evs (n - m) (drop m stream) =
        (if length (drop m stream) < n - m then None else Some (take (n - m) (drop m stream), evs', drop (n - m) (drop m stream)))"
      using Cons.IH [of "n - m" "drop m stream"] Cons.prems by (auto simp: error_free_def)
    moreover have "take m stream @ take (n - m) (drop m stream) = take n stream"
      using m by (metis take_add le_add_diff_inverse)
    moreover have "length stream - m < n - m \<longleftrightarrow> length stream < n" using m by auto
    ultimately show ?thesis
      using False m by (intro exI [of _ evs']) (simp add: ev m_def [symmetric] Let_def)
  qed
qed (auto intro!: exI [of _ "[]"] simp: error_free_def)

lemma read_request_error_free:
  assumes "error_free evs"
  shows "\<exists>evs'. error_free evs' \<and> read_request abi other evs stream =
    map_option (\<lambda>(q, _, rest). (q, evs', rest)) (read_request abi other [] stream)"
proof -
  obtain e1 where e1: "error_free e1" "read_exact evs 4 stream = (if length stream < 4 then None else Some (take 4 stream, e1, drop 4 stream))"
    using read_exact_error_free [OF assms, of 4 stream] by blast
  define n where "n = (if get_version abi (take 4 stream) = 2 then sizeof_request abi - 4 else sizeof_request_v1 abi - 4)"
  obtain e2 where "error_free e2" "read_exact e1 n (drop 4 stream) =
      (if length (drop 4 stream) < n then None else Some (take n (drop 4 stream), e2, drop n (drop 4 stream)))"
    using read_exact_error_free [OF e1(1), of n "drop 4 stream"] by blast
  with e1(2) show ?thesis
    by (intro exI [of _ e2]) (simp add: read_request_def n_def split: if_splits)
qed

lemma work_loop_error_free:
  "error_free evs \<Longrightarrow> error_free evs' \<Longrightarrow>
     work_loop abi cr cardops uo config turns i evs stream reply w = work_loop abi cr cardops uo config turns i evs' stream reply w"
proof (induction "length stream" arbitrary: i evs evs' stream reply w rule: less_induct)
  case less
  let ?other = "t_union (turns i)"
  obtain e where e: "error_free e" "read_request abi ?other evs stream = map_option (\<lambda>(q, _, rest). (q, e, rest)) (read_request abi ?other [] stream)"
    using read_request_error_free [OF less.prems(1)] by blast
  obtain e' where e': "error_free e'" "read_request abi ?other evs' stream = map_option (\<lambda>(q, _, rest). (q, e', rest)) (read_request abi ?other [] stream)"
    using read_request_error_free [OF less.prems(2)] by blast
  show ?case
  proof (cases "read_request abi ?other [] stream")
    case None
    with e(2) e'(2) show ?thesis by (simp add: work_loop.simps)
  next
    case (Some qr)
    then obtain q x rest where qr: "read_request abi ?other [] stream = Some (q, x, rest)" by (cases qr) auto
    have "work_loop abi cr cardops uo config turns (i + 1) e rest reply' w'
        = work_loop abi cr cardops uo config turns (i + 1) e' rest reply' w'" for reply' w'
      using less.hyps [OF read_request_length [OF qr] e(1) e'(1)] .
    with e(2) e'(2) qr show ?thesis
      by (cases "handle_request cr cardops uo config (turns i) q reply w")
        (auto simp: work_loop.simps [of abi cr cardops uo config turns i] split: option.split prod.split)
  qed
qed

lemma verify_exit_passcode:
  assumes "verify_exit uo env config clk reply r w = COk (reply', w')"
    and "y_rc reply' \<noteq> OTP_RC_OK" and "y_rc reply' \<noteq> OTP_RC_SERVICE_ERR"
  shows "y_passcode reply' = y_passcode reply"
proof (cases r)
  case (VDone rc v)
  have "rc' = rc \<or> rc' = OTP_RC_SERVICE_ERR" if "auth_done_service_err env config clk rc v' w = COk (rc', w')" for rc' v'
    using that by (auto simp: auth_done_service_err_def verify_put_def Let_def split: if_splits)
  with assms VDone show ?thesis
    by (auto simp: verify_exit_def auth_done_def Let_def split: if_splits) blast
qed (use assms in \<open>auto simp: verify_exit_def Let_def\<close>)

lemma verify_passcode:
  assumes "verify cr cardops uo env clk challenge0 config request reply w = COk (reply', w')"
    and "y_rc reply' \<noteq> OTP_RC_OK" and "y_rc reply' \<noteq> OTP_RC_SERVICE_ERR"
  shows "y_passcode reply' = y_passcode reply"
  using assms(1)
  by (auto simp: verify_def verify_no_user_def verify_card_def Let_def
      split: cres.splits option.splits vres.splits if_splits dest: verify_exit_passcode [OF _ assms(2,3)])

text \<open>The sizes of the character arrays.\<close>

definition wire_ok :: "wire_t \<Rightarrow> bool" where
  "wire_ok q \<longleftrightarrow> length (q_username q) = OTP_MAX_USERNAME_LEN + 1 \<and> length (q_challenge q) = OTP_MAX_CHALLENGE_LEN + 1
     \<and> length (q_passcode q) = OTP_MAX_PASSCODE_LEN + 1"

lemma validate_request_ok: "validate q = Valid request \<Longrightarrow> wire_ok q \<Longrightarrow> request_ok request"
  using cstr_terminated [of OTP_MAX_CHALLENGE_LEN "q_challenge q"]
  by (auto simp: validate_def wire_ok_def request_of_def request_ok_def max_defs split: if_splits otp_pwe_t.splits)

lemma read_request_wire_ok:
  assumes "\<And>bs. wire_ok (get_request abi bs)" and "\<And>bs. wire_ok (get_request_v1 abi bs)" and "wire_ok other"
    and "read_request abi other evs stream = Some (q, evs', rest)"
  shows "wire_ok q"
proof -
  have "wire_ok (convert_v1 other q1)" if "wire_ok q1" for q1
    using that assms(3) by (simp add: convert_v1_def wire_ok_def)
  with assms show ?thesis by (auto simp: read_request_def split: option.splits if_splits)
qed

text \<open>With no lock held, every user is idle.\<close>

lemma idle_all: "idle (\<lambda>b. []) n u w = idle (\<lambda>b. []) n u' w"
  by (simp add: idle_def)

lemma handle_request_returns:
  assumes "set cardops \<subseteq> {hotp_cardops cr', totp_cardops cr', c200_cardops cr'}"
    and "\<And>name now. file_get penv tuser name config now \<noteq> CFault"
    and "\<And>name now user. file_get penv tuser name config now = COk user \<Longrightarrow> user_ok config user"
    and "length (t_challenge turn) = OTP_MAX_CHALLENGE_LEN" and "wire_ok q" and "c_softfail config = 0" and "idle (\<lambda>b. []) n u w"
  shows "\<exists>r. handle_request cr cardops (userops_file penv tuser) config turn q reply w = COk r
    \<and> (\<forall>reply' w'. r = Some (reply', w') \<longrightarrow> idle (\<lambda>b. []) n u w')"
proof (cases "validate q")
  case (Valid request)
  have "\<exists>reply' w'. verify cr cardops (userops_file penv tuser) (t_env turn) (t_clock turn) (t_challenge turn) config request reply w
      = COk (reply', w') \<and> idle (\<lambda>b. []) n (u\<lparr>u_username := r_username request\<rparr>) w'"
  proof (rule filedb.verify_returns)
    show "\<forall>co \<in> set cardops. robust_card_module co" using assms(1) robust_modules by blast
    show "request_ok request" using validate_request_ok [OF Valid assms(5)] .
    show "idle (\<lambda>b. []) n (u\<lparr>u_username := r_username request\<rparr>) w" using assms(7) idle_all by blast
  qed (use assms in \<open>simp_all add: userops_file_def\<close>)
  then obtain reply' w' where "verify cr cardops (userops_file penv tuser) (t_env turn) (t_clock turn) (t_challenge turn) config request reply w
      = COk (reply', w')" "idle (\<lambda>b. []) n u w'" using idle_all by metis
  with Valid show ?thesis by (simp add: handle_request_def)
qed (use assms(7) in \<open>simp_all add: handle_request_def\<close>)

lemma work_loop_no_leak:
  assumes "set cardops \<subseteq> {hotp_cardops cr', totp_cardops cr', c200_cardops cr'}"
    and "\<And>name now. file_get penv tuser name config now \<noteq> CFault"
    and "\<And>name now user. file_get penv tuser name config now = COk user \<Longrightarrow> user_ok config user"
    and "\<And>i. length (t_challenge (turns i)) = OTP_MAX_CHALLENGE_LEN"
    and "\<And>bs. wire_ok (get_request abi bs)" and "\<And>bs. wire_ok (get_request_v1 abi bs)" and "\<And>i. wire_ok (t_union (turns i))"
    and "c_softfail config = 0" and "idle (\<lambda>b. []) n u w"
  shows "\<exists>out w'. work_loop abi cr cardops (userops_file penv tuser) config turns i evs stream reply w = COk (out, w') \<and> idle (\<lambda>b. []) n u w'"
  using assms(9)
proof (induction "length stream" arbitrary: i evs stream reply w rule: less_induct)
  case less
  show ?case
  proof (cases "read_request abi (t_union (turns i)) evs stream")
    case None
    with less.prems show ?thesis by (simp add: work_loop.simps)
  next
    case (Some qr)
    then obtain q evs' rest where q: "read_request abi (t_union (turns i)) evs stream = Some (q, evs', rest)" by (cases qr) auto
    have "wire_ok q" using read_request_wire_ok [OF assms(5,6,7) q] .
    have "\<exists>r. handle_request cr cardops (userops_file penv tuser) config (turns i) q reply w = COk r
        \<and> (\<forall>reply' w'. r = Some (reply', w') \<longrightarrow> idle (\<lambda>b. []) n u w')"
      by (rule handle_request_returns [where cr' = cr']) (fact assms less.prems \<open>wire_ok q\<close>)+
    then obtain r where r: "handle_request cr cardops (userops_file penv tuser) config (turns i) q reply w = COk r"
      "\<forall>reply' w'. r = Some (reply', w') \<longrightarrow> idle (\<lambda>b. []) n u w'" by blast
    show ?thesis
    proof (cases r)
      case None
      with q r less.prems show ?thesis by (simp add: work_loop.simps)
    next
      case s: (Some rw)
      obtain reply' w' where rw: "rw = (reply', w')" by (cases rw)
      obtain out w2 where "work_loop abi cr cardops (userops_file penv tuser) config turns (i + 1) evs' rest reply' w' = COk (out, w2)"
        "idle (\<lambda>b. []) n u w2"
        using less.hyps [OF read_request_length [OF q]] r(2) s rw by blast
      with q r s rw show ?thesis
        by (auto simp: work_loop.simps [of abi cr cardops _ config turns i] split: prod.split)
    qed
  qed
qed

text \<open>The user name is only copied: every name that finds a line gets the same record.\<close>

lemma file_user_name:
  "file_user tuser config name s = cbind (file_user tuser config name' s) (\<lambda>u. COk (u\<lparr>u_username := name\<rparr>))"
  by (cases tuser) (simp add: file_user_def cbind_assoc Let_def case_prod_beta')

lemma sample_get_any:
  "file_get sample_passwd tuser name config now
     \<in> {CErr (- 1), COk ((entry_user tuser config sample_entry)\<lparr>u_username := name\<rparr>)}"
proof -
  have mode: "pe_mode sample_passwd AND loose_mode = 0" and wf: "entry_wf sample_entry" by code_simp+
  have "fgets 159 (entry_line sample_entry) = (entry_line sample_entry, [], False)"
    using fgets_line [of "entry_body sample_entry" 159 "[]"] entry_body_plain [OF wf] by (simp add: entry_line_def)
  then have "find_line name None (entry_line sample_entry) \<in> {COk None, COk (Some (entry_line sample_entry))}"
    using cstr_entry_line [OF wf] by (simp add: find_line.simps [of _ _ "entry_line sample_entry"] find_line.simps [of _ _ "[]"] Let_def)
  moreover have "file_user tuser config name (entry_line sample_entry)
      = COk ((entry_user tuser config sample_entry)\<lparr>u_username := name\<rparr>)"
    using file_user_name [of tuser config name "entry_line sample_entry" "e_user sample_entry"] file_user_entry [OF wf] by simp
  ultimately show ?thesis using mode by (auto simp: file_get_def sample_passwd_def)
qed

lemma sample_any_ok: "user_ok sample_config ((entry_user tuser sample_config sample_entry)\<lparr>u_username := name\<rparr>)"
  using sample_user_ok [of sample_config tuser] by (simp add: user_ok_def)

lemma sample_wire_ok [simp]: "wire_ok sample_wire"
  by (simp add: wire_ok_def sample_wire_def max_defs)

section \<open>Properties\<close>

text \<open>
  C11: what passes validation. A request that reaches \<open>verify\<close> has a user name of at most 31 characters
  without the characters that are special to the user databases, a challenge of at most 16 characters,
  and a passcode, challenge and response of the lengths that the comparison relies on.
\<close>

theorem validate_sound:
  assumes "validate q = Valid request" and "length (q_username q) = OTP_MAX_USERNAME_LEN + 1"
    and "length (q_challenge q) = OTP_MAX_CHALLENGE_LEN + 1" and "length (q_passcode q) = OTP_MAX_PASSCODE_LEN + 1"
  shows "request_ok request \<and> length (r_username request) \<le> OTP_MAX_USERNAME_LEN \<and> no_nul (r_username request)
    \<and> username_charset (r_username request) \<and> r_pwe request \<noteq> PWE_OTHER
    \<and> (r_pwe request = PWE_PAP \<longrightarrow> length (r_passcode request) \<le> OTP_MAX_PASSCODE_LEN)
    \<and> (r_pwe request = PWE_CHAP \<longrightarrow> r_chap_rlen request = 17)
    \<and> (r_pwe request = PWE_MSCHAP \<longrightarrow> r_chap_clen request = 8 \<and> r_chap_rlen request = 50 \<and> r_chap_response request ! 1 = 1)
    \<and> (r_pwe request = PWE_MSCHAP2 \<longrightarrow> r_chap_clen request = 16 \<and> r_chap_rlen request = 50)"
proof -
  have "q_username q ! OTP_MAX_USERNAME_LEN = NUL" "q_challenge q ! OTP_MAX_CHALLENGE_LEN = NUL"
    using assms(1) by (auto simp: validate_def split: if_splits)
  then have "length (cstr (q_username q)) \<le> OTP_MAX_USERNAME_LEN" "length (cstr (q_challenge q)) \<le> OTP_MAX_CHALLENGE_LEN"
    using assms(2,3) by (auto intro!: cstr_terminated)
  moreover have "q_pwe q = PWE_PAP \<Longrightarrow> length (cstr (q_passcode q)) \<le> OTP_MAX_PASSCODE_LEN"
    using assms(1,4) by (auto simp: validate_def intro!: cstr_terminated split: if_splits)
  ultimately show ?thesis
    using assms(1)
    by (cases "q_pwe q") (auto simp: validate_def request_of_def request_ok_def max_defs split: if_splits)
qed

theorem validate_sound_witness:
  "request_ok (request_of sample_wire) \<and> length (r_passcode (request_of sample_wire)) \<le> 47"
proof -
  have v: "validate sample_wire = Valid (request_of sample_wire)"
    by (simp add: validate_def sample_wire_def max_defs username_charset_def cstr_def nth_append)
  have "length (q_username sample_wire) = OTP_MAX_USERNAME_LEN + 1" "length (q_challenge sample_wire) = OTP_MAX_CHALLENGE_LEN + 1"
    "length (q_passcode sample_wire) = OTP_MAX_PASSCODE_LEN + 1"
    by (simp_all add: sample_wire_def max_defs)
  from validate_sound [OF v this] show ?thesis by (simp add: request_of_def sample_wire_def max_defs)
qed

text \<open>
  C17: the answers do not depend on how the requests arrive. As long as no \<open>read\<close> fails, a connection
  gets the same replies and leaves the same state behind whether its octets come one at a time or all
  at once.
\<close>

theorem work_thread_chunking:
  assumes "error_free evs"
  shows "work_thread abi cr cardops uo config turns evs stream w = work_thread abi cr cardops uo config turns [] stream w"
  unfolding work_thread_def by (rule work_loop_error_free [OF assms]) (simp add: error_free_def)

theorem work_thread_chunking_witness:
  "\<forall>config stream. work_thread sample_abi sample_crypto [hotp_cardops sample_crypto] (userops_file sample_passwd sample_user)
       config (\<lambda>i. sample_turn) [ReadN 0, ReadN 1, ReadN 0] stream stored_world
     = work_thread sample_abi sample_crypto [hotp_cardops sample_crypto] (userops_file sample_passwd sample_user)
       config (\<lambda>i. sample_turn) [] stream stored_world"
  by (intro allI work_thread_chunking) (simp add: error_free_def)



text \<open>
  The passcode in a reply may be somebody else's. A reply with any code other than \<open>OTP_RC_OK\<close> and
  \<open>OTP_RC_SERVICE_ERR\<close> carries the passcode that the reply before it on the same connection carried,
  since the structure is never cleared.
\<close>

theorem reply_keeps_passcode:
  assumes "handle_request cr cardops uo config turn q reply w = COk (Some (reply', w'))"
    and "y_rc reply' \<noteq> OTP_RC_OK" and "y_rc reply' \<noteq> OTP_RC_SERVICE_ERR"
  shows "y_passcode reply' = y_passcode reply"
  using assms verify_passcode
  by (auto simp: handle_request_def split: validity.splits)

theorem reply_keeps_passcode_witness:
  "y_passcode (reply_init\<lparr>y_rc := OTP_RC_AUTH_ERR, y_passcode := ''123456''\<rparr>) = ''123456''
   \<and> handle_request sample_crypto [] (userops_file sample_passwd sample_user) sample_config sample_turn
       (sample_wire\<lparr>q_pwe := PWE_MSCHAP, q_chap_clen := 8, q_chap_rlen := 50, q_chap_response := [0, 0]\<rparr>)
       (reply_init\<lparr>y_passcode := ''123456''\<rparr>) stored_world
     = COk (Some (reply_init\<lparr>y_rc := OTP_RC_AUTH_ERR, y_passcode := ''123456''\<rparr>, stored_world))"
proof -
  let ?q = "sample_wire\<lparr>q_pwe := PWE_MSCHAP, q_chap_clen := 8, q_chap_rlen := 50, q_chap_response := [0, 0]\<rparr>"
  have "validate ?q = BadFlags"
    by (simp add: validate_def sample_wire_def max_defs username_charset_def cstr_def nth_append)
  then have h: "handle_request sample_crypto [] (userops_file sample_passwd sample_user) sample_config sample_turn ?q
      (reply_init\<lparr>y_passcode := ''123456''\<rparr>) stored_world
      = COk (Some (reply_init\<lparr>y_rc := OTP_RC_AUTH_ERR, y_passcode := ''123456''\<rparr>, stored_world))"
    by (simp add: handle_request_def)
  from reply_keeps_passcode [OF h] h show ?thesis by simp
qed

end
