(* ===== verification/Otpd_Xfunc.thy ===== *)
theory Otpd_Xfunc
  imports Otpd_Prelude
begin

text \<open>
  Logging, \<^verbatim>\<open>src/mlog.c\<close>, and the wrappers of \<^verbatim>\<open>src/xfunc.c\<close> around system and library calls, which end the process when a call
  fails: exit status \<open>n\<close> is \<open>CErr n\<close>. What a call gave is the argument of its wrapper. The conversions of \<^verbatim>\<open>src/xfunc.c\<close> are in
  \<open>Otpd_Hex\<close>, \<open>_xwrite\<close> is in \<open>Otpd_State_File\<close>.
\<close>

section \<open>Definitions\<close>

subsection \<open>Logging\<close>

definition LOG_DEBUG :: int where "LOG_DEBUG = 7"
definition LOG_AUTH :: int where "LOG_AUTH = 32"

text \<open>The variables of \<^verbatim>\<open>src/mlog.c\<close>.\<close>

record log_t =
  log_level :: int
  log_facility :: int
  log_syslog :: bool

definition log_start :: log_t where
  "log_start = \<lparr>log_level = LOG_DEBUG, log_facility = LOG_AUTH, log_syslog = False\<rparr>"

text \<open>The call that \<open>mlog\<close> makes, with the arguments left out: \<open>vsyslog\<close> or \<open>vfprintf\<close> to standard error.\<close>

datatype log_call = Vsyslog int string | Vfprintf string

definition mlog :: "string \<Rightarrow> log_t \<Rightarrow> int \<Rightarrow> string \<Rightarrow> log_call option" where
  "mlog progname lg level fmt =
     (if log_level lg < level then None
      else let level = (if LOG_DEBUG < level then LOG_DEBUG else level) in
        if log_syslog lg then Some (Vsyslog level fmt)
        else Some (Vfprintf (take 1023 (progname @ '': '' @ fmt @ [CHR 0x0A]))))"

text \<open>\<open>mopenlog\<close>: the facility that \<open>openlog\<close> gets, and the variables afterwards.\<close>

definition mopenlog :: "log_t \<Rightarrow> int \<times> log_t" where
  "mopenlog lg = (log_facility lg, lg\<lparr>log_syslog := True\<rparr>)"

subsection \<open>Wrappers\<close>

definition xcall :: "bool \<Rightarrow> unit cres" where
  "xcall ok = (if ok then COk () else CErr 1)"

text \<open>A call that gives a value.\<close>

definition xvalue :: "'a option \<Rightarrow> 'a cres" where
  "xvalue r = (case r of None \<Rightarrow> CErr 1 | Some x \<Rightarrow> COk x)"

definition xpthread_create :: "bool \<Rightarrow> unit cres" where "xpthread_create = xcall"
definition xpthread_mutex_init :: "bool \<Rightarrow> unit cres" where "xpthread_mutex_init = xcall"
definition xpthread_mutex_lock :: "bool \<Rightarrow> unit cres" where "xpthread_mutex_lock = xcall"
definition xpthread_mutex_unlock :: "bool \<Rightarrow> unit cres" where "xpthread_mutex_unlock = xcall"

text \<open>\<open>rc\<close> is what \<open>pthread_mutex_trylock\<close> returned: zero when it has locked the mutex, \<open>EBUSY\<close> when another thread holds it.\<close>

definition EBUSY :: int where "EBUSY = 16"

definition xpthread_mutex_trylock :: "int \<Rightarrow> int cres" where
  "xpthread_mutex_trylock rc = (if rc \<noteq> 0 \<and> rc \<noteq> EBUSY then CErr 1 else COk rc)"

definition xsem_init :: "bool \<Rightarrow> unit cres" where "xsem_init = xcall"
definition xsocket :: "int option \<Rightarrow> int cres" where "xsocket = xvalue"
definition xbind :: "bool \<Rightarrow> unit cres" where "xbind = xcall"
definition xlisten :: "bool \<Rightarrow> unit cres" where "xlisten = xcall"
definition xconnect :: "bool \<Rightarrow> unit cres" where "xconnect = xcall"
definition xioctl1 :: "bool \<Rightarrow> unit cres" where "xioctl1 = xcall"
definition xmalloc :: "'a option \<Rightarrow> 'a cres" where "xmalloc = xvalue"
definition xrealloc :: "'a option \<Rightarrow> 'a cres" where "xrealloc = xvalue"

text \<open>The argument is \<open>errno\<close> when \<open>unlink\<close> failed; a file that does not exist is as good as one that was removed.\<close>

definition ENOENT :: int where "ENOENT = 2"

definition xunlink :: "int option \<Rightarrow> unit cres" where
  "xunlink e = (case e of None \<Rightarrow> COk () | Some n \<Rightarrow> if n \<noteq> ENOENT then CErr 1 else COk ())"

definition xchdir :: "bool \<Rightarrow> unit cres" where "xchdir = xcall"
definition xsetuid :: "bool \<Rightarrow> unit cres" where "xsetuid = xcall"
definition xsetgid :: "bool \<Rightarrow> unit cres" where "xsetgid = xcall"
definition xsetsid :: "bool \<Rightarrow> unit cres" where "xsetsid = xcall"
definition xstrdup :: "string option \<Rightarrow> string cres" where "xstrdup = xvalue"
definition xgetrlimit :: "bool \<Rightarrow> unit cres" where "xgetrlimit = xcall"

text \<open>The clock: the two fields that \<open>clock_gettime\<close> fills in, nanoseconds in the second, or those of \<open>gettimeofday\<close>, microseconds.\<close>

definition xgethrtime :: "bool \<Rightarrow> (int \<times> int) option \<Rightarrow> int cres" where
  "xgethrtime have_clock_gettime tp = (case tp of
     None \<Rightarrow> CErr 1
   | Some (sec, frac) \<Rightarrow> COk (if have_clock_gettime then sec * 1000000000 + frac else sec * 1000000000 + frac * 1000))"

section \<open>Lemmas\<close>

lemmas xcalls = xpthread_create_def xpthread_mutex_init_def xpthread_mutex_lock_def xpthread_mutex_unlock_def xsem_init_def xbind_def xlisten_def
  xconnect_def xioctl1_def xchdir_def xsetuid_def xsetgid_def xsetsid_def xgetrlimit_def

declare xcalls [simp]

lemma xcall_COk_iff [simp]: "xcall ok = COk x \<longleftrightarrow> ok"
  by (simp add: xcall_def)

lemma xvalue_COk_iff [simp]: "xvalue r = COk x \<longleftrightarrow> r = Some x"
  by (cases r) (simp_all add: xvalue_def)

lemma xunlink_COk_iff [simp]: "xunlink e = COk x \<longleftrightarrow> e = None \<or> e = Some ENOENT"
  by (simp add: xunlink_def split: option.split)

section \<open>Properties\<close>

text \<open>
  What is logged. A message is dropped exactly if its level is above the one that was set; what reaches syslog has one of its eight levels, and
  what goes to standard error fits the array of 1024 octets and ends a line unless the format was cut off.
\<close>

theorem mlog_output:
  "(mlog progname lg level fmt = None \<longleftrightarrow> log_level lg < level)
   \<and> (\<forall>l f. mlog progname lg level fmt = Some (Vsyslog l f) \<longrightarrow> log_syslog lg \<and> f = fmt \<and> l \<le> LOG_DEBUG \<and> l = min level LOG_DEBUG)
   \<and> (\<forall>f. mlog progname lg level fmt = Some (Vfprintf f) \<longrightarrow> \<not> log_syslog lg \<and> length f < 1024
        \<and> (length progname + length fmt \<le> 1020 \<longrightarrow> last f = CHR 0x0A))"
  by (auto simp: mlog_def Let_def)

text \<open>
  The clock keeps the order of the readings, and distances are nanoseconds whichever call it is built on.
\<close>

theorem xgethrtime_order:
  assumes "xgethrtime b (Some (s, f)) = COk t" and "xgethrtime b (Some (s', f')) = COk t'"
    and "0 \<le> f" and "0 \<le> f'" and "f < (if b then 1000000000 else 1000000)" and "f' < (if b then 1000000000 else 1000000)"
  shows "(t < t' \<longleftrightarrow> s < s' \<or> s = s' \<and> f < f') \<and> t' - t = (s' - s) * 1000000000 + (f' - f) * (if b then 1 else 1000)"
proof (cases b)
  case True
  then have "t = s * 1000000000 + f" "t' = s' * 1000000000 + f'" using assms(1,2) by (simp_all add: xgethrtime_def)
  with True assms(3-6) show ?thesis by (simp add: algebra_simps) linarith
next
  case False
  then have "t = s * 1000000000 + f * 1000" "t' = s' * 1000000000 + f' * 1000" using assms(1,2) by (simp_all add: xgethrtime_def)
  with False assms(3-6) show ?thesis by (simp add: algebra_simps) linarith
qed

end
