(* ===== verification/Otpd_Userops_Ldap.thy ===== *)
theory Otpd_Userops_Ldap
  imports Otpd_State Otpd_Userops_File Otpd_Format Otpd_Xfunc "HOL-Library.Signed_Division"
begin

text \<open>
  The user database in a directory server, \<^verbatim>\<open>src/userops/ldap.c\<close>: the pool of connections, the search for
  a user with its retry, the checks on the attributes of the entry and the user record made of them.

  The LDAP library is a parameter: whether each step of a connection succeeds (\<open>conn_env\<close>), and what
  a search gives (\<open>le_search\<close>, a function of the attempt and the filter). The pool is a list of connections, the newest first,
  as the calls of one thread see it; other threads appear as connections that are locked.
\<close>

section \<open>Definitions\<close>

subsection \<open>Timeouts\<close>

text \<open>The remaining time \<open>tv\<close> and the last reading of the clock, \<open>hrlast\<close>.\<close>

record timer_t =
  tv_sec :: int
  tv_usec :: int
  t_hrlast :: int

text \<open>\<open>update_timeout\<close> at clock reading \<open>hr\<close>; true when the time is used up.\<close>

definition update_timeout :: "int \<Rightarrow> timer_t \<Rightarrow> bool \<times> timer_t" where
  "update_timeout hr t =
     (let hret = hr - t_hrlast t;
          sec = tv_sec t - hret sdiv 1000000000;
          usec = tv_usec t - hret smod 1000000;
          (sec, usec) = (if usec < 0 then (sec - 1, usec + 1000000) else (sec, usec))
      in (sec < 0 \<or> usec < 0, \<lparr>tv_sec = sec, tv_usec = usec, t_hrlast = t_hrlast t + hret\<rparr>))"

subsection \<open>The pool of connections\<close>

record ldap_ld_t =
  l_locked :: bool
  l_ld :: bool
  l_used :: bool

text \<open>
  The steps of a new connection: whether \<open>ldap_start_tls\<close>, its result, the parsing of that and
  \<open>ldap_install_tls\<close> succeed, then the same of the bind, and the clock at the four calls of
  \<open>update_timeout\<close>.
\<close>

record conn_env =
  ce_start_tls :: bool
  ce_tls_result :: bool
  ce_tls_parse :: bool
  ce_install_tls :: bool
  ce_bind :: bool
  ce_bind_result :: bool
  ce_bind_parse :: bool
  ce_hr1 :: int
  ce_hr2 :: int
  ce_hr3 :: int
  ce_hr4 :: int

definition ldap_start :: "conn_env \<Rightarrow> timer_t \<Rightarrow> bool \<times> timer_t" where
  "ldap_start ce t =
     (if \<not> ce_start_tls ce then (False, t)
      else let (late, t) = update_timeout (ce_hr1 ce) t in
        if late \<or> \<not> ce_tls_result ce \<or> \<not> ce_tls_parse ce \<or> \<not> ce_install_tls ce then (False, t)
        else let (late, t) = update_timeout (ce_hr2 ce) t in (\<not> late, t))"

definition ldap_bind :: "bool \<Rightarrow> conn_env \<Rightarrow> timer_t \<Rightarrow> bool \<times> timer_t" where
  "ldap_bind tls ce t =
     (if \<not> ce_bind ce then (False, t)
      else let (late, t) = (if tls then update_timeout (ce_hr3 ce) t else (False, t)) in
        if late \<or> \<not> ce_bind_result ce \<or> \<not> ce_bind_parse ce then (False, t)
        else let (late, t) = update_timeout (ce_hr4 ce) t in (\<not> late, t))"

definition ldap_connect :: "bool \<Rightarrow> conn_env \<Rightarrow> timer_t \<Rightarrow> bool \<times> timer_t" where
  "ldap_connect tls ce t =
     (if tls then (case ldap_start ce t of (ok, t) \<Rightarrow> if ok then ldap_bind tls ce t else (False, t))
      else ldap_bind tls ce t)"

text \<open>The walk over the pool: the first connection whose mutex can be locked, or a new one at the head.\<close>

fun pool_find :: "ldap_ld_t list \<Rightarrow> nat option" where
  "pool_find [] = None"
| "pool_find (p # ps) = (if \<not> l_locked p then Some 0 else map_option Suc (pool_find ps))"

definition pool_lock :: "ldap_ld_t list \<Rightarrow> nat \<times> ldap_ld_t list" where
  "pool_lock pool = (case pool_find pool of
     Some i \<Rightarrow> (i, pool[i := (pool ! i)\<lparr>l_locked := True\<rparr>])
   | None \<Rightarrow> (0, \<lparr>l_locked = True, l_ld = False, l_used = False\<rparr> # pool))"

definition getldp :: "bool \<Rightarrow> conn_env \<Rightarrow> timer_t \<Rightarrow> ldap_ld_t list \<Rightarrow> nat \<times> timer_t \<times> ldap_ld_t list" where
  "getldp tls ce t pool =
     (case pool_lock pool of (i, pool) \<Rightarrow>
        if l_ld (pool ! i) then (i, t, pool)
        else case ldap_connect tls ce t of (ok, t) \<Rightarrow> (i, t, pool[i := (pool ! i)\<lparr>l_ld := ok, l_used := False\<rparr>]))"

text \<open>\<open>ldap_unbind_ext_s\<close> on a connection that is already closed has no defined result.\<close>

definition putldp :: "nat \<Rightarrow> bool \<Rightarrow> ldap_ld_t list \<Rightarrow> ldap_ld_t list cres" where
  "putldp i unbind pool =
     (if unbind \<and> \<not> l_ld (pool ! i) then CFault
      else COk (pool[i := (pool ! i)\<lparr>l_ld := l_ld (pool ! i) \<and> \<not> unbind, l_locked := False\<rparr>]))"

subsection \<open>The search\<close>

text \<open>An entry is the list of its attributes with their values; \<open>None\<close> where the library gives no values.\<close>

type_synonym ldap_entry = "(string \<times> string list option) list"

datatype ldap_result = SearchDown | SearchErr | SearchEntries "ldap_entry list"

text \<open>
  \<open>le_h\<close> and \<open>le_user\<close> are the contents of the array \<open>h\<close> and of the memory from \<open>xmalloc\<close>; \<open>le_einval\<close>: whether
  \<open>strtoul\<close> sets \<open>errno\<close> for an empty string; \<open>le_hr\<close>: the clock when a retry is considered.
\<close>

record ldap_env =
  le_tls :: bool
  le_filter :: string
  le_timeout :: int
  le_hr0 :: int
  le_conn :: "nat \<Rightarrow> conn_env"
  le_search :: "nat \<Rightarrow> string \<Rightarrow> ldap_result"
  le_hr :: "nat \<Rightarrow> int"
  le_h :: "byte list"
  le_user :: user_t
  le_einval :: bool

text \<open>\<open>sprintf\<close> of the configured filter, which has one \<open>%s\<close> and no other per cent sign.\<close>

fun ldap_filter :: "string \<Rightarrow> string \<Rightarrow> string" where
  "ldap_filter (c # f) username = (if c = CHR ''%'' then username @ drop 1 f else c # ldap_filter f username)"
| "ldap_filter [] username = []"

text \<open>
  From the label \<open>again\<close> to the entries found, with the connection given back. After the server went away and
  the time is up, the connection is given back twice.
\<close>

definition pool_measure :: "ldap_ld_t list \<Rightarrow> nat" where
  "pool_measure pool = length (filter (\<lambda>p. l_ld p \<and> l_used p) pool)"

lemma pool_find_Some: "pool_find pool = Some i \<Longrightarrow> i < length pool \<and> \<not> l_locked (pool ! i)"
  by (induction pool arbitrary: i) (auto split: if_splits)

lemma getldp_index:
  assumes "getldp tls ce t pool = (i, t', pool')"
  shows "i < length pool'"
proof -
  have "fst (pool_lock pool) < length (snd (pool_lock pool))"
    by (auto simp: pool_lock_def split: option.split dest: pool_find_Some)
  with assms show ?thesis by (auto simp: getldp_def split: prod.splits if_splits)
qed

lemma pool_measure_update:
  assumes "i < length pool"
  shows "pool_measure (pool[i := p]) + (if l_ld (pool ! i) \<and> l_used (pool ! i) then 1 else 0)
    = pool_measure pool + (if l_ld p \<and> l_used p then 1 else 0)"
  using assms
proof (induction pool arbitrary: i)
  case (Cons q qs)
  have step: "pool_measure (q' # ps) = pool_measure ps + (if l_ld q' \<and> l_used q' then 1 else 0)" for q' ps
    by (simp add: pool_measure_def)
  show ?case
  proof (cases i)
    case (Suc j)
    with Cons.IH [of j] Cons.prems show ?thesis by (simp add: step)
  qed (simp add: step)
qed simp

lemma getldp_measure:
  assumes "getldp tls ce t pool = (i, t', pool')" and "l_used (pool' ! i)"
  shows "pool_measure pool' = pool_measure pool"
proof -
  obtain pool1 where l: "pool_lock pool = (i, pool1)"
    using assms(1) by (auto simp: getldp_def split: prod.splits if_splits)
  have i: "i < length pool1" using l by (auto simp: pool_lock_def split: option.splits dest: pool_find_Some)
  have "pool' = pool1" using assms i l by (auto simp: getldp_def split: prod.splits if_splits)
  moreover have "pool_measure pool1 = pool_measure pool"
  proof (cases "pool_find pool")
    case None
    with l show ?thesis by (auto simp: pool_lock_def pool_measure_def)
  next
    case (Some j)
    with l have "pool1 = pool[j := (pool ! j)\<lparr>l_locked := True\<rparr>]" by (auto simp: pool_lock_def)
    with pool_measure_update [of j pool "(pool ! j)\<lparr>l_locked := True\<rparr>"] pool_find_Some [OF Some] show ?thesis by simp
  qed
  ultimately show ?thesis by simp
qed

lemma retry_measure:
  assumes g: "getldp tls ce t pool = (i, t1, pool1)" and "l_ld (pool1 ! i)" and "l_used (pool1 ! i)" and "putldp i True pool1 = COk pool2"
  shows "pool_measure pool2 < pool_measure pool"
  using pool_measure_update [OF getldp_index [OF g], of "(pool1 ! i)\<lparr>l_ld := False, l_locked := False\<rparr>"]
    getldp_measure [OF g assms(3)] assms(2-4) by (simp add: putldp_def)

function ldap_try :: "ldap_env \<Rightarrow> string \<Rightarrow> nat \<Rightarrow> timer_t \<Rightarrow> ldap_ld_t list \<Rightarrow> (ldap_entry list option \<times> ldap_ld_t list) cres" where
  "ldap_try env f n t pool =
     (case getldp (le_tls env) (le_conn env n) t pool of (i, t, pool) \<Rightarrow>
        if \<not> l_ld (pool ! i) then cbind (putldp i False pool) (\<lambda>pool. COk (None, pool))
        else case le_search env n f of
          SearchDown \<Rightarrow>
            if l_used (pool ! i)
            then (case putldp i True pool of
                COk pool \<Rightarrow>
                  (case update_timeout (le_hr env n) t of (late, t) \<Rightarrow>
                     if late then cbind (putldp i True pool) (\<lambda>pool. COk (None, pool))
                     else ldap_try env f (n + 1) t pool)
              | _ \<Rightarrow> CFault)
            else cbind (putldp i True pool) (\<lambda>pool. COk (None, pool))
        | SearchErr \<Rightarrow> cbind (putldp i True pool) (\<lambda>pool. COk (None, pool))
        | SearchEntries es \<Rightarrow>
            cbind (putldp i False (pool[i := (pool ! i)\<lparr>l_used := True\<rparr>])) (\<lambda>pool. COk (Some es, pool)))"
  by pat_completeness auto

termination
  by (relation "measure (\<lambda>(_, _, _, _, pool). pool_measure pool)") (auto dest: sym intro: retry_measure)

subsection \<open>Attributes\<close>

definition otpAttrs :: "string list" where
  "otpAttrs = [''otpVendor'', ''otpModel'', ''otpKey1'', ''otpIPIN'', ''otpPIN'', ''otpTimeIssued'', ''otpStateLocationHint'',
     ''otpKeyEncryption'', ''otpTmpStaticPassword'', ''otpTmpStaticPasswordExpiry'', ''otpTmpRWindow'', ''otpTmpRWindowExpiry'']"

text \<open>The loop over the attributes: the variable \<open>otpX\<close> is the value of the map at \<open>X\<close>. Names are compared from their fourth character on.\<close>

fun ldap_attrs :: "ldap_entry \<Rightarrow> (string \<rightharpoonup> string) \<Rightarrow> (string \<rightharpoonup> string) cres" where
  "ldap_attrs [] m = COk m"
| "ldap_attrs ((a, v) # as) m = (case v of
     None \<Rightarrow> CErr (- 2)
   | Some vals \<Rightarrow>
       if length vals \<noteq> 1 then CErr (- 2)
       else if length a < 3 then CFault
       else if drop 3 a \<in> set (map (drop 3) otpAttrs) then ldap_attrs as (m(drop 3 a \<mapsto> cstr (vals ! 0)))
       else CErr (- 2))"

text \<open>The sanity checks.\<close>

definition pin_ok :: "string option \<Rightarrow> bool" where
  "pin_ok v \<longleftrightarrow> (case v of None \<Rightarrow> True | Some s \<Rightarrow> length s \<le> OTP_MAX_PIN_LEN * 2 \<and> even (length s))"

definition GSM_MAX_NAME_LEN :: nat where "GSM_MAX_NAME_LEN = 32"

definition ldap_sanity :: "(string \<rightharpoonup> string) \<Rightarrow> (string \<times> string \<times> string) cres" where
  "ldap_sanity m = (case (m ''Vendor'', m ''Model'', m ''Key1'') of
     (Some vendor, Some model, Some key1) \<Rightarrow>
       if OTP_MAX_CARDNAME_LEN < length vendor + 1 + length model then CErr (- 2)
       else if OTP_MAX_KEY_LEN * 2 < length key1 then CErr (- 2)
       else if length key1 = 0 \<or> odd (length key1) then CErr (- 2)
       else if \<not> pin_ok (m ''IPIN'') then CErr (- 2)
       else if \<not> pin_ok (m ''PIN'') then CErr (- 2)
       else if (case m ''StateLocationHint'' of None \<Rightarrow> False | Some s \<Rightarrow> GSM_MAX_NAME_LEN < length s) then CErr (- 2)
       else COk (vendor, model, key1)
   | _ \<Rightarrow> CErr (- 2))"

text \<open>The encryption mode and key number.\<close>

definition ldap_encryption :: "bool \<Rightarrow> config_t \<Rightarrow> string option \<Rightarrow> (emode \<times> int) cres" where
  "ldap_encryption einval config v = (case v of
     None \<Rightarrow> COk (EMODE_CLEAR, 0)
   | Some val \<Rightarrow>
       if val = ''clear'' then COk (EMODE_CLEAR, 0)
       else if val = ''pin'' then COk (EMODE_PIN, 0)
       else if val = ''pin-md5'' then COk (EMODE_PINMD5, 0)
       else if \<not> list_all is_dec val then CErr (- 2)
       else
         let keyid = strtoull 10 val in
         if keyid = 0 \<and> val = [] \<and> einval then CErr (- 2)
         else if c_key config (uint keyid) = None then CErr (- 2)
         else COk (EMODE_KEYID, uint keyid))"

text \<open>
  The static password. \<open>ldap_hash\<close> decodes the hash of an encoded password; each test is taken when the prefix does
  \<^emph>\<open>not\<close> match. Skipping the prefix of a shorter string leaves the string.
\<close>

definition hash_at :: "string \<Rightarrow> nat \<Rightarrow> nat \<Rightarrow> byte list \<Rightarrow> byte list cres" where
  "hash_at p skip n h =
     (if length p < skip then CFault
      else let p = drop skip p in
        if length p \<noteq> 2 * n then CErr (- 2)
        else case a2nx p n of None \<Rightarrow> CErr (- 2) | Some b \<Rightarrow> COk (memcpy h b n))"

definition ldap_hash :: "string \<Rightarrow> byte list \<Rightarrow> byte list cres" where
  "ldap_hash p h =
     (if take 1 p \<noteq> ''{'' then COk h
      else if \<not> strneq p ''{MD5}'' 5 then hash_at p 5 16 h
      else if \<not> strneq p ''{SHA}'' 5 then hash_at p 5 20 h
      else if \<not> strneq p ''{SHA1}'' 6 then hash_at p 6 20 h
      else CErr (- 2))"

definition ldap_password :: "int \<Rightarrow> byte list \<Rightarrow> (string \<rightharpoonup> string) \<Rightarrow> (string option \<times> byte list) cres" where
  "ldap_password now h m = (case m ''TmpStaticPassword'' of
     None \<Rightarrow> COk (None, h)
   | Some p \<Rightarrow>
       (case m ''TmpStaticPasswordExpiry'' of
          None \<Rightarrow> CErr (- 2)
        | Some expiry \<Rightarrow>
            if sint (strtoull 10 expiry) < now then COk (None, h)
            else cbind (ldap_hash p h) (\<lambda>h. COk (Some p, h))))"

text \<open>The resynchronisation window; a missing expiry is not noticed.\<close>

definition ldap_rwindow :: "int \<Rightarrow> (string \<rightharpoonup> string) \<Rightarrow> u32 cres" where
  "ldap_rwindow now m = (case m ''TmpRWindow'' of
     None \<Rightarrow> COk 0
   | Some s \<Rightarrow>
       (case m ''TmpRWindowExpiry'' of
          None \<Rightarrow> CFault
        | Some expiry \<Rightarrow> if sint (strtoull 10 expiry) < now then COk 0 else COk (ucast (strtoull 10 s))))"

definition ldap_user :: "bool \<Rightarrow> byte list \<Rightarrow> user_t \<Rightarrow> config_t \<Rightarrow> string \<Rightarrow> int \<Rightarrow> ldap_entry \<Rightarrow> user_t cres" where
  "ldap_user einval h tuser config username now entry =
     cbind (ldap_attrs entry Map.empty) (\<lambda>m.
     cbind (ldap_sanity m) (\<lambda>(vendor, model, key1).
     cbind (ldap_encryption einval config (m ''KeyEncryption'')) (\<lambda>(encryptmode, keyid).
     cbind (ldap_password now h m) (\<lambda>(password, h).
     cbind (ldap_rwindow now m) (\<lambda>rwindow.
       let value = (\<lambda>a. case m a of None \<Rightarrow> [] | Some s \<Rightarrow> s);
           issued = (case m ''TimeIssued'' of None \<Rightarrow> 0 | Some s \<Rightarrow> sint (strtoull 10 s))
       in COk (tuser\<lparr>u_username := username, u_card := vendor @ ''-'' @ model, u_keystring := key1,
              u_ipinstring := value ''IPIN'', u_pinstring := value ''PIN'',
              u_timeissued := (if now < issued then 0 else issued), u_gsmd := value ''StateLocationHint'',
              u_encryptmode := encryptmode, u_keyid := keyid, u_password := password,
              u_password_hash := (if password = None then u_password_hash tuser else h),
              u_rwindow_size := rwindow\<rparr>))))))"

text \<open>The starting timeout, from nanoseconds.\<close>

definition ldap_init_timeout :: "int \<Rightarrow> int \<times> int" where
  "ldap_init_timeout timeout = (let usec = timeout sdiv 1000 in (usec sdiv 1000000, usec smod 1000000))"

text \<open>The configuration of the directory, \<open>config.ldap\<close>, with the host and port it was read from.\<close>

datatype tlsmode = TLSMODE_OFF | TLSMODE_ON | TLSMODE_BINDONLY

record ldap_config_t =
  ld_host :: "string option"
  ld_port :: int
  ld_url :: "string option"
  ld_binddn :: "string option"
  ld_bindpw :: "string option"
  ld_basedn :: "string option"
  ld_filter :: "(string \<times> nat) option"
  ld_scope :: "string option"
  ld_tls_mode :: tlsmode
  ld_verify_cert :: int
  ld_cacertfile :: "string option"
  ld_cacertdir :: "string option"
  ld_certfile :: "string option"
  ld_keyfile :: "string option"

text \<open>The global options of the library, in the order in which they are set.\<close>

datatype ldap_opt =
    Require_cert_demand | Require_cert_never | Crlcheck_all | Cacertfile string | Cacertdir string | Certfile string | Keyfile string
  | Protocol_version int | Network_timeout int int

datatype ldap_scope = LDAP_SCOPE_SUBTREE | LDAP_SCOPE_ONELEVEL

definition ldap_tls_options :: "ldap_config_t \<Rightarrow> ldap_opt list" where
  "ldap_tls_options l =
     (if ld_tls_mode l \<noteq> TLSMODE_OFF
      then (if ld_verify_cert l \<noteq> 0 then [Require_cert_demand] else [Require_cert_never])
        @ (if ld_verify_cert l = 2 then [Crlcheck_all] else [])
        @ (case ld_cacertfile l of None \<Rightarrow> [] | Some f \<Rightarrow> [Cacertfile f])
        @ (case ld_cacertdir l of None \<Rightarrow> [] | Some f \<Rightarrow> [Cacertdir f])
        @ (case ld_certfile l of None \<Rightarrow> [] | Some f \<Rightarrow> [Certfile f])
        @ (case ld_keyfile l of None \<Rightarrow> [] | Some f \<Rightarrow> [Keyfile f])
      else [])"

text \<open>\<open>accept\<close>: whether \<open>ldap_set_option\<close> takes an option.\<close>

definition xldap_set_option :: "(ldap_opt \<Rightarrow> bool) \<Rightarrow> ldap_opt \<Rightarrow> unit cres" where
  "xldap_set_option accept o' = xcall (accept o')"

fun xldap_set_options :: "(ldap_opt \<Rightarrow> bool) \<Rightarrow> ldap_opt list \<Rightarrow> unit cres" where
  "xldap_set_options accept [] = COk ()"
| "xldap_set_options accept (o' # os) = cbind (xldap_set_option accept o') (\<lambda>_. xldap_set_options accept os)"

text \<open>The variables that \<open>ldap_init1\<close> sets, and the options.\<close>

record ldap_init_t =
  li_ccred :: "string option"
  li_scope :: ldap_scope
  li_timeout :: "int \<times> int"
  li_options :: "ldap_opt list"

definition ldap_init1 :: "(ldap_opt \<Rightarrow> bool) \<Rightarrow> config_t \<Rightarrow> ldap_config_t \<Rightarrow> ldap_init_t cres" where
  "ldap_init1 accept config l =
     cbind (case ld_scope l of
         None \<Rightarrow> CFault
       | Some s \<Rightarrow> if s = ''sub'' then COk LDAP_SCOPE_SUBTREE else if s = ''one'' then COk LDAP_SCOPE_ONELEVEL else CErr 1) (\<lambda>scope.
       let timeout = ldap_init_timeout (c_timeout config);
           options = ldap_tls_options l @ [Protocol_version 3, Network_timeout (fst timeout) (snd timeout)]
       in cbind (xldap_set_options accept options) (\<lambda>_.
            COk \<lparr>li_ccred = ld_bindpw l, li_scope = scope, li_timeout = timeout, li_options = options\<rparr>))"

text \<open>\<open>ldap_get\<close>: the result, and the pool afterwards.\<close>

definition ldap_get :: "ldap_env \<Rightarrow> ldap_ld_t list \<Rightarrow> string \<Rightarrow> config_t \<Rightarrow> int \<Rightarrow> user_t cres \<times> ldap_ld_t list" where
  "ldap_get env pool username config now =
     (case ldap_try env (ldap_filter (le_filter env) username) 0
             (case ldap_init_timeout (le_timeout env) of (sec, usec) \<Rightarrow> \<lparr>tv_sec = sec, tv_usec = usec, t_hrlast = le_hr0 env\<rparr>) pool of
        COk (None, pool) \<Rightarrow> (CErr (- 2), pool)
      | COk (Some [entry], pool) \<Rightarrow> (ldap_user (le_einval env) (le_h env) (le_user env) config username now entry, pool)
      | COk (Some [], pool) \<Rightarrow> (CErr (- 1), pool)
      | COk (Some _, pool) \<Rightarrow> (CErr (- 2), pool)
      | _ \<Rightarrow> (CFault, pool))"

text \<open>\<open>ldap_put\<close> reads the password of its argument.\<close>

definition ldap_put :: "user_t option \<Rightarrow> unit cres" where
  "ldap_put user = (case user of None \<Rightarrow> CFault | Some _ \<Rightarrow> COk ())"

definition userops_ldap :: "ldap_env \<Rightarrow> ldap_ld_t list \<Rightarrow> userops_t" where
  "userops_ldap env pool = \<lparr>uo_get = (\<lambda>username config now. fst (ldap_get env pool username config now)), uo_put = ldap_put\<rparr>"

subsection \<open>Sample values\<close>

definition sample_conn :: conn_env where
  "sample_conn = \<lparr>ce_start_tls = True, ce_tls_result = True, ce_tls_parse = True, ce_install_tls = True, ce_bind = True,
     ce_bind_result = True, ce_bind_parse = True, ce_hr1 = 0, ce_hr2 = 0, ce_hr3 = 0, ce_hr4 = 0\<rparr>"

definition sample_ldap :: ldap_env where
  "sample_ldap = \<lparr>le_tls = False, le_filter = ''uid=%s'', le_timeout = 1000000000, le_hr0 = 0, le_conn = (\<lambda>n. sample_conn),
     le_search = (\<lambda>n f. if f = ''uid=joe''
        then SearchEntries [[(''otpVendor'', Some [''hotp'']), (''otpModel'', Some [''d6'']), (''otpKey1'', Some [''0011''])]]
        else SearchEntries []),
     le_hr = (\<lambda>n. 0), le_h = replicate 20 0, le_user = sample_user, le_einval = False\<rparr>"

section \<open>Lemmas\<close>

declare ldap_try.simps [simp del]

lemma pool_find_None_iff: "pool_find pool = None \<longleftrightarrow> (\<forall>p \<in> set pool. l_locked p)"
  by (induction pool) auto

lemma pool_find_before: "pool_find pool = Some i \<Longrightarrow> j < i \<Longrightarrow> l_locked (pool ! j)"
proof (induction pool arbitrary: i j)
  case (Cons p ps)
  then show ?case by (cases j) (auto split: if_splits)
qed simp

lemma pool_find_first:
  assumes "i < length pool" and "\<not> l_locked (pool ! i)" and "\<And>j. j < i \<Longrightarrow> l_locked (pool ! j)"
  shows "pool_find pool = Some i"
proof -
  obtain k where k: "pool_find pool = Some k"
    using assms(1,2) pool_find_None_iff [of pool] nth_mem by (cases "pool_find pool") auto
  then have "\<not> l_locked (pool ! k)" "\<And>j. j < k \<Longrightarrow> l_locked (pool ! j)"
    using pool_find_Some pool_find_before by blast+
  then have "k = i" using assms(2,3) by (metis linorder_neqE_nat)
  with k show ?thesis by simp
qed

text \<open>
  What \<open>getldp\<close> returns: the connection at the position of the first free one, or in front of the pool where
  all are locked. \<open>grown pool\<close> is the pool with the place for it.
\<close>

definition grown :: "ldap_ld_t list \<Rightarrow> ldap_ld_t list" where
  "grown pool = (if pool_find pool = None then \<lparr>l_locked = False, l_ld = False, l_used = False\<rparr> # pool else pool)"

lemma pool_find_grown: "\<exists>i. pool_find (grown pool) = Some i \<and> i < length (grown pool)"
  by (cases "pool_find pool") (auto simp: grown_def dest: pool_find_Some)

lemma getldp_eq:
  assumes "pool_find (grown pool) = Some i"
  shows "\<exists>ld used t'. getldp tls ce t pool = (i, t', (grown pool)[i := \<lparr>l_locked = True, l_ld = ld, l_used = used\<rparr>])
    \<and> (used \<longrightarrow> ld \<and> l_ld (grown pool ! i) \<and> l_used (grown pool ! i))"
proof -
  have i: "i < length (grown pool)" using pool_find_Some [OF assms] by simp
  have "pool_lock pool = (i, (grown pool)[i := (grown pool ! i)\<lparr>l_locked := True\<rparr>])"
    using assms by (cases "pool_find pool") (auto simp: pool_lock_def grown_def)
  with i show ?thesis
    by (cases "grown pool ! i") (auto simp: getldp_def split: prod.split)
qed

lemma putldp_eq:
  "i < length pool \<Longrightarrow> \<not> unbind \<or> l_ld (pool ! i) \<Longrightarrow>
     putldp i unbind pool = COk (pool[i := (pool ! i)\<lparr>l_ld := l_ld (pool ! i) \<and> \<not> unbind, l_locked := False\<rparr>])"
  by (simp add: putldp_def)

text \<open>One attempt: it ends with the connection given back, or it is repeated with that connection closed.\<close>

lemma ldap_try_step:
  assumes "pool_find (grown pool) = Some i"
  shows "ldap_try env f n t pool = CFault
    \<or> (\<exists>r p. ldap_try env f n t pool = COk (r, (grown pool)[i := p]) \<and> \<not> l_locked p)
    \<or> (\<exists>t' p. ldap_try env f n t pool = ldap_try env f (n + 1) t' ((grown pool)[i := p]) \<and> \<not> l_locked p \<and> \<not> l_ld p
         \<and> l_ld (grown pool ! i) \<and> l_used (grown pool ! i))"
proof -
  have i: "i < length (grown pool)" using pool_find_Some [OF assms] by simp
  obtain ld used t' where g: "getldp (le_tls env) (le_conn env n) t pool = (i, t', (grown pool)[i := \<lparr>l_locked = True, l_ld = ld, l_used = used\<rparr>])"
    "used \<longrightarrow> ld \<and> l_ld (grown pool ! i) \<and> l_used (grown pool ! i)"
    using getldp_eq [OF assms] by blast
  show ?thesis
  proof (cases "ld \<and> used \<and> le_search env n f = SearchDown")
    case True
    then have "ldap_try env f n t pool = (case update_timeout (le_hr env n) t' of (late, t') \<Rightarrow>
        if late then CFault
        else ldap_try env f (n + 1) t' ((grown pool)[i := \<lparr>l_locked = False, l_ld = False, l_used = used\<rparr>]))"
      using i g(1) by (cases "update_timeout (le_hr env n) t'") (simp add: ldap_try.simps [of env f n] putldp_def)
    moreover have "l_ld (grown pool ! i) \<and> l_used (grown pool ! i)" using g(2) True by simp
    ultimately show ?thesis by (auto split: prod.splits if_splits) fastforce
  next
    case False
    have "\<exists>r p. ldap_try env f n t pool = COk (r, (grown pool)[i := p]) \<and> \<not> l_locked p"
      using i g(1) False
      by (cases ld; cases "le_search env n f") (auto simp: ldap_try.simps [of env f n] putldp_def intro!: exI)
    then show ?thesis by blast
  qed
qed

lemma grown_update:
  assumes "pool_find (grown pool) = Some i" and "\<not> l_locked p"
  shows "pool_find ((grown pool)[i := p]) = Some i" "grown ((grown pool)[i := p]) = (grown pool)[i := p]"
proof -
  have i: "i < length (grown pool)" using pool_find_Some [OF assms(1)] by simp
  show "pool_find ((grown pool)[i := p]) = Some i"
    by (rule pool_find_first) (use i assms pool_find_before [OF assms(1)] in auto)
  then show "grown ((grown pool)[i := p]) = (grown pool)[i := p]" by (simp add: grown_def)
qed

lemma ldap_try_result:
  assumes "pool_find (grown pool) = Some i" and "ldap_try env f n t pool = COk (r, pool')"
  shows "\<exists>p. pool' = (grown pool)[i := p] \<and> \<not> l_locked p"
proof -
  consider r p where "ldap_try env f n t pool = COk (r, (grown pool)[i := p])" "\<not> l_locked p"
    | t' p where "ldap_try env f n t pool = ldap_try env f (n + 1) t' ((grown pool)[i := p])" "\<not> l_locked p" "\<not> l_ld p"
    using ldap_try_step [OF assms(1), of env f n t] assms(2) by auto
  then show ?thesis
  proof cases
    case (2 t' p)
    note g = grown_update [OF assms(1) 2(2)]
    have i: "i < length (grown pool)" using pool_find_Some [OF assms(1)] by simp
    from ldap_try_step [of "(grown pool)[i := p]" i env f "n + 1" t'] g 2 i assms(2) show ?thesis by auto
  qed (use assms(2) in auto)
qed

lemma ldap_try_twice:
  assumes "le_tls env' = le_tls env" and "\<And>k. k \<in> {n, n + 1} \<Longrightarrow> le_conn env' k = le_conn env k \<and> le_search env' k f = le_search env k f \<and> le_hr env' k = le_hr env k"
  shows "ldap_try env' f n t pool = ldap_try env f n t pool"
proof -
  obtain i where i: "pool_find (grown pool) = Some i" "i < length (grown pool)" using pool_find_grown by blast
  have second: "ldap_try env' f (n + 1) t' ((grown pool)[i := p]) = ldap_try env f (n + 1) t' ((grown pool)[i := p])"
    if p: "\<not> l_locked p" "\<not> l_ld p" for t' p
  proof -
    note g = grown_update [OF i(1) p(1)]
    obtain ld t'' where "getldp (le_tls env) (le_conn env (n + 1)) t' ((grown pool)[i := p])
        = (i, t'', (grown pool)[i := \<lparr>l_locked = True, l_ld = ld, l_used = False\<rparr>])"
      using getldp_eq [of "(grown pool)[i := p]" i "le_tls env" "le_conn env (n + 1)" t'] g p(2) i(2) by auto
    with assms i(2) show ?thesis
      by (simp add: ldap_try.simps [of _ f "Suc n"])
  qed
  obtain ld used t' where g: "getldp (le_tls env) (le_conn env n) t pool = (i, t', (grown pool)[i := \<lparr>l_locked = True, l_ld = ld, l_used = used\<rparr>])"
    using getldp_eq [OF i(1)] by blast
  show ?thesis
    using assms g second [of "\<lparr>l_locked = False, l_ld = False, l_used = used\<rparr>"] i(2)
    by (cases "update_timeout (le_hr env n) t'"; cases "le_search env n f"; cases "ld \<and> used")
      (auto simp: ldap_try.simps [of _ f n] putldp_def)
qed

interpretation ldapdb: user_lookup "userops_ldap env pool" for env pool
  by unfold_locales
    (auto simp: userops_ldap_def ldap_get_def ldap_user_def Let_def split: cres.splits option.splits list.splits prod.splits)

lemma xldap_set_options_COk_iff [simp]: "xldap_set_options accept os = COk x \<longleftrightarrow> list_all accept os"
  by (induction os) (simp_all add: xldap_set_option_def)

text \<open>A search depends on its filter through the answers of the library alone.\<close>

lemma ldap_try_same_answers:
  assumes "\<And>n. le_search env n g = le_search env n f"
  shows "ldap_try env g n t pool = ldap_try env f n t pool"
  using assms
proof (induction env f n t pool rule: ldap_try.induct)
  case (1 env f n t pool)
  obtain i t1 pool1 where g: "getldp (le_tls env) (le_conn env n) t pool = (i, t1, pool1)" by (cases "getldp (le_tls env) (le_conn env n) t pool") auto
  obtain late t2 where u: "update_timeout (le_hr env n) t1 = (late, t2)" by (cases "update_timeout (le_hr env n) t1")
  have "ldap_try env g (n + 1) t2 pool2 = ldap_try env f (n + 1) t2 pool2"
    if "l_ld (pool1 ! i)" "le_search env n f = SearchDown" "l_used (pool1 ! i)" "putldp i True pool1 = COk pool2" "\<not> late" for pool2
    by (rule "1.IH" [OF g [symmetric] refl _ that(2-4) u [symmetric] that(5)]) (use that(1) "1.prems" in auto)
  then show ?case
    using g u "1.prems" [of n] by (cases "le_search env n f"; cases "putldp i True pool1") (auto simp: ldap_try.simps [of env _ n])
qed

section \<open>Properties\<close>

text \<open>
  C21: connections are given back. When a lookup returns, every connection that was locked before is locked
  and every other one is free; the pool has grown by one free connection exactly if all were locked.
\<close>

theorem ldap_get_returns_connections:
  assumes "ldap_get env pool username config now = (r, pool')" and "r \<noteq> CFault"
  shows "map l_locked pool' = (if list_all l_locked pool then False # map l_locked pool else map l_locked pool)"
proof -
  obtain i where i: "pool_find (grown pool) = Some i" using pool_find_grown by blast
  obtain es where "ldap_try env (ldap_filter (le_filter env) username) 0
      (case ldap_init_timeout (le_timeout env) of (sec, usec) \<Rightarrow> \<lparr>tv_sec = sec, tv_usec = usec, t_hrlast = le_hr0 env\<rparr>) pool = COk (es, pool')"
    using assms by (auto simp: ldap_get_def split: cres.splits option.splits list.splits prod.splits)
  from ldap_try_result [OF i this] obtain p where "pool' = (grown pool)[i := p]" "\<not> l_locked p" by blast
  moreover have "i < length (grown pool)" "\<not> l_locked (grown pool ! i)" using pool_find_Some [OF i] by auto
  ultimately have "map l_locked pool' = (map l_locked (grown pool))[i := map l_locked (grown pool) ! i]" by (simp add: map_update)
  then show ?thesis by (simp add: grown_def pool_find_None_iff list_all_iff del: nth_map)
qed

theorem ldap_get_returns_connections_witness:
  "map l_locked (snd (ldap_get sample_ldap [] ''joe'' sample_config 0)) = [False]"
proof -
  have "fst (ldap_get sample_ldap [] ''joe'' sample_config 0) \<noteq> CFault" by code_simp
  then show ?thesis
    using ldap_get_returns_connections [of sample_ldap "[]" "''joe''" sample_config 0]
    by (cases "ldap_get sample_ldap [] ''joe'' sample_config 0") simp
qed

text \<open>
  The retry ends. However often the server goes away, a lookup without interference searches at most
  twice: its result does not depend on what the library would do in a third attempt.
\<close>

theorem ldap_get_two_attempts:
  "ldap_get (env\<lparr>le_conn := (\<lambda>n. if n < 2 then le_conn env n else c n), le_search := (\<lambda>n. if n < 2 then le_search env n else s n),
      le_hr := (\<lambda>n. if n < 2 then le_hr env n else h n)\<rparr>) pool username config now = ldap_get env pool username config now"
proof -
  let ?env = "env\<lparr>le_conn := (\<lambda>n. if n < 2 then le_conn env n else c n), le_search := (\<lambda>n. if n < 2 then le_search env n else s n),
      le_hr := (\<lambda>n. if n < 2 then le_hr env n else h n)\<rparr>"
  have "ldap_try ?env f 0 t pool = ldap_try env f 0 t pool" for f t
    by (rule ldap_try_twice) auto
  moreover have "le_filter ?env = le_filter env" "le_timeout ?env = le_timeout env" "le_hr0 ?env = le_hr0 env"
    "le_einval ?env = le_einval env" "le_h ?env = le_h env" "le_user ?env = le_user env" by simp_all
  ultimately show ?thesis by (simp only: ldap_get_def)
qed

text \<open>
  C22: a record that comes from the directory fits its structure. Card name, key, PINs and server name stay within the
  arrays of \<open>user_t\<close>, the key has an even, positive number of digits, and a numbered key is configured.
\<close>

theorem ldap_user_fits:
  assumes "ldap_get env pool username config now = (COk user, pool')"
  shows "u_username user = username \<and> length (u_card user) \<le> OTP_MAX_CARDNAME_LEN
    \<and> length (u_keystring user) \<le> OTP_MAX_KEY_LEN * 2 \<and> u_keystring user \<noteq> [] \<and> even (length (u_keystring user))
    \<and> length (u_ipinstring user) \<le> OTP_MAX_PIN_LEN * 2 \<and> length (u_pinstring user) \<le> OTP_MAX_PIN_LEN * 2 \<and> even (length (u_pinstring user))
    \<and> length (u_gsmd user) \<le> GSM_MAX_NAME_LEN
    \<and> (u_encryptmode user = EMODE_KEYID \<longrightarrow> c_key config (u_keyid user) \<noteq> None)"
proof -
  obtain entry where "ldap_user (le_einval env) (le_h env) (le_user env) config username now entry = COk user"
    using assms by (auto simp: ldap_get_def split: cres.splits option.splits list.splits)
  then obtain m vendor model key1 emode keyid where m: "ldap_sanity m = COk (vendor, model, key1)"
    "ldap_encryption (le_einval env) config (m ''KeyEncryption'') = COk (emode, keyid)"
    "u_username user = username" "u_card user = vendor @ ''-'' @ model" "u_keystring user = key1"
    "u_ipinstring user = (case m ''IPIN'' of None \<Rightarrow> [] | Some s \<Rightarrow> s)" "u_pinstring user = (case m ''PIN'' of None \<Rightarrow> [] | Some s \<Rightarrow> s)"
    "u_gsmd user = (case m ''StateLocationHint'' of None \<Rightarrow> [] | Some s \<Rightarrow> s)" "u_encryptmode user = emode" "u_keyid user = keyid"
    by (auto simp: ldap_user_def Let_def)
  have "emode = EMODE_KEYID \<Longrightarrow> c_key config keyid \<noteq> None"
    using m(2) by (auto simp: ldap_encryption_def Let_def split: option.splits if_splits)
  moreover have "length vendor + 1 + length model \<le> OTP_MAX_CARDNAME_LEN \<and> length key1 \<le> OTP_MAX_KEY_LEN * 2 \<and> key1 \<noteq> [] \<and> even (length key1)
      \<and> pin_ok (m ''IPIN'') \<and> pin_ok (m ''PIN'') \<and> length (u_gsmd user) \<le> GSM_MAX_NAME_LEN"
    using m(1,8) by (auto simp: ldap_sanity_def split: option.splits if_splits)
  ultimately show ?thesis using m by (auto simp: pin_ok_def split: option.splits)
qed

theorem ldap_user_fits_witness:
  "\<exists>user pool'. ldap_get sample_ldap [] ''joe'' sample_config 0 = (COk user, pool') \<and> u_card user = ''hotp-d6'' \<and> length (u_gsmd user) \<le> 32"
proof -
  have "case ldap_get sample_ldap [] ''joe'' sample_config 0 of (COk user, _) \<Rightarrow> u_card user = ''hotp-d6'' | _ \<Rightarrow> False" by code_simp
  then obtain user pool' where u: "ldap_get sample_ldap [] ''joe'' sample_config 0 = (COk user, pool')" "u_card user = ''hotp-d6''"
    by (auto split: prod.splits cres.splits)
  with ldap_user_fits [OF u(1)] show ?thesis by (auto simp: GSM_MAX_NAME_LEN_def)
qed

text \<open>
  Encoded static passwords are refused or misread. A password \<open>{MD5}\<close> with the 32 digits of an MD5 hash, and one
  \<open>{SHA}\<close> with the 40 digits of a SHA-1 hash, make the lookup fail.
\<close>

theorem ldap_static_password_refused:
  assumes "length x = 32" and "length y = 40"
  shows "ldap_hash (''{MD5}'' @ x) h = CErr (- 2) \<and> ldap_hash (''{SHA}'' @ y) h = CErr (- 2)"
  using assms by (simp add: ldap_hash_def hash_at_def strneq_def)

theorem ldap_static_password_refused_witness:
  "ldap_hash (''{MD5}'' @ replicate 32 (CHR ''0'')) [] = CErr (- 2)"
  using ldap_static_password_refused [of "replicate 32 (CHR ''0'')" "replicate 40 (CHR ''0'')" "[]"] by simp

text \<open>
  Elapsed time is not charged. Of a wait of whole milliseconds below one second \<open>update_timeout\<close> subtracts
  nothing, as it takes nanoseconds modulo a million for microseconds.
\<close>

theorem update_timeout_misses:
  assumes "0 \<le> tv_usec t" and "hr = t_hrlast t + ms * 1000000" and "0 \<le> ms" and "ms < 1000" and "0 \<le> tv_sec t"
  shows "update_timeout hr t = (False, t\<lparr>t_hrlast := hr\<rparr>)"
proof -
  have "ms * 1000000 sdiv 1000000000 = 0" "ms * 1000000 smod 1000000 = 0"
    using assms(3,4) by (simp_all add: signed_divide_int_def signed_modulo_int_def)
  then show ?thesis using assms by (simp add: update_timeout_def Let_def)
qed

theorem update_timeout_misses_witness:
  "update_timeout 999000000 \<lparr>tv_sec = 1, tv_usec = 0, t_hrlast = 0\<rparr> = (False, \<lparr>tv_sec = 1, tv_usec = 0, t_hrlast = 999000000\<rparr>)"
  using update_timeout_misses [of "\<lparr>tv_sec = 1, tv_usec = 0, t_hrlast = 0\<rparr>" 999000000 999] by simp

end
