(* ===== verification/Otpd_Config.thy ===== *)
theory Otpd_Config
  imports Otpd_Userops_Ldap
begin

text \<open>
  The configuration, \<^verbatim>\<open>src/config.y\<close>: what the options of the configuration file do to the configuration, the checks at the end, and the
  table of state managers that is built from it.

  What the parser makes of a file is a list of \<open>directive\<close>, the actions of the grammar rules; the grammar itself is in \<open>Otpd_Parser\<close>. An action that ends
  the process with a message is \<open>CErr 1\<close>.
\<close>

section \<open>Definitions\<close>

datatype backend = BACKEND_FILE | BACKEND_LDAP

text \<open>The options of the command line, variables of \<^verbatim>\<open>src/main.c\<close>.\<close>

record main_opts =
  opt_c :: "string option"
  opt_u :: "string option"
  opt_p :: "string option"
  opt_d :: "string option"
  dodaemon :: bool

text \<open>One constructor per action.\<close>

datatype directive =
    Set_user string | Set_log_facility string | Set_log_level string | Set_plugin_rp string
  | Set_backend string | Set_auth_timeout int | Set_prepend_pin bool | Set_hardfail int | Set_softfail int | Set_ewindow_size int
  | Set_rwindow_size int | Set_site_transform bool
  | Set_file_passwd string | Set_file_encrypt emode int | Set_file_server string | Finish_file
  | Set_ldap_host string | Set_ldap_port int | Set_ldap_binddn string | Set_ldap_bindpw string | Set_ldap_basedn string | Set_ldap_filter string
  | Set_ldap_scope string | Set_tls_mode string | Set_tls_verify_cert string | Set_tls_cacertfile string | Set_tls_cacertdir string | Set_tls_certfile string
  | Set_tls_keyfile string | Finish_tls | Finish_ldap
  | Set_passwd_keyid int | Set_passwd_key string | Finish_key
  | Set_state_mode string | Set_statedir string | Set_state_timeout int | Set_state_gport int
  | Set_server_name string | Set_server_primary string | Set_server_backup string | Set_server_timeout int | Set_server_gport int
  | Set_server_key string | Finish_server | Finish_state

text \<open>The flags \<open>seen_X\<close> that are only flags.\<close>

datatype seen = User | Log_facility | Log_level | Backend | Auth_timeout | Prepend_pin | Hardfail | Softfail | Ewindow_size | Rwindow_size | Site_transform | File | Ldap
  | File_passwd | File_encrypt | File_server | Ldap_binddn | Ldap_bindpw | Ldap_basedn | Ldap_filter | Ldap_scope | Tls_mode | Tls
  | Tls_verify_cert | Tls_cacertfile | Tls_cacertdir | Tls_certfile | Tls_keyfile
  | Passwd_keyid | Passwd_key | State_mode | Statedir | Gport | State

text \<open>A server as it is kept until the end; ports are in host order.\<close>

record server_t =
  sv_name :: string
  sv_primary :: string
  sv_backup :: "string option"
  sv_timeout :: int
  sv_gport :: int
  sv_key :: string

text \<open>Whom the process runs as.\<close>

record cred_t =
  cr_uid :: u32
  cr_gid :: u32
  cr_groups :: "u32 list"

text \<open>
  The variables: the configuration itself, the flags, and those that double as a value. \<open>cf_keys\<close> is the array \<open>config.key\<close>, \<open>None\<close> for a null pointer. The variables of
  the log and the credentials of the process are part of the state as well, and the listening socket with its path.
\<close>

record cfg_t =
  cf :: config_t
  cf_seen :: "seen list"
  cf_backend :: backend
  cf_ldap :: ldap_config_t
  cf_keys :: "byte list option list option"
  cf_keyid :: int
  cf_key :: "byte list"
  cf_gtimeout :: int
  cf_gport :: int
  cf_name :: "string option"
  cf_primary :: "string option"
  cf_backup :: "string option"
  cf_timeout :: int
  cf_sgport :: int
  cf_skey :: "string option"
  cf_gsmd :: "server_t list"
  cf_plugin_rp :: "string option"
  cf_log :: log_t
  cf_cred :: cred_t
  cf_ldap_init :: "ldap_init_t option"
  cf_s :: int
  cf_path :: string

text \<open>
  What the actions ask the system: \<open>access\<close>, \<open>gethostbyname\<close>, the ports of services, the user and group numbers of a user, the calls that change them, whether a module for
  users is loaded, what the LDAP library accepts, and the calls for the listening socket.
\<close>

record cfg_env =
  en_open :: "string \<Rightarrow> bool"
  en_access :: "string \<Rightarrow> bool"
  en_host :: "string \<Rightarrow> bool"
  en_gsmd_port :: "int option"
  en_ldap_port :: "int option"
  en_getpwuid :: "u32 \<Rightarrow> (u32 \<times> u32) option"
  en_getpwnam :: "string \<Rightarrow> (u32 \<times> u32) option"
  en_setgid :: "cred_t \<Rightarrow> bool"
  en_setgroups :: "cred_t \<Rightarrow> bool"
  en_setuid :: "cred_t \<Rightarrow> bool"
  en_cred :: cred_t
  en_file :: bool
  en_ldap :: bool
  en_set_option :: "ldap_opt \<Rightarrow> bool"
  en_socket :: "int option"
  en_unlink :: "string \<Rightarrow> int option"
  en_bind :: "string \<Rightarrow> bool"
  en_listen :: bool

definition OTPD_DEFAULT_CF :: string where "OTPD_DEFAULT_CF = ''/etc/otpd.conf''"
definition OTPD_PLUGIN_RP :: string where "OTPD_PLUGIN_RP = ''/var/run/otpd/socket''"

definition config_defaults :: config_t where
  "config_defaults = \<lparr>c_hardfail = 0, c_softfail = 5, c_timeout = 11700000000, c_prepend_pin = True, c_ewindow_size = 5, c_rwindow_size = 25,
     c_site_transform = True, c_file_passwd = ''/etc/otppasswd'', c_file_encryptmode = EMODE_CLEAR, c_file_keyid = 0, c_file_gsmd = [],
     c_key = (\<lambda>i. None), c_state_mode = SMODE_LOCAL, c_statedir = ''/etc/otpstate''\<rparr>"

definition cfg_start :: "cfg_env \<Rightarrow> cfg_t" where
  "cfg_start env = \<lparr>cf = config_defaults, cf_seen = [], cf_backend = BACKEND_FILE,
     cf_ldap = \<lparr>ld_host = None, ld_port = 0, ld_url = None, ld_binddn = None, ld_bindpw = None, ld_basedn = None, ld_filter = None, ld_scope = None,
       ld_tls_mode = TLSMODE_OFF,
       ld_verify_cert = 0, ld_cacertfile = None, ld_cacertdir = None, ld_certfile = None, ld_keyfile = None\<rparr>,
     cf_keys = None, cf_keyid = 0, cf_key = [], cf_gtimeout = 0,
     cf_gport = (case en_gsmd_port env of None \<Rightarrow> 1220 | Some p \<Rightarrow> p),
     cf_name = None, cf_primary = None, cf_backup = None, cf_timeout = 0, cf_sgport = 0, cf_skey = None, cf_gsmd = [],
     cf_plugin_rp = None, cf_log = log_start, cf_cred = en_cred env, cf_ldap_init = None, cf_s = 0, cf_path = []\<rparr>"

text \<open>The guard of an option: a second one is ignored.\<close>

definition once :: "seen \<Rightarrow> (cfg_t \<Rightarrow> cfg_t cres) \<Rightarrow> cfg_t \<Rightarrow> cfg_t cres" where
  "once o' f st = (if o' \<in> set (cf_seen st) then COk st else f (st\<lparr>cf_seen := o' # cf_seen st\<rparr>))"

text \<open>The product of two numbers of type \<open>int\<close>, which wraps around on the machines the program is built for (C leaves the overflow undefined).\<close>

definition int_mult :: "int \<Rightarrow> int \<Rightarrow> int" where
  "int_mult a b = sint (word_of_int (a * b) :: 32 word)"

subsection \<open>Options of the daemon\<close>

text \<open>\<open>atoi\<close> on decimal digits: a 64 bit number that saturates, cut to 32 bits.\<close>

definition atoi :: "string \<Rightarrow> 32 word" where
  "atoi s = word_of_int (min (int (digits_val 10 s)) (2 ^ 63 - 1))"

text \<open>The numbers of user and group; a name of digits alone is a number.\<close>

definition getpw :: "cfg_env \<Rightarrow> string \<Rightarrow> (u32 \<times> u32) option" where
  "getpw env arg = (if list_all is_dec arg then en_getpwuid env (atoi arg) else en_getpwnam env arg)"

definition run_as :: "cfg_env \<Rightarrow> u32 \<Rightarrow> u32 \<Rightarrow> cfg_t \<Rightarrow> cfg_t cres" where
  "run_as env uid gid st =
     (let c = cf_cred st in
      cbind (xsetgid (en_setgid env c)) (\<lambda>_.
        let c = c\<lparr>cr_gid := gid\<rparr>; c = (if en_setgroups env c then c\<lparr>cr_groups := []\<rparr> else c)
        in cbind (xsetuid (en_setuid env c)) (\<lambda>_. COk (st\<lparr>cf_cred := c\<lparr>cr_uid := uid\<rparr>\<rparr>))))"

definition set_user :: "cfg_env \<Rightarrow> main_opts \<Rightarrow> string \<Rightarrow> bool \<Rightarrow> cfg_t \<Rightarrow> cfg_t cres" where
  "set_user env o' arg config_file st =
     (if config_file \<and> User \<in> set (cf_seen st) then COk st
      else let st = (if config_file then st\<lparr>cf_seen := User # cf_seen st\<rparr> else st) in
        if config_file \<and> opt_u o' \<noteq> None then COk st
        else case getpw env arg of None \<Rightarrow> CErr 1 | Some (uid, gid) \<Rightarrow> run_as env uid gid st)"

definition fac_names :: "(string \<times> int) list" where
  "fac_names = [(''user'', 8), (''mail'', 16), (''daemon'', 24), (''ftp'', 88), (''auth'', LOG_AUTH), (''authpriv'', 80), (''lpr'', 48), (''news'', 56), (''uucp'', 64),
     (''cron'', 72), (''audit'', LOG_AUTH), (''local0'', 128), (''local1'', 136), (''local2'', 144), (''local3'', 152), (''local4'', 160), (''local5'', 168),
     (''local6'', 176), (''local7'', 184)]"

definition set_log_facility :: "string \<Rightarrow> cfg_t \<Rightarrow> cfg_t cres" where
  "set_log_facility arg = once Log_facility (\<lambda>st. case map_of fac_names arg of
     None \<Rightarrow> CErr 1
   | Some f \<Rightarrow> COk (st\<lparr>cf_log := (cf_log st)\<lparr>log_facility := f\<rparr>\<rparr>))"

definition pri_names :: "(string \<times> int) list" where
  "pri_names = [(''emerg'', 0), (''alert'', 1), (''crit'', 2), (''err'', 3), (''warning'', 4), (''notice'', 5), (''info'', 6), (''debug'', LOG_DEBUG),
     (''debug0'', LOG_DEBUG), (''debug1'', 8), (''debug2'', 9), (''debug3'', 10), (''debug4'', 11), (''debug5'', 12), (''debug6'', 13), (''debug7'', 14), (''debug8'', 15)]"

definition set_log_level :: "main_opts \<Rightarrow> string \<Rightarrow> bool \<Rightarrow> cfg_t \<Rightarrow> cfg_t cres" where
  "set_log_level o' arg config_file st =
     (if config_file \<and> Log_level \<in> set (cf_seen st) then COk st
      else let st = (if config_file then st\<lparr>cf_seen := Log_level # cf_seen st\<rparr> else st) in
        case map_of pri_names arg of
          None \<Rightarrow> CErr 1
        | Some level \<Rightarrow> COk (if config_file \<and> opt_d o' \<noteq> None then st else st\<lparr>cf_log := (cf_log st)\<lparr>log_level := level\<rparr>\<rparr>))"

text \<open>The size of \<open>sun_path\<close> on Linux, less one.\<close>

definition rp_maxlen :: nat where "rp_maxlen = min 107 PATH_MAX"

definition set_plugin_rp :: "main_opts \<Rightarrow> string \<Rightarrow> bool \<Rightarrow> cfg_t \<Rightarrow> cfg_t cres" where
  "set_plugin_rp o' arg config_file st =
     (if config_file \<and> cf_plugin_rp st \<noteq> None then COk st
      else if take 1 arg \<noteq> ''/'' then CErr 1
      else if rp_maxlen < length arg then CErr 1
      else if config_file \<and> opt_p o' \<noteq> None then COk st
      else COk (st\<lparr>cf_plugin_rp := Some arg\<rparr>))"

definition set_backend :: "string \<Rightarrow> cfg_t \<Rightarrow> cfg_t cres" where
  "set_backend arg = once Backend (\<lambda>st.
     if arg = ''file'' then COk (st\<lparr>cf_backend := BACKEND_FILE\<rparr>)
     else if arg = ''ldap'' then COk (st\<lparr>cf_backend := BACKEND_LDAP\<rparr>)
     else CErr 1)"

definition set_auth_timeout :: "int \<Rightarrow> cfg_t \<Rightarrow> cfg_t cres" where
  "set_auth_timeout arg = once Auth_timeout (\<lambda>st.
     if arg < 3000 then CErr 1 else COk (st\<lparr>cf := (cf st)\<lparr>c_timeout := int_mult arg 1000000\<rparr>\<rparr>))"

definition set_prepend_pin :: "bool \<Rightarrow> cfg_t \<Rightarrow> cfg_t cres" where
  "set_prepend_pin arg = once Prepend_pin (\<lambda>st. COk (st\<lparr>cf := (cf st)\<lparr>c_prepend_pin := arg\<rparr>\<rparr>))"

definition set_hardfail :: "int \<Rightarrow> cfg_t \<Rightarrow> cfg_t cres" where
  "set_hardfail arg = once Hardfail (\<lambda>st. COk (st\<lparr>cf := (cf st)\<lparr>c_hardfail := word_of_int arg\<rparr>\<rparr>))"

definition set_softfail :: "int \<Rightarrow> cfg_t \<Rightarrow> cfg_t cres" where
  "set_softfail arg = once Softfail (\<lambda>st. COk (st\<lparr>cf := (cf st)\<lparr>c_softfail := word_of_int arg\<rparr>\<rparr>))"

definition set_ewindow_size :: "int \<Rightarrow> cfg_t \<Rightarrow> cfg_t cres" where
  "set_ewindow_size arg = once Ewindow_size (\<lambda>st. COk (st\<lparr>cf := (cf st)\<lparr>c_ewindow_size := word_of_int arg\<rparr>\<rparr>))"

definition set_rwindow_size :: "int \<Rightarrow> cfg_t \<Rightarrow> cfg_t cres" where
  "set_rwindow_size arg = once Rwindow_size (\<lambda>st. COk (st\<lparr>cf := (cf st)\<lparr>c_rwindow_size := word_of_int arg\<rparr>\<rparr>))"

definition set_site_transform :: "bool \<Rightarrow> cfg_t \<Rightarrow> cfg_t cres" where
  "set_site_transform arg = once Site_transform (\<lambda>st. COk (st\<lparr>cf := (cf st)\<lparr>c_site_transform := arg\<rparr>\<rparr>))"

subsection \<open>The password file\<close>

definition set_file_passwd :: "cfg_env \<Rightarrow> string \<Rightarrow> cfg_t \<Rightarrow> cfg_t cres" where
  "set_file_passwd env arg = once File_passwd (\<lambda>st.
     if take 1 arg \<noteq> ''/'' then CErr 1
     else if \<not> en_access env arg then CErr 1
     else if PATH_MAX < length arg then CFault
     else COk (st\<lparr>cf := (cf st)\<lparr>c_file_passwd := arg\<rparr>\<rparr>))"

definition set_file_encrypt :: "emode \<Rightarrow> int \<Rightarrow> cfg_t \<Rightarrow> cfg_t cres" where
  "set_file_encrypt mode n = once File_encrypt (\<lambda>st.
     if 127 < n then CErr 1 else COk (st\<lparr>cf := (cf st)\<lparr>c_file_encryptmode := mode, c_file_keyid := n\<rparr>\<rparr>))"

definition set_file_server :: "string \<Rightarrow> cfg_t \<Rightarrow> cfg_t cres" where
  "set_file_server arg = once File_server (\<lambda>st.
     if GSM_MAX_NAME_LEN < length arg then CErr 1 else COk (st\<lparr>cf := (cf st)\<lparr>c_file_gsmd := arg\<rparr>\<rparr>))"

definition finish_file :: "cfg_env \<Rightarrow> cfg_t \<Rightarrow> cfg_t cres" where
  "finish_file env st =
     (if \<not> en_file env then CErr 1
      else if File \<in> set (cf_seen st) then CErr 1
      else COk (st\<lparr>cf_seen := File # cf_seen st\<rparr>))"

subsection \<open>The directory\<close>

definition set_ldap_host :: "cfg_env \<Rightarrow> string \<Rightarrow> cfg_t \<Rightarrow> cfg_t cres" where
  "set_ldap_host env arg st =
     (if ld_host (cf_ldap st) \<noteq> None then COk st
      else if \<not> en_host env arg then CErr 1
      else COk (st\<lparr>cf_ldap := (cf_ldap st)\<lparr>ld_host := Some arg\<rparr>\<rparr>))"

definition set_ldap_port :: "int \<Rightarrow> cfg_t \<Rightarrow> cfg_t cres" where
  "set_ldap_port arg st =
     (if ld_port (cf_ldap st) \<noteq> 0 then COk st
      else if arg = 0 \<or> 65535 < arg then CErr 1
      else COk (st\<lparr>cf_ldap := (cf_ldap st)\<lparr>ld_port := arg\<rparr>\<rparr>))"

definition set_ldap_binddn :: "string \<Rightarrow> cfg_t \<Rightarrow> cfg_t cres" where
  "set_ldap_binddn arg = once Ldap_binddn (\<lambda>st. COk (st\<lparr>cf_ldap := (cf_ldap st)\<lparr>ld_binddn := Some arg\<rparr>\<rparr>))"

definition set_ldap_bindpw :: "string \<Rightarrow> cfg_t \<Rightarrow> cfg_t cres" where
  "set_ldap_bindpw arg = once Ldap_bindpw (\<lambda>st. COk (st\<lparr>cf_ldap := (cf_ldap st)\<lparr>ld_bindpw := Some arg\<rparr>\<rparr>))"

definition set_ldap_basedn :: "string \<Rightarrow> cfg_t \<Rightarrow> cfg_t cres" where
  "set_ldap_basedn arg = once Ldap_basedn (\<lambda>st. COk (st\<lparr>cf_ldap := (cf_ldap st)\<lparr>ld_basedn := Some arg\<rparr>\<rparr>))"

text \<open>The loop of \<open>set_ldap_filter\<close>: \<open>seen_u\<close>, the rest of the string, and the string with \<open>%u\<close> changed to \<open>%s\<close>.\<close>

fun filter_scan :: "bool \<Rightarrow> string \<Rightarrow> (bool \<times> string) option" where
  "filter_scan seen_u [] = Some (seen_u, [])"
| "filter_scan seen_u (c # cs) =
     (if c = CHR ''%''
      then if seen_u \<or> take 1 cs \<noteq> ''u'' then None
           else map_option (\<lambda>(s, f). (s, ''%s'' @ f)) (filter_scan True (drop 1 cs))
      else map_option (\<lambda>(s, f). (s, c # f)) (filter_scan seen_u cs))"

definition set_ldap_filter :: "string \<Rightarrow> cfg_t \<Rightarrow> cfg_t cres" where
  "set_ldap_filter arg = once Ldap_filter (\<lambda>st. case filter_scan False arg of
     None \<Rightarrow> CErr 1
   | Some (seen_u, f) \<Rightarrow>
       if \<not> seen_u then CErr 1
       else COk (st\<lparr>cf_ldap := (cf_ldap st)\<lparr>ld_filter := Some (f, length arg - 2)\<rparr>\<rparr>))"

definition set_ldap_scope :: "string \<Rightarrow> cfg_t \<Rightarrow> cfg_t cres" where
  "set_ldap_scope arg = once Ldap_scope (\<lambda>st.
     if arg \<noteq> ''one'' \<and> arg \<noteq> ''sub'' then CErr 1 else COk (st\<lparr>cf_ldap := (cf_ldap st)\<lparr>ld_scope := Some arg\<rparr>\<rparr>))"

definition set_tls_mode :: "string \<Rightarrow> cfg_t \<Rightarrow> cfg_t cres" where
  "set_tls_mode arg = once Tls_mode (\<lambda>st.
     if arg = ''off'' then COk (st\<lparr>cf_ldap := (cf_ldap st)\<lparr>ld_tls_mode := TLSMODE_OFF\<rparr>\<rparr>)
     else if arg = ''on'' then COk (st\<lparr>cf_ldap := (cf_ldap st)\<lparr>ld_tls_mode := TLSMODE_ON\<rparr>\<rparr>)
     else if arg = ''bind-only'' then COk (st\<lparr>cf_ldap := (cf_ldap st)\<lparr>ld_tls_mode := TLSMODE_BINDONLY\<rparr>\<rparr>)
     else CErr 1)"

definition set_tls_verify_cert :: "string \<Rightarrow> cfg_t \<Rightarrow> cfg_t cres" where
  "set_tls_verify_cert arg = once Tls_verify_cert (\<lambda>st.
     if arg = ''ignore'' then COk (st\<lparr>cf_ldap := (cf_ldap st)\<lparr>ld_verify_cert := 0\<rparr>\<rparr>)
     else if arg = ''check'' then COk (st\<lparr>cf_ldap := (cf_ldap st)\<lparr>ld_verify_cert := 1\<rparr>\<rparr>)
     else if arg = ''crl'' then COk (st\<lparr>cf_ldap := (cf_ldap st)\<lparr>ld_verify_cert := 2\<rparr>\<rparr>)
     else CErr 1)"

definition set_tls_cacertfile :: "cfg_env \<Rightarrow> string \<Rightarrow> cfg_t \<Rightarrow> cfg_t cres" where
  "set_tls_cacertfile env arg = once Tls_cacertfile (\<lambda>st.
     if \<not> en_access env arg then CErr 1 else COk (st\<lparr>cf_ldap := (cf_ldap st)\<lparr>ld_cacertfile := Some arg\<rparr>\<rparr>))"

definition set_tls_cacertdir :: "cfg_env \<Rightarrow> string \<Rightarrow> cfg_t \<Rightarrow> cfg_t cres" where
  "set_tls_cacertdir env arg = once Tls_cacertdir (\<lambda>st.
     if \<not> en_access env arg then CErr 1 else COk (st\<lparr>cf_ldap := (cf_ldap st)\<lparr>ld_cacertdir := Some arg\<rparr>\<rparr>))"

definition set_tls_certfile :: "cfg_env \<Rightarrow> string \<Rightarrow> cfg_t \<Rightarrow> cfg_t cres" where
  "set_tls_certfile env arg = once Tls_certfile (\<lambda>st.
     if \<not> en_access env arg then CErr 1 else COk (st\<lparr>cf_ldap := (cf_ldap st)\<lparr>ld_certfile := Some arg\<rparr>\<rparr>))"

definition set_tls_keyfile :: "cfg_env \<Rightarrow> string \<Rightarrow> cfg_t \<Rightarrow> cfg_t cres" where
  "set_tls_keyfile env arg = once Tls_keyfile (\<lambda>st.
     if \<not> en_access env arg then CErr 1 else COk (st\<lparr>cf_ldap := (cf_ldap st)\<lparr>ld_keyfile := Some arg\<rparr>\<rparr>))"

definition finish_tls :: "cfg_t \<Rightarrow> cfg_t cres" where
  "finish_tls st = (if Tls \<in> set (cf_seen st) then CErr 1 else COk (st\<lparr>cf_seen := Tls # cf_seen st\<rparr>))"

definition finish_ldap :: "cfg_env \<Rightarrow> cfg_t \<Rightarrow> cfg_t cres" where
  "finish_ldap env st =
     (if \<not> en_ldap env then CErr 1
      else if Ldap \<in> set (cf_seen st) then CErr 1
      else
        let l = cf_ldap st;
            host = (case ld_host l of None \<Rightarrow> ''localhost'' | Some h \<Rightarrow> h);
            port = (if ld_port l = 0 then (case en_ldap_port env of None \<Rightarrow> 389 | Some p \<Rightarrow> p) else ld_port l)
        in if ld_binddn l \<noteq> None \<and> ld_bindpw l = None then CErr 1
           else if ld_basedn l = None then CErr 1
           else if ld_filter l = None then CErr 1
           else COk (st\<lparr>cf_seen := Ldap # cf_seen st,
             cf_ldap := l\<lparr>ld_host := Some host, ld_port := port, ld_url := Some (''ldap://'' @ host @ '':'' @ radix_string 10 (nat port)),
               ld_scope := Some (case ld_scope l of None \<Rightarrow> ''sub'' | Some s \<Rightarrow> s)\<rparr>\<rparr>))"

subsection \<open>Keys\<close>

definition set_passwd_keyid :: "int \<Rightarrow> cfg_t \<Rightarrow> cfg_t cres" where
  "set_passwd_keyid arg = once Passwd_keyid (\<lambda>st. COk (st\<lparr>cf_keyid := arg\<rparr>))"

definition set_passwd_key :: "string \<Rightarrow> cfg_t \<Rightarrow> cfg_t cres" where
  "set_passwd_key arg = once Passwd_key (\<lambda>st.
     if odd (length arg) then CErr 1
     else case a2nx arg (length arg div 2) of None \<Rightarrow> CErr 1 | Some key \<Rightarrow> COk (st\<lparr>cf_key := key\<rparr>))"

text \<open>
  Room for key \<open>n\<close>. When the array grows, \<open>memset\<close> starts at the place of the new key instead of the first new place; with more than one new place it
  goes beyond the array.
\<close>

definition key_room :: "nat \<Rightarrow> byte list option list option \<Rightarrow> byte list option list cres" where
  "key_room n keys = (case keys of
     None \<Rightarrow> COk (replicate (n + 1) None)
   | Some ks \<Rightarrow>
       if length ks \<le> n
       then if 1 < n + 1 - length ks then CFault else COk (ks @ [None])
       else COk ks)"

definition finish_key :: "cfg_t \<Rightarrow> cfg_t cres" where
  "finish_key st =
     (if Passwd_keyid \<notin> set (cf_seen st) \<or> Passwd_key \<notin> set (cf_seen st) then CErr 1
      else if 127 < cf_keyid st then CErr 1
      else if cf_keyid st < 0 then CFault
      else cbind (key_room (nat (cf_keyid st)) (cf_keys st)) (\<lambda>ks.
        if ks ! nat (cf_keyid st) \<noteq> None then CErr 1
        else COk (st\<lparr>cf_seen := filter (\<lambda>s. s \<noteq> Passwd_keyid \<and> s \<noteq> Passwd_key) (cf_seen st),
          cf_keys := Some (ks[nat (cf_keyid st) := Some (cf_key st)])\<rparr>)))"

subsection \<open>State\<close>

definition set_state_mode :: "string \<Rightarrow> cfg_t \<Rightarrow> cfg_t cres" where
  "set_state_mode arg = once State_mode (\<lambda>st.
     if arg = ''local'' then COk (st\<lparr>cf := (cf st)\<lparr>c_state_mode := SMODE_LOCAL\<rparr>\<rparr>)
     else if arg = ''global'' then COk (st\<lparr>cf := (cf st)\<lparr>c_state_mode := SMODE_GLOBAL\<rparr>\<rparr>)
     else CErr 1)"

definition set_statedir :: "string \<Rightarrow> cfg_t \<Rightarrow> cfg_t cres" where
  "set_statedir arg = once Statedir (\<lambda>st.
     if take 1 arg \<noteq> ''/'' then CErr 1
     else if PATH_MAX - OTP_MAX_USERNAME_LEN - 8 < length arg then CErr 1
     else COk (st\<lparr>cf := (cf st)\<lparr>c_statedir := arg\<rparr>\<rparr>))"

definition set_state_timeout :: "int \<Rightarrow> cfg_t \<Rightarrow> cfg_t cres" where
  "set_state_timeout arg st = COk (if cf_gtimeout st \<noteq> 0 then st else st\<lparr>cf_gtimeout := int_mult arg 1000000\<rparr>)"

definition set_state_gport :: "int \<Rightarrow> cfg_t \<Rightarrow> cfg_t cres" where
  "set_state_gport arg = once Gport (\<lambda>st. if arg = 0 \<or> 65535 < arg then CErr 1 else COk (st\<lparr>cf_gport := arg\<rparr>))"

definition set_server_name :: "string \<Rightarrow> cfg_t \<Rightarrow> cfg_t cres" where
  "set_server_name arg st =
     (if cf_name st \<noteq> None then COk st
      else if GSM_MAX_NAME_LEN < length arg then CErr 1
      else if arg \<in> set (map sv_name (cf_gsmd st)) then CErr 1
      else COk (st\<lparr>cf_name := Some arg\<rparr>))"

definition set_server_primary :: "string \<Rightarrow> cfg_t \<Rightarrow> cfg_t cres" where
  "set_server_primary arg st = COk (if cf_primary st \<noteq> None then st else st\<lparr>cf_primary := Some arg\<rparr>)"

definition set_server_backup :: "string \<Rightarrow> cfg_t \<Rightarrow> cfg_t cres" where
  "set_server_backup arg st = COk (if cf_backup st \<noteq> None then st else st\<lparr>cf_backup := Some arg\<rparr>)"

definition set_server_timeout :: "int \<Rightarrow> cfg_t \<Rightarrow> cfg_t cres" where
  "set_server_timeout arg st = COk (if cf_timeout st \<noteq> 0 then st else st\<lparr>cf_timeout := arg\<rparr>)"

definition set_server_gport :: "int \<Rightarrow> cfg_t \<Rightarrow> cfg_t cres" where
  "set_server_gport arg st =
     (if cf_sgport st \<noteq> 0 then COk st
      else if arg = 0 \<or> 65535 < arg then CErr 1
      else COk (st\<lparr>cf_sgport := arg\<rparr>))"

definition set_server_key :: "string \<Rightarrow> cfg_t \<Rightarrow> cfg_t cres" where
  "set_server_key arg st =
     (if cf_skey st \<noteq> None then COk st
      else if length arg \<noteq> 64 then CErr 1
      else COk (st\<lparr>cf_skey := Some arg\<rparr>))"

definition finish_server :: "cfg_t \<Rightarrow> cfg_t cres" where
  "finish_server st = (case (cf_name st, cf_primary st, cf_skey st) of
     (Some name, Some primary, Some key) \<Rightarrow>
       COk (st\<lparr>cf_gsmd := cf_gsmd st @ [\<lparr>sv_name = name, sv_primary = primary, sv_backup = cf_backup st, sv_timeout = cf_timeout st,
             sv_gport = cf_sgport st, sv_key = key\<rparr>],
           cf_name := None, cf_primary := None, cf_backup := None, cf_timeout := 0, cf_sgport := 0, cf_skey := None\<rparr>)
   | _ \<Rightarrow> CErr 1)"

definition finish_state :: "cfg_t \<Rightarrow> cfg_t cres" where
  "finish_state st = (if State \<in> set (cf_seen st) then CErr 1 else COk (st\<lparr>cf_seen := State # cf_seen st\<rparr>))"

subsection \<open>The whole file\<close>

fun do_directive :: "cfg_env \<Rightarrow> main_opts \<Rightarrow> directive \<Rightarrow> cfg_t \<Rightarrow> cfg_t cres" where
  "do_directive env o' (Set_user a) = set_user env o' a True"
| "do_directive env o' (Set_log_facility a) = set_log_facility a"
| "do_directive env o' (Set_log_level a) = set_log_level o' a True"
| "do_directive env o' (Set_plugin_rp a) = set_plugin_rp o' a True"
| "do_directive env o' (Set_backend a) = set_backend a"
| "do_directive env o' (Set_auth_timeout n) = set_auth_timeout n"
| "do_directive env o' (Set_prepend_pin b) = set_prepend_pin b"
| "do_directive env o' (Set_hardfail n) = set_hardfail n"
| "do_directive env o' (Set_softfail n) = set_softfail n"
| "do_directive env o' (Set_ewindow_size n) = set_ewindow_size n"
| "do_directive env o' (Set_rwindow_size n) = set_rwindow_size n"
| "do_directive env o' (Set_site_transform b) = set_site_transform b"
| "do_directive env o' (Set_file_passwd a) = set_file_passwd env a"
| "do_directive env o' (Set_file_encrypt m n) = set_file_encrypt m n"
| "do_directive env o' (Set_file_server a) = set_file_server a"
| "do_directive env o' Finish_file = finish_file env"
| "do_directive env o' (Set_ldap_host a) = set_ldap_host env a"
| "do_directive env o' (Set_ldap_port n) = set_ldap_port n"
| "do_directive env o' (Set_ldap_binddn a) = set_ldap_binddn a"
| "do_directive env o' (Set_ldap_bindpw a) = set_ldap_bindpw a"
| "do_directive env o' (Set_ldap_basedn a) = set_ldap_basedn a"
| "do_directive env o' (Set_ldap_filter a) = set_ldap_filter a"
| "do_directive env o' (Set_ldap_scope a) = set_ldap_scope a"
| "do_directive env o' (Set_tls_mode a) = set_tls_mode a"
| "do_directive env o' (Set_tls_verify_cert a) = set_tls_verify_cert a"
| "do_directive env o' (Set_tls_cacertfile a) = set_tls_cacertfile env a"
| "do_directive env o' (Set_tls_cacertdir a) = set_tls_cacertdir env a"
| "do_directive env o' (Set_tls_certfile a) = set_tls_certfile env a"
| "do_directive env o' (Set_tls_keyfile a) = set_tls_keyfile env a"
| "do_directive env o' Finish_tls = finish_tls"
| "do_directive env o' Finish_ldap = finish_ldap env"
| "do_directive env o' (Set_passwd_keyid n) = set_passwd_keyid n"
| "do_directive env o' (Set_passwd_key a) = set_passwd_key a"
| "do_directive env o' Finish_key = finish_key"
| "do_directive env o' (Set_state_mode a) = set_state_mode a"
| "do_directive env o' (Set_statedir a) = set_statedir a"
| "do_directive env o' (Set_state_timeout n) = set_state_timeout n"
| "do_directive env o' (Set_state_gport n) = set_state_gport n"
| "do_directive env o' (Set_server_name a) = set_server_name a"
| "do_directive env o' (Set_server_primary a) = set_server_primary a"
| "do_directive env o' (Set_server_backup a) = set_server_backup a"
| "do_directive env o' (Set_server_timeout n) = set_server_timeout n"
| "do_directive env o' (Set_server_gport n) = set_server_gport n"
| "do_directive env o' (Set_server_key a) = set_server_key a"
| "do_directive env o' Finish_server = finish_server"
| "do_directive env o' Finish_state = finish_state"

fun yyparse :: "cfg_env \<Rightarrow> main_opts \<Rightarrow> directive list \<Rightarrow> cfg_t \<Rightarrow> cfg_t cres" where
  "yyparse env o' [] st = COk st"
| "yyparse env o' (d # ds) st = cbind (do_directive env o' d st) (yyparse env o' ds)"

text \<open>The timeouts of the state managers: the common one, and the one of a server, in which nothing is converted from milliseconds.\<close>

definition gtimeout_of :: "cfg_t \<Rightarrow> int cres" where
  "gtimeout_of st =
     (let timeout = c_timeout (cf st);
          g = (if cf_gtimeout st = 0 then max (timeout * 2 + 1000000000) 30000000000 else cf_gtimeout st)
      in if g < timeout + 1000000000 then CErr 1 else COk (g - timeout))"

definition fo_timeout_of :: "int \<Rightarrow> int \<Rightarrow> server_t \<Rightarrow> int cres" where
  "fo_timeout_of timeout gtimeout sv =
     (if sv_timeout sv = 0 then COk gtimeout
      else if sv_timeout sv < timeout + 1000000000 then CErr 1
      else COk (sv_timeout sv - timeout))"

definition gsmd_of :: "cfg_env \<Rightarrow> int \<Rightarrow> int \<Rightarrow> server_t \<Rightarrow> helix_scontext_t gsmd_t cres" where
  "gsmd_of env timeout gtimeout sv =
     cbind (fo_timeout_of timeout gtimeout sv) (\<lambda>fo.
       if \<not> en_host env (sv_primary sv) then CErr 1
       else if (case sv_backup sv of None \<Rightarrow> False | Some b \<Rightarrow> \<not> en_host env b) then CErr 1
       else case a2x (sv_key sv) of
           None \<Rightarrow> CErr 1
         | Some key \<Rightarrow>
             (case helix_setkey key of
                None \<Rightarrow> CFault
              | Some sc \<Rightarrow> COk \<lparr>g_name = sv_name sv, g_n = (if sv_backup sv = None then 1 else 2), g_active = 0, g_fo_timeout = fo,
                  g_fb_timeout = timeout + 1000000000, g_scontext = sc\<rparr>))"

fun gsmd_loop :: "cfg_env \<Rightarrow> int \<Rightarrow> int \<Rightarrow> server_t list \<Rightarrow> helix_scontext_t gsmd_chain \<Rightarrow> helix_scontext_t gsmd_chain cres" where
  "gsmd_loop env timeout gtimeout [] chain = COk chain"
| "gsmd_loop env timeout gtimeout (sv # svs) chain =
     cbind (gsmd_of env timeout gtimeout sv) (\<lambda>g. gsmd_loop env timeout gtimeout svs (gsmd_hash chain g))"

text \<open>
  \<open>finish_config\<close>. The key of the password file is looked up without a check that its number is within the array. \<open>unfound_gsmd\<close> is the number of
  file sections less the servers that bear the name of the file's server.
\<close>

definition file_key_check :: "cfg_t \<Rightarrow> unit cres" where
  "file_key_check st =
     (if cf_backend st = BACKEND_FILE \<and> c_file_encryptmode (cf st) = EMODE_KEYID
      then case cf_keys st of
          None \<Rightarrow> CErr 1
        | Some ks \<Rightarrow>
            if c_file_keyid (cf st) < 0 \<or> int (length ks) \<le> c_file_keyid (cf st) then CFault
            else if ks ! nat (c_file_keyid (cf st)) = None then CErr 1
            else COk ()
      else COk ())"

definition finish_global :: "cfg_env \<Rightarrow> cfg_t \<Rightarrow> helix_scontext_t gsmd_chain cres" where
  "finish_global env st =
     (if cf_gsmd st = [] then CErr 1
      else cbind (gtimeout_of st) (\<lambda>gtimeout.
        cbind (gsmd_loop env (c_timeout (cf st)) gtimeout (cf_gsmd st) gsmd_empty) (\<lambda>chain.
          let found = (if cf_backend st = BACKEND_FILE then length (filter (\<lambda>sv. sv_name sv = c_file_gsmd (cf st)) (cf_gsmd st)) else 0)
          in if (if File \<in> set (cf_seen st) then 1 else 0) \<noteq> found then CErr 1 else COk chain)))"

text \<open>The module for the backend, and the listening socket.\<close>

definition finish_userops :: "cfg_env \<Rightarrow> cfg_t \<Rightarrow> cfg_t cres" where
  "finish_userops env st =
     (if cf_backend st = BACKEND_FILE
      then if en_file env then COk st else CFault
      else if en_ldap env
      then cbind (ldap_init1 (en_set_option env) (cf st) (cf_ldap st)) (\<lambda>li. COk (st\<lparr>cf_ldap_init := Some li\<rparr>))
      else CFault)"

definition finish_listen :: "cfg_env \<Rightarrow> cfg_t \<Rightarrow> cfg_t cres" where
  "finish_listen env st =
     (let path = (case cf_plugin_rp st of None \<Rightarrow> OTPD_PLUGIN_RP | Some p \<Rightarrow> p) in
      cbind (xsocket (en_socket env)) (\<lambda>s.
      cbind (xunlink (en_unlink env path)) (\<lambda>_.
      cbind (xbind (en_bind env path)) (\<lambda>_.
      cbind (xlisten (en_listen env)) (\<lambda>_. COk (st\<lparr>cf_s := s, cf_path := path\<rparr>))))))"

definition finish_config :: "cfg_env \<Rightarrow> cfg_t \<Rightarrow> (cfg_t \<times> helix_scontext_t gsmd_chain) cres" where
  "finish_config env st =
     cbind (if File \<notin> set (cf_seen st) \<and> Ldap \<notin> set (cf_seen st) then finish_file env st else COk st) (\<lambda>st.
     if cf_backend st = BACKEND_LDAP \<and> Ldap \<notin> set (cf_seen st) then CErr 1
     else cbind (finish_userops env st) (\<lambda>st.
       cbind (file_key_check st) (\<lambda>_.
       cbind (finish_listen env st) (\<lambda>st.
         if c_state_mode (cf st) = SMODE_LOCAL
         then if \<not> en_access env (c_statedir (cf st)) then CErr 1 else COk (st, gsmd_empty)
         else cbind (finish_global env st) (\<lambda>chain. COk (st, chain))))))"

definition config_key :: "byte list option list option \<Rightarrow> int \<Rightarrow> byte list option" where
  "config_key keys i = (case keys of None \<Rightarrow> None | Some ks \<Rightarrow> if 0 \<le> i \<and> i < int (length ks) then ks ! nat i else None)"

text \<open>
  The options of the command line, before the file is read, and the start values of the variables, which keep what the options did to the log and
  the credentials only.
\<close>

definition cfg_command_line :: "cfg_env \<Rightarrow> main_opts \<Rightarrow> cfg_t cres" where
  "cfg_command_line env o' =
     cbind (case opt_d o' of None \<Rightarrow> COk (cfg_start env) | Some d \<Rightarrow> set_log_level o' d False (cfg_start env)) (\<lambda>st.
     cbind (case opt_u o' of None \<Rightarrow> COk st | Some u \<Rightarrow> set_user env o' u False st) (\<lambda>st.
       case opt_p o' of None \<Rightarrow> COk st | Some p \<Rightarrow> set_plugin_rp o' p False st))"

definition cfg_reset :: "cfg_env \<Rightarrow> cfg_t \<Rightarrow> cfg_t" where
  "cfg_reset env st = (cfg_start env)\<lparr>cf_log := cf_log st, cf_cred := cf_cred st\<rparr>"

text \<open>\<open>config_init\<close>: the configuration, and the other variables at the end.\<close>

definition config_init :: "cfg_env \<Rightarrow> main_opts \<Rightarrow> directive list \<Rightarrow> (config_t \<times> cfg_t \<times> helix_scontext_t gsmd_chain) cres" where
  "config_init env o' ds =
     cbind (cfg_command_line env o') (\<lambda>st.
     if \<not> en_open env (case opt_c o' of None \<Rightarrow> OTPD_DEFAULT_CF | Some c \<Rightarrow> c) then CErr 1
     else cbind (yyparse env o' ds (cfg_reset env st)) (\<lambda>st.
     cbind (finish_config env st) (\<lambda>(st, chain).
       let config = (cf st)\<lparr>c_key := config_key (cf_keys st)\<rparr>
       in COk (if c_rwindow_size config \<noteq> 0 \<and> c_rwindow_size config < c_ewindow_size config then config\<lparr>c_rwindow_size := 0\<rparr> else config,
               st, chain))))"

subsection \<open>Sample values\<close>

definition sample_cfg_env :: cfg_env where
  "sample_cfg_env = \<lparr>en_open = (\<lambda>f. True), en_access = (\<lambda>p. True), en_host = (\<lambda>h. True), en_gsmd_port = None, en_ldap_port = None,
     en_getpwuid = (\<lambda>u. Some (u, 100)), en_getpwnam = (\<lambda>n. if n = ''otpd'' then Some (7, 100) else None), en_setgid = (\<lambda>c. cr_uid c = 0),
     en_setgroups = (\<lambda>c. cr_uid c = 0), en_setuid = (\<lambda>c. cr_uid c = 0), en_cred = \<lparr>cr_uid = 0, cr_gid = 0, cr_groups = [0]\<rparr>, en_file = True, en_ldap = True,
     en_set_option = (\<lambda>o'. True), en_socket = Some 3, en_unlink = (\<lambda>p. None), en_bind = (\<lambda>p. True), en_listen = True\<rparr>"

definition no_opts :: main_opts where
  "no_opts = \<lparr>opt_c = None, opt_u = None, opt_p = None, opt_d = None, dodaemon = True\<rparr>"

definition sample_global :: "directive list" where
  "sample_global = [Set_file_server ''a'', Finish_file, Set_state_mode ''global'', Set_server_name ''a'', Set_server_primary ''h'', Set_server_backup ''b'',
     Set_server_key (replicate 64 (CHR ''0'')), Finish_server, Finish_state]"

definition sample_ldap_file :: "directive list" where
  "sample_ldap_file = [Set_ldap_basedn ''dc=x'', Set_ldap_filter ''(uid=%u)'', Finish_ldap, Set_backend ''ldap'']"

section \<open>Lemmas\<close>

text \<open>The filter that the configuration accepts: one \<open>%s\<close> and no other per cent sign.\<close>

definition filter_ok :: "string \<Rightarrow> nat \<Rightarrow> bool" where
  "filter_ok f n \<longleftrightarrow> (\<exists>a b. f = a @ ''%s'' @ b \<and> CHR ''%'' \<notin> set a \<and> CHR ''%'' \<notin> set b \<and> n = length a + length b)"

lemma filter_scan_seen: "filter_scan True cs = Some (s, f) \<Longrightarrow> s \<and> f = cs \<and> CHR ''%'' \<notin> set cs"
  by (induction cs arbitrary: s f) (auto split: if_splits)

lemma filter_scan_ok: "filter_scan False cs = Some (True, f) \<Longrightarrow> filter_ok f (length cs - 2) \<and> length f = length cs"
proof (induction cs arbitrary: f)
  case (Cons c cs)
  show ?case
  proof (cases "c = CHR ''%''")
    case True
    with Cons.prems obtain f' where f': "filter_scan True (drop 1 cs) = Some (True, f')" "f = ''%s'' @ f'" "take 1 cs = ''u''"
      by (auto split: if_splits)
    have "f' = drop 1 cs \<and> CHR ''%'' \<notin> set (drop 1 cs)" using filter_scan_seen [OF f'(1)] by simp
    moreover have "cs \<noteq> []" using f'(3) by auto
    ultimately show ?thesis using f'(2) unfolding filter_ok_def
      by (intro conjI exI [of _ "[]"] exI [of _ "drop 1 cs"]) auto
  next
    case False
    with Cons.prems obtain f' where f': "filter_scan False cs = Some (True, f')" "f = c # f'" by auto
    from Cons.IH [OF f'(1)] obtain a b where ab: "f' = a @ ''%s'' @ b" "CHR ''%'' \<notin> set a" "CHR ''%'' \<notin> set b" "length cs - 2 = length a + length b"
      and l: "length f' = length cs" unfolding filter_ok_def by blast
    from l ab(1) have "length (c # cs) - 2 = length (c # a) + length b" by simp
    with ab(1-3) f'(2) False l show ?thesis unfolding filter_ok_def by (intro conjI exI [of _ "c # a"] exI [of _ b]) auto
  qed
qed simp

lemma ldap_filter_no_percent: "CHR ''%'' \<notin> set a \<Longrightarrow> ldap_filter (a @ b) username = a @ ldap_filter b username"
  by (induction a) auto

lemma filter_ok_length: "filter_ok f n \<Longrightarrow> length (ldap_filter f username) = n + length username"
  by (auto simp: filter_ok_def ldap_filter_no_percent)

text \<open>What holds of the variables between the actions.\<close>

definition server_ok :: "server_t \<Rightarrow> bool" where
  "server_ok sv \<longleftrightarrow> length (sv_name sv) \<le> GSM_MAX_NAME_LEN \<and> length (sv_key sv) = 64"

definition paths_ok :: "string \<Rightarrow> string \<Rightarrow> string \<Rightarrow> bool" where
  "paths_ok statedir passwd server \<longleftrightarrow> take 1 statedir = ''/'' \<and> length statedir + OTP_MAX_USERNAME_LEN + 8 \<le> PATH_MAX
     \<and> length passwd \<le> PATH_MAX \<and> length server \<le> GSM_MAX_NAME_LEN"

definition timeout_ok :: "bool \<Rightarrow> int \<Rightarrow> bool" where
  "timeout_ok seen timeout \<longleftrightarrow> (if seen then \<bar>timeout\<bar> \<le> 2147483648 else timeout = 11700000000)"

definition filter_option_ok :: "(string \<times> nat) option \<Rightarrow> bool" where
  "filter_option_ok f \<longleftrightarrow> (case f of None \<Rightarrow> True | Some (f, n) \<Rightarrow> filter_ok f n)"

definition servers_ok :: "server_t list \<Rightarrow> string option \<Rightarrow> string option \<Rightarrow> bool" where
  "servers_ok svs name key \<longleftrightarrow> distinct (map sv_name svs) \<and> (\<forall>sv \<in> set svs. server_ok sv)
     \<and> (case name of None \<Rightarrow> True | Some n \<Rightarrow> length n \<le> GSM_MAX_NAME_LEN \<and> n \<notin> set (map sv_name svs))
     \<and> (case key of None \<Rightarrow> True | Some k \<Rightarrow> length k = 64)"

definition cfg_inv :: "cfg_t \<Rightarrow> bool" where
  "cfg_inv st \<longleftrightarrow> paths_ok (c_statedir (cf st)) (c_file_passwd (cf st)) (c_file_gsmd (cf st))
     \<and> filter_option_ok (ld_filter (cf_ldap st)) \<and> timeout_ok (Auth_timeout \<in> set (cf_seen st)) (c_timeout (cf st))
     \<and> servers_ok (cf_gsmd st) (cf_name st) (cf_skey st)"

lemma int_mult_bound: "\<bar>int_mult a b\<bar> \<le> 2147483648"
  using sint_range_size [of "word_of_int (a * b) :: 32 word"] by (simp add: int_mult_def word_size abs_le_iff)

lemma int_mult_wraps:
  assumes "3000 \<le> n" and "n \<le> 4294"
  shows "int_mult n 1000000 < 0"
proof -
  have "(n * 1000000 + 2147483648) mod 4294967296 = (n * 1000000 + 2147483648 - 4294967296) mod 4294967296" by (simp only: minus_mod_self2)
  also have "\<dots> = n * 1000000 + 2147483648 - 4294967296" using assms by (intro mod_pos_pos_trivial) auto
  finally have "int_mult n 1000000 = n * 1000000 + 2147483648 - 4294967296 - 2147483648"
    by (simp add: int_mult_def int_word_sint del: of_int_mult)
  with assms show ?thesis by linarith
qed

lemmas set_defs = set_user_def run_as_def set_log_facility_def set_log_level_def set_plugin_rp_def set_tls_verify_cert_def set_tls_cacertfile_def
  set_tls_cacertdir_def set_tls_certfile_def set_tls_keyfile_def set_backend_def set_auth_timeout_def set_prepend_pin_def set_hardfail_def set_softfail_def set_ewindow_size_def
  set_rwindow_size_def set_site_transform_def set_file_passwd_def set_file_encrypt_def set_file_server_def finish_file_def set_ldap_host_def
  set_ldap_port_def set_ldap_binddn_def set_ldap_bindpw_def set_ldap_basedn_def set_ldap_filter_def set_ldap_scope_def set_tls_mode_def
  finish_tls_def finish_ldap_def set_passwd_keyid_def set_passwd_key_def finish_key_def set_state_mode_def set_statedir_def set_state_timeout_def
  set_state_gport_def set_server_name_def set_server_primary_def set_server_backup_def set_server_timeout_def set_server_gport_def
  set_server_key_def finish_server_def finish_state_def

lemmas inv_parts = paths_ok_def timeout_ok_def filter_option_ok_def servers_ok_def

lemma cfg_start_inv: "cfg_inv (cfg_reset env st)"
  by (simp add: cfg_inv_def inv_parts cfg_reset_def cfg_start_def config_defaults_def GSM_MAX_NAME_LEN_def PATH_MAX_def OTP_MAX_USERNAME_LEN_def)

text \<open>Every action keeps the invariant; its parts one by one.\<close>

lemma directive_paths:
  assumes "do_directive env o' d st = COk st'" and "cfg_inv st"
  shows "paths_ok (c_statedir (cf st')) (c_file_passwd (cf st')) (c_file_gsmd (cf st'))"
proof -
  have inv: "paths_ok (c_statedir (cf st)) (c_file_passwd (cf st)) (c_file_gsmd (cf st))" using assms(2) by (simp add: cfg_inv_def)
  show ?thesis
  proof (cases d)
    case (Set_file_passwd a)
    with assms(1) inv show ?thesis by (auto simp: set_file_passwd_def once_def paths_ok_def split: if_splits)
  next
    case (Set_file_server a)
    with assms(1) inv show ?thesis by (auto simp: set_file_server_def once_def paths_ok_def split: if_splits)
  next
    case (Set_statedir a)
    with assms(1) inv show ?thesis by (auto simp: set_statedir_def once_def paths_ok_def split: if_splits)
  qed (use assms(1) inv in \<open>auto simp: set_defs once_def Let_def split: if_splits option.splits prod.splits\<close>)
qed

lemma directive_filter:
  assumes "do_directive env o' d st = COk st'" and "cfg_inv st"
  shows "filter_option_ok (ld_filter (cf_ldap st'))"
proof -
  have inv: "filter_option_ok (ld_filter (cf_ldap st))" using assms(2) by (simp add: cfg_inv_def)
  show ?thesis
  proof (cases d)
    case (Set_ldap_filter a)
    with assms(1) inv show ?thesis
      by (cases "filter_scan False a") (auto simp: set_ldap_filter_def once_def filter_option_ok_def dest!: filter_scan_ok split: if_splits)
  qed (use assms(1) inv in \<open>auto simp: set_defs once_def Let_def split: if_splits option.splits prod.splits\<close>)
qed

lemma directive_timeout:
  assumes "do_directive env o' d st = COk st'" and "cfg_inv st"
  shows "timeout_ok (Auth_timeout \<in> set (cf_seen st')) (c_timeout (cf st'))"
proof -
  have inv: "timeout_ok (Auth_timeout \<in> set (cf_seen st)) (c_timeout (cf st))" using assms(2) by (simp add: cfg_inv_def)
  show ?thesis
  proof (cases d)
    case (Set_auth_timeout n)
    with assms(1) inv show ?thesis by (auto simp: set_auth_timeout_def once_def timeout_ok_def int_mult_bound split: if_splits)
  qed (use assms(1) inv in \<open>auto simp: set_defs once_def Let_def split: if_splits option.splits prod.splits\<close>)
qed

lemma directive_servers:
  assumes "do_directive env o' d st = COk st'" and "cfg_inv st"
  shows "servers_ok (cf_gsmd st') (cf_name st') (cf_skey st')"
proof -
  have inv: "servers_ok (cf_gsmd st) (cf_name st) (cf_skey st)" using assms(2) by (simp add: cfg_inv_def)
  show ?thesis
  proof (cases d)
    case (Set_server_name a)
    with assms(1) inv show ?thesis by (auto simp: set_server_name_def servers_ok_def split: if_splits)
  next
    case (Set_server_key a)
    with assms(1) inv show ?thesis by (cases "cf_name st") (auto simp: set_server_key_def servers_ok_def split: if_splits)
  next
    case Finish_server
    with assms(1) inv show ?thesis
      by (cases "cf_name st"; cases "cf_primary st"; cases "cf_skey st") (auto simp: finish_server_def servers_ok_def server_ok_def)
  qed (use assms(1) inv in \<open>auto simp: set_defs once_def Let_def split: if_splits option.splits prod.splits\<close>)
qed

lemma directive_inv: "do_directive env o' d st = COk st' \<Longrightarrow> cfg_inv st \<Longrightarrow> cfg_inv st'"
  using directive_paths directive_filter directive_timeout directive_servers unfolding cfg_inv_def [of st'] by blast

lemma directive_seen: "do_directive env o' d st = COk st' \<Longrightarrow> Auth_timeout \<in> set (cf_seen st) \<or> (\<exists>n. d = Set_auth_timeout n) \<Longrightarrow> Auth_timeout \<in> set (cf_seen st')"
  by (cases d) (auto simp: set_defs once_def Let_def split: if_splits option.splits prod.splits)

lemma yyparse_inv: "yyparse env o' ds st = COk st' \<Longrightarrow> cfg_inv st \<Longrightarrow> cfg_inv st'"
  by (induction ds arbitrary: st) (auto intro: directive_inv)

lemma yyparse_seen:
  "yyparse env o' ds st = COk st' \<Longrightarrow> Auth_timeout \<in> set (cf_seen st) \<or> Set_auth_timeout n \<in> set ds \<Longrightarrow> Auth_timeout \<in> set (cf_seen st')"
proof (induction ds arbitrary: st)
  case (Cons d ds)
  then obtain st1 where st1: "do_directive env o' d st = COk st1" "yyparse env o' ds st1 = COk st'" by auto
  from Cons.IH [OF st1(2)] directive_seen [OF st1(1)] Cons.prems(2) show ?case by auto
qed simp

text \<open>What is left of a successful start.\<close>

lemma finish_listen_COk:
  "finish_listen env st = COk st' \<Longrightarrow> \<exists>s. st' = st\<lparr>cf_s := s, cf_path := (case cf_plugin_rp st of None \<Rightarrow> OTPD_PLUGIN_RP | Some p \<Rightarrow> p)\<rparr>"
  by (auto simp: finish_listen_def Let_def)

lemma finish_userops_COk:
  "finish_userops env st = COk st' \<Longrightarrow> cf_backend st = BACKEND_FILE \<and> st' = st
     \<or> cf_backend st = BACKEND_LDAP \<and> (\<exists>li. ldap_init1 (en_set_option env) (cf st) (cf_ldap st) = COk li \<and> st' = st\<lparr>cf_ldap_init := Some li\<rparr>)"
  by (cases "cf_backend st") (auto simp: finish_userops_def split: if_splits)

lemma file_key_check_cong:
  "cf st' = cf st \<Longrightarrow> cf_backend st' = cf_backend st \<Longrightarrow> cf_keys st' = cf_keys st \<Longrightarrow> file_key_check st' = file_key_check st"
  by (simp add: file_key_check_def split: option.split)

text \<open>The part of the variables that \<open>finish_config\<close> leaves alone.\<close>

definition same_settings :: "cfg_t \<Rightarrow> cfg_t \<Rightarrow> bool" where
  "same_settings st st' \<longleftrightarrow> cf st' = cf st \<and> cf_ldap st' = cf_ldap st \<and> cf_backend st' = cf_backend st \<and> cf_keys st' = cf_keys st \<and> cf_gsmd st' = cf_gsmd st
     \<and> cf_gtimeout st' = cf_gtimeout st \<and> cf_log st' = cf_log st \<and> cf_cred st' = cf_cred st \<and> cf_plugin_rp st' = cf_plugin_rp st"

lemma finish_config_COk:
  assumes "finish_config env st0 = COk (st, chain)"
  shows "same_settings st0 st \<and> file_key_check st = COk () \<and> cf_path st = (case cf_plugin_rp st of None \<Rightarrow> OTPD_PLUGIN_RP | Some p \<Rightarrow> p)
    \<and> (cf_backend st = BACKEND_LDAP \<longrightarrow> Ldap \<in> set (cf_seen st0)
         \<and> (\<exists>li. ldap_init1 (en_set_option env) (cf st) (cf_ldap st) = COk li \<and> cf_ldap_init st = Some li))
    \<and> (c_state_mode (cf st) = SMODE_GLOBAL \<longrightarrow> finish_global env st = COk chain)"
proof -
  obtain st1 where st1: "(if File \<notin> set (cf_seen st0) \<and> Ldap \<notin> set (cf_seen st0) then finish_file env st0 else COk st0) = COk st1"
    using assms by (auto simp: finish_config_def)
  have st1': "st1 = st0 \<or> st1 = st0\<lparr>cf_seen := File # cf_seen st0\<rparr>" using st1 by (auto simp: finish_file_def split: if_splits)
  have ldap: "cf_backend st1 = BACKEND_LDAP \<Longrightarrow> Ldap \<in> set (cf_seen st1)" using assms st1 by (auto simp: finish_config_def split: if_splits)
  obtain st2 where st2: "finish_userops env st1 = COk st2" "file_key_check st2 = COk ()" "finish_listen env st2 = COk st"
    and glob: "c_state_mode (cf st) = SMODE_GLOBAL \<longrightarrow> finish_global env st = COk chain"
    using assms st1 by (auto simp: finish_config_def split: if_splits)
  have same: "same_settings st0 st" and path: "cf_path st = (case cf_plugin_rp st of None \<Rightarrow> OTPD_PLUGIN_RP | Some p \<Rightarrow> p)"
    and "file_key_check st = file_key_check st2" and "cf_ldap_init st = cf_ldap_init st2"
    using st1' finish_userops_COk [OF st2(1)] finish_listen_COk [OF st2(3)] by (auto simp: same_settings_def intro!: file_key_check_cong)
  moreover have "Ldap \<in> set (cf_seen st0) \<and> (\<exists>li. ldap_init1 (en_set_option env) (cf st) (cf_ldap st) = COk li \<and> cf_ldap_init st = Some li)"
    if "cf_backend st = BACKEND_LDAP"
    using that same st1' ldap finish_userops_COk [OF st2(1)] calculation(4) by (auto simp: same_settings_def)
  ultimately show ?thesis using st2(2) glob by simp
qed

lemma config_init_cases:
  assumes "config_init env o' ds = COk (config, st, chain)"
  obtains st1 st0 where "cfg_command_line env o' = COk st1" "yyparse env o' ds (cfg_reset env st1) = COk st0" "finish_config env st0 = COk (st, chain)"
    "config = (cf st)\<lparr>c_key := config_key (cf_keys st), c_rwindow_size := c_rwindow_size config\<rparr>"
    "c_rwindow_size config = 0 \<or> c_ewindow_size config \<le> c_rwindow_size config" "same_settings st0 st"
proof -
  obtain st1 st0 where st0: "cfg_command_line env o' = COk st1" "yyparse env o' ds (cfg_reset env st1) = COk st0" "finish_config env st0 = COk (st, chain)"
    and config: "config = (let config = (cf st)\<lparr>c_key := config_key (cf_keys st)\<rparr>
      in if c_rwindow_size config \<noteq> 0 \<and> c_rwindow_size config < c_ewindow_size config then config\<lparr>c_rwindow_size := 0\<rparr> else config)"
    using assms by (auto simp: config_init_def Let_def split: if_splits)
  have "config = (cf st)\<lparr>c_key := config_key (cf_keys st), c_rwindow_size := c_rwindow_size config\<rparr>"
    "c_rwindow_size config = 0 \<or> c_ewindow_size config \<le> c_rwindow_size config"
    unfolding config by (auto simp: Let_def)
  with st0 finish_config_COk [OF st0(3)] that show ?thesis by blast
qed

lemma directive_timeout_value:
  assumes "do_directive env o' d st = COk st'"
  shows "(c_timeout (cf st') = c_timeout (cf st) \<and> (Auth_timeout \<in> set (cf_seen st') \<longleftrightarrow> Auth_timeout \<in> set (cf_seen st)))
    \<or> (\<exists>n \<ge> 3000. d = Set_auth_timeout n \<and> c_timeout (cf st') = int_mult n 1000000)"
  using assms by (cases d) (auto simp: set_defs once_def Let_def split: if_splits option.splits prod.splits)

lemma yyparse_timeout_value:
  assumes "yyparse env o' ds st = COk st'" and "Auth_timeout \<in> set (cf_seen st')"
    and "Auth_timeout \<in> set (cf_seen st) \<Longrightarrow> \<exists>n \<ge> 3000. n \<in> N \<and> c_timeout (cf st) = int_mult n 1000000"
    and "\<And>n. Set_auth_timeout n \<in> set ds \<Longrightarrow> n \<in> N"
  shows "\<exists>n \<ge> 3000. n \<in> N \<and> c_timeout (cf st') = int_mult n 1000000"
  using assms
proof (induction ds arbitrary: st)
  case (Cons d ds)
  then obtain st1 where st1: "do_directive env o' d st = COk st1" "yyparse env o' ds st1 = COk st'" by auto
  show ?case
  proof (rule Cons.IH [OF st1(2) Cons.prems(2)])
    show "\<exists>n \<ge> 3000. n \<in> N \<and> c_timeout (cf st1) = int_mult n 1000000" if "Auth_timeout \<in> set (cf_seen st1)"
      using directive_timeout_value [OF st1(1)] that Cons.prems(3,4) by auto
  qed (use Cons.prems(4) in auto)
qed simp

lemma config_timeout_value:
  assumes "config_init env o' ds = COk (config, st, chain)" and "Set_auth_timeout n \<in> set ds"
  shows "\<exists>n \<ge> 3000. Set_auth_timeout n \<in> set ds \<and> c_timeout config = int_mult n 1000000"
proof -
  obtain st1 st0 where st0: "yyparse env o' ds (cfg_reset env st1) = COk st0" "same_settings st0 st"
    and config: "config = (cf st)\<lparr>c_key := config_key (cf_keys st), c_rwindow_size := c_rwindow_size config\<rparr>"
    using config_init_cases [OF assms(1)] by metis
  have "c_timeout config = c_timeout (cf st0)" using st0(2) by (subst config) (simp add: same_settings_def)
  moreover have "\<exists>n \<ge> 3000. n \<in> {n. Set_auth_timeout n \<in> set ds} \<and> c_timeout (cf st0) = int_mult n 1000000"
    by (rule yyparse_timeout_value [OF st0(1) yyparse_seen [OF st0(1), of n]]) (use assms(2) in \<open>simp_all add: cfg_reset_def cfg_start_def\<close>)
  ultimately show ?thesis by auto
qed

lemma gsmd_loop_COk:
  "gsmd_loop env timeout gtimeout svs chain = COk chain' \<Longrightarrow>
   \<exists>gs. chain' = foldl gsmd_hash chain gs \<and> (\<forall>g \<in> set gs. \<exists>sv \<in> set svs. gsmd_of env timeout gtimeout sv = COk g)
     \<and> (\<forall>sv \<in> set svs. \<exists>g \<in> set gs. gsmd_of env timeout gtimeout sv = COk g)"
proof (induction svs arbitrary: chain)
  case (Cons sv svs)
  then obtain g where g: "gsmd_of env timeout gtimeout sv = COk g" "gsmd_loop env timeout gtimeout svs (gsmd_hash chain g) = COk chain'" by auto
  from Cons.IH [OF g(2)] obtain gs where "chain' = foldl gsmd_hash (gsmd_hash chain g) gs"
    "\<forall>g \<in> set gs. \<exists>sv \<in> set svs. gsmd_of env timeout gtimeout sv = COk g" "\<forall>sv \<in> set svs. \<exists>g \<in> set gs. gsmd_of env timeout gtimeout sv = COk g"
    by blast
  with g(1) show ?case by (intro exI [of _ "g # gs"]) auto
qed simp

text \<open>What becomes of one server.\<close>

lemma gsmd_of_COk:
  assumes "gsmd_of env timeout gtimeout sv = COk g" and "1000000000 \<le> gtimeout"
  shows "g_name g = sv_name sv \<and> g_n g = (if sv_backup sv = None then 1 else 2) \<and> g_active g = 0 \<and> 1000000000 \<le> g_fo_timeout g
    \<and> g_fb_timeout g = timeout + 1000000000 \<and> sc_magic (g_scontext g) = HELIX_MAGIC"
  using assms by (auto simp: gsmd_of_def fo_timeout_of_def helix_setkey_def Let_def split: if_splits option.splits)

text \<open>What the command line has set, the file does not change; and the section for the directory is complete once it was accepted.\<close>

definition cl_settings :: "main_opts \<Rightarrow> cfg_t \<Rightarrow> int option \<times> cred_t option \<times> string option option" where
  "cl_settings o' st = (map_option (\<lambda>_. log_level (cf_log st)) (opt_d o'), map_option (\<lambda>_. cf_cred st) (opt_u o'), map_option (\<lambda>_. cf_plugin_rp st) (opt_p o'))"

definition section_ok :: "ldap_config_t \<Rightarrow> bool" where
  "section_ok l \<longleftrightarrow> ld_url l \<noteq> None \<and> ld_basedn l \<noteq> None \<and> ld_filter l \<noteq> None \<and> ld_scope l \<noteq> None"

definition ldap_ready :: "cfg_t \<Rightarrow> bool" where
  "ldap_ready st \<longleftrightarrow> ld_scope (cf_ldap st) \<in> {None, Some ''one'', Some ''sub''} \<and> (Ldap \<in> set (cf_seen st) \<longrightarrow> section_ok (cf_ldap st))"

lemma directive_log: "do_directive env o' d st = COk st' \<Longrightarrow> opt_d o' \<noteq> None \<Longrightarrow> log_level (cf_log st') = log_level (cf_log st)"
  by (cases d) (auto simp: set_defs once_def Let_def split: if_splits option.splits prod.splits)

lemma directive_cred: "do_directive env o' d st = COk st' \<Longrightarrow> opt_u o' \<noteq> None \<Longrightarrow> cf_cred st' = cf_cred st"
  by (cases d) (auto simp: set_defs once_def Let_def split: if_splits option.splits prod.splits)

lemma directive_plugin_rp: "do_directive env o' d st = COk st' \<Longrightarrow> opt_p o' \<noteq> None \<Longrightarrow> cf_plugin_rp st' = cf_plugin_rp st"
  by (cases d) (auto simp: set_defs once_def Let_def split: if_splits option.splits prod.splits)

lemma directive_cl_settings:
  assumes "do_directive env o' d st = COk st'"
  shows "cl_settings o' st' = cl_settings o' st"
  using directive_log [OF assms] directive_cred [OF assms] directive_plugin_rp [OF assms]
  by (cases "opt_d o'"; cases "opt_u o'"; cases "opt_p o'") (simp_all add: cl_settings_def)

text \<open>An action changes the section of the directory only by its own option, and ends it only by \<open>finish_ldap\<close>.\<close>

lemma directive_section:
  "do_directive env o' d st = COk st' \<Longrightarrow> d \<noteq> Finish_ldap \<Longrightarrow> section_ok (cf_ldap st) \<Longrightarrow> section_ok (cf_ldap st')"
  by (cases d) (auto simp: set_defs once_def Let_def section_ok_def split: if_splits option.splits prod.splits)

lemma directive_scope:
  "do_directive env o' d st = COk st' \<Longrightarrow> d \<noteq> Finish_ldap \<Longrightarrow> ld_scope (cf_ldap st) \<in> {None, Some ''one'', Some ''sub''} \<Longrightarrow>
   ld_scope (cf_ldap st') \<in> {None, Some ''one'', Some ''sub''}"
  by (cases d) (auto simp: set_defs once_def Let_def split: if_splits option.splits prod.splits)

lemma directive_seen_ldap: "do_directive env o' d st = COk st' \<Longrightarrow> d \<noteq> Finish_ldap \<Longrightarrow> Ldap \<in> set (cf_seen st') \<longleftrightarrow> Ldap \<in> set (cf_seen st)"
  by (cases d) (auto simp: set_defs once_def Let_def split: if_splits option.splits prod.splits)

lemma directive_ldap_ready:
  assumes "do_directive env o' d st = COk st'" and "ldap_ready st"
  shows "ldap_ready st'"
proof (cases "d = Finish_ldap")
  case True
  with assms show ?thesis by (auto simp: ldap_ready_def section_ok_def finish_ldap_def Let_def split: if_splits option.splits)
next
  case False
  with directive_section [OF assms(1)] directive_scope [OF assms(1)] directive_seen_ldap [OF assms(1)] assms(2) show ?thesis
    by (auto simp: ldap_ready_def)
qed

lemma directive_verify_cert:
  "do_directive env o' d st = COk st' \<Longrightarrow> (\<And>a. d \<noteq> Set_tls_verify_cert a) \<Longrightarrow> ld_verify_cert (cf_ldap st') = ld_verify_cert (cf_ldap st)"
  by (cases d) (auto simp: set_defs once_def Let_def split: if_splits option.splits prod.splits)

lemma yyparse_cl_settings: "yyparse env o' ds st = COk st' \<Longrightarrow> cl_settings o' st' = cl_settings o' st"
  by (induction ds arbitrary: st) (auto dest!: directive_cl_settings)

lemma yyparse_ldap_ready: "yyparse env o' ds st = COk st' \<Longrightarrow> ldap_ready st \<Longrightarrow> ldap_ready st'"
  by (induction ds arbitrary: st) (auto intro: directive_ldap_ready)

lemma yyparse_verify_cert:
  "yyparse env o' ds st = COk st' \<Longrightarrow> (\<And>a. Set_tls_verify_cert a \<notin> set ds) \<Longrightarrow> ld_verify_cert (cf_ldap st') = ld_verify_cert (cf_ldap st)"
proof (induction ds arbitrary: st)
  case (Cons d ds)
  then obtain st1 where st1: "do_directive env o' d st = COk st1" "yyparse env o' ds st1 = COk st'" by auto
  from Cons.IH [OF st1(2)] directive_verify_cert [OF st1(1)] Cons.prems(2) show ?case by (metis list.set_intros)
qed simp

lemma ldap_ready_start: "ldap_ready (cfg_reset env st)"
  by (simp add: ldap_ready_def cfg_reset_def cfg_start_def)

section \<open>Properties\<close>



text \<open>
  C27: the table of state managers. In global mode every configured server is in the table under its name and nothing else is; it starts with its primary active, has
  a backup if one was given, and its failover time is at least a second.
\<close>

theorem config_servers:
  assumes "config_init env o' ds = COk (config, st, chain)" and "c_state_mode config = SMODE_GLOBAL"
  shows "cf_gsmd st \<noteq> [] \<and> (\<forall>name. case gsmd_get chain name of
      None \<Rightarrow> name \<notin> set (map sv_name (cf_gsmd st))
    | Some g \<Rightarrow> \<exists>sv \<in> set (cf_gsmd st). sv_name sv = name \<and> g_name g = name \<and> g_n g = (if sv_backup sv = None then 1 else 2) \<and> g_active g = 0
        \<and> 1000000000 \<le> g_fo_timeout g \<and> g_fb_timeout g = c_timeout config + 1000000000 \<and> sc_magic (g_scontext g) = HELIX_MAGIC)"
proof -
  obtain st0 where st0: "finish_config env st0 = COk (st, chain)"
    and config: "config = (cf st)\<lparr>c_key := config_key (cf_keys st), c_rwindow_size := c_rwindow_size config\<rparr>"
    using config_init_cases [OF assms(1)] by metis
  have same: "c_state_mode config = c_state_mode (cf st)" "c_timeout config = c_timeout (cf st)" by (subst config; simp)+
  have "finish_global env st = COk chain" using finish_config_COk [OF st0] assms(2) by (simp add: same)
  then obtain gtimeout where g: "cf_gsmd st \<noteq> []" "gtimeout_of st = COk gtimeout"
    "gsmd_loop env (c_timeout (cf st)) gtimeout (cf_gsmd st) gsmd_empty = COk chain"
    by (auto simp: finish_global_def Let_def split: if_splits)
  have "1000000000 \<le> gtimeout" using g(2) by (auto simp: gtimeout_of_def Let_def split: if_splits)
  note server = gsmd_of_COk [OF _ this]
  obtain gs where gs: "chain = foldl gsmd_hash gsmd_empty gs"
    and of_server: "\<forall>g \<in> set gs. \<exists>sv \<in> set (cf_gsmd st). gsmd_of env (c_timeout (cf st)) gtimeout sv = COk g"
    and entry: "\<forall>sv \<in> set (cf_gsmd st). \<exists>g \<in> set gs. gsmd_of env (c_timeout (cf st)) gtimeout sv = COk g"
    using gsmd_loop_COk [OF g(3)] by blast
  have get: "gsmd_get chain name = find (\<lambda>g. g_name g = name) (rev gs)" for name unfolding gs by (rule gsmd_get_after_hash)
  have "case gsmd_get chain name of
      None \<Rightarrow> name \<notin> set (map sv_name (cf_gsmd st))
    | Some g \<Rightarrow> \<exists>sv \<in> set (cf_gsmd st). sv_name sv = name \<and> g_name g = name \<and> g_n g = (if sv_backup sv = None then 1 else 2) \<and> g_active g = 0
        \<and> 1000000000 \<le> g_fo_timeout g \<and> g_fb_timeout g = c_timeout config + 1000000000 \<and> sc_magic (g_scontext g) = HELIX_MAGIC" for name
  proof (cases "gsmd_get chain name")
    case None
    have "name \<noteq> sv_name sv" if sv: "sv \<in> set (cf_gsmd st)" for sv
    proof -
      obtain g where g: "g \<in> set gs" "gsmd_of env (c_timeout (cf st)) gtimeout sv = COk g" using entry sv by blast
      have "g_name g = sv_name sv" using server [OF g(2)] by (rule conjunct1)
      moreover have "g_name g \<noteq> name" using None g(1) unfolding get find_None_iff set_rev by blast
      ultimately show ?thesis by simp
    qed
    then show ?thesis unfolding None option.case set_map by blast
  next
    case (Some g)
    then have "g \<in> set (rev gs)" "g_name g = name" unfolding get find_Some_iff by (auto intro!: nth_mem simp del: set_rev)
    then have "g \<in> set gs" by simp
    then obtain sv where sv: "sv \<in> set (cf_gsmd st)" "gsmd_of env (c_timeout (cf st)) gtimeout sv = COk g" using of_server by blast
    with server [OF sv(2)] \<open>g_name g = name\<close> show ?thesis unfolding Some same(2) option.case by (intro bexI [of _ sv]) simp_all
  qed
  with g(1) show ?thesis by blast
qed

theorem config_servers_witness:
  "\<exists>config st chain. config_init sample_cfg_env no_opts sample_global = COk (config, st, chain)
     \<and> (case gsmd_get chain ''a'' of None \<Rightarrow> ''a'' \<notin> set (map sv_name (cf_gsmd st)) | Some g \<Rightarrow> g_active g = 0 \<and> 1000000000 \<le> g_fo_timeout g)"
proof -
  define key where "key = replicate 64 (CHR ''0'')"
  have len: "length key = 64" by (simp add: key_def)
  have "a2x key = Some (replicate 32 0)" unfolding key_def by code_simp
  moreover have "\<exists>sc. helix_setkey (replicate 32 0) = Some sc" by (simp add: helix_setkey_def Let_def)
  ultimately have "\<exists>g. gsmd_of sample_cfg_env 11700000000 18300000000 \<lparr>sv_name = ''a'', sv_primary = ''h'', sv_backup = Some ''b'', sv_timeout = 0,
      sv_gport = 0, sv_key = key\<rparr> = COk g"
    by (auto simp: gsmd_of_def fo_timeout_of_def sample_cfg_env_def)
  then obtain g where g: "gsmd_of sample_cfg_env 11700000000 18300000000 \<lparr>sv_name = ''a'', sv_primary = ''h'', sv_backup = Some ''b'', sv_timeout = 0,
      sv_gport = 0, sv_key = key\<rparr> = COk g"
    by blast
  obtain st where st: "yyparse sample_cfg_env no_opts sample_global (cfg_reset sample_cfg_env (cfg_start sample_cfg_env)) = COk st" "c_state_mode (cf st) = SMODE_GLOBAL"
    "cf_backend st = BACKEND_FILE" "c_file_encryptmode (cf st) = EMODE_CLEAR" "c_timeout (cf st) = 11700000000" "cf_gtimeout st = 0"
    "cf_gsmd st = [\<lparr>sv_name = ''a'', sv_primary = ''h'', sv_backup = Some ''b'', sv_timeout = 0, sv_gport = 0, sv_key = key\<rparr>]"
    "File \<in> set (cf_seen st)" "c_file_gsmd (cf st) = ''a''" "cf_plugin_rp st = None"
    using len by (simp add: sample_global_def key_def [symmetric] set_defs once_def cfg_reset_def cfg_start_def config_defaults_def sample_cfg_env_def GSM_MAX_NAME_LEN_def)
  let ?st = "st\<lparr>cf_s := 3, cf_path := OTPD_PLUGIN_RP\<rparr>"
  have "finish_global sample_cfg_env ?st = COk (gsmd_hash gsmd_empty g)"
    using st g by (simp add: finish_global_def gtimeout_of_def Let_def)
  moreover have "finish_userops sample_cfg_env st = COk st" "finish_listen sample_cfg_env st = COk ?st" "file_key_check st = COk ()"
    using st by (simp_all add: finish_userops_def finish_listen_def file_key_check_def sample_cfg_env_def xcall_def xsocket_def xvalue_def xunlink_def)
  ultimately have "finish_config sample_cfg_env st = COk (?st, gsmd_hash gsmd_empty g)"
    using st by (simp add: finish_config_def)
  moreover have "cfg_command_line sample_cfg_env no_opts = COk (cfg_start sample_cfg_env)" "en_open sample_cfg_env f" for f
    by (simp_all add: cfg_command_line_def no_opts_def sample_cfg_env_def)
  ultimately obtain config chain where c: "config_init sample_cfg_env no_opts sample_global = COk (config, ?st, chain)" "c_state_mode config = SMODE_GLOBAL"
    using st(1,2) by (simp add: config_init_def Let_def)
  from config_servers [OF c] have "case gsmd_get chain ''a'' of None \<Rightarrow> ''a'' \<notin> set (map sv_name (cf_gsmd ?st))
      | Some g \<Rightarrow> \<exists>sv \<in> set (cf_gsmd ?st). sv_name sv = ''a'' \<and> g_name g = ''a'' \<and> g_n g = (if sv_backup sv = None then 1 else 2) \<and> g_active g = 0
        \<and> 1000000000 \<le> g_fo_timeout g \<and> g_fb_timeout g = c_timeout config + 1000000000 \<and> sc_magic (g_scontext g) = HELIX_MAGIC"
    by blast
  then have "case gsmd_get chain ''a'' of None \<Rightarrow> ''a'' \<notin> set (map sv_name (cf_gsmd ?st)) | Some g \<Rightarrow> g_active g = 0 \<and> 1000000000 \<le> g_fo_timeout g"
    by (cases "gsmd_get chain ''a''") auto
  with c(1) show ?thesis by blast
qed

text \<open>
  The option \<open>timeout\<close> never gives the time asked for. It accepts three seconds and more, in milliseconds, but the product is computed in 32 bits: the
  time that is configured lies below 2.2 seconds or is negative.
\<close>

theorem config_timeout_wraps:
  assumes "config_init env o' ds = COk (config, st, chain)" and "Set_auth_timeout n \<in> set ds"
  shows "c_timeout config \<le> 2147483648"
proof -
  obtain st1 st0 where st0: "yyparse env o' ds (cfg_reset env st1) = COk st0" "same_settings st0 st"
    and config: "config = (cf st)\<lparr>c_key := config_key (cf_keys st), c_rwindow_size := c_rwindow_size config\<rparr>"
    using config_init_cases [OF assms(1)] by metis
  have "cfg_inv st0" "Auth_timeout \<in> set (cf_seen st0)"
    using yyparse_inv [OF st0(1) cfg_start_inv] yyparse_seen [OF st0(1)] assms(2) by auto
  then have "c_timeout (cf st0) \<le> 2147483648" by (auto simp: cfg_inv_def timeout_ok_def abs_le_iff)
  then show ?thesis using st0(2) by (subst config) (simp add: same_settings_def)
qed

theorem config_timeout_wraps_witness:
  "\<exists>config st chain. config_init sample_cfg_env no_opts [Set_auth_timeout 5000] = COk (config, st, chain) \<and> c_timeout config \<le> 2147483648"
proof -
  have "case config_init sample_cfg_env no_opts [Set_auth_timeout 5000] of COk _ \<Rightarrow> True | _ \<Rightarrow> False" by code_simp
  then obtain config st chain where c: "config_init sample_cfg_env no_opts [Set_auth_timeout 5000] = COk (config, st, chain)" by (auto split: cres.splits)
  from config_timeout_wraps [OF c, of 5000] c show ?thesis by auto
qed

text \<open>
  The directory is ready. With the backend \<open>ldap\<close>, a start that succeeds has initialised the library: the scope is one of the two the configuration may name,
  so that the branch of \<open>ldap_init1\<close> that cannot happen does not, and the search base, the filter and the URL are set.
\<close>

theorem config_ldap_ready:
  assumes "config_init env o' ds = COk (config, st, chain)" and "cf_backend st = BACKEND_LDAP"
  shows "\<exists>li. cf_ldap_init st = Some li \<and> li_options li = ldap_tls_options (cf_ldap st) @ [Protocol_version 3, Network_timeout (fst (li_timeout li)) (snd (li_timeout li))]
    \<and> li_timeout li = ldap_init_timeout (c_timeout config) \<and> list_all (en_set_option env) (li_options li)
    \<and> ld_scope (cf_ldap st) = Some (case li_scope li of LDAP_SCOPE_SUBTREE \<Rightarrow> ''sub'' | LDAP_SCOPE_ONELEVEL \<Rightarrow> ''one'')
    \<and> ld_url (cf_ldap st) \<noteq> None \<and> ld_basedn (cf_ldap st) \<noteq> None \<and> ld_filter (cf_ldap st) \<noteq> None"
proof -
  obtain st1 st0 where st0: "yyparse env o' ds (cfg_reset env st1) = COk st0" "finish_config env st0 = COk (st, chain)" "same_settings st0 st"
    and config: "config = (cf st)\<lparr>c_key := config_key (cf_keys st), c_rwindow_size := c_rwindow_size config\<rparr>"
    using config_init_cases [OF assms(1)] by metis
  have t: "c_timeout config = c_timeout (cf st)" by (subst config) simp
  obtain li where li: "ldap_init1 (en_set_option env) (cf st) (cf_ldap st) = COk li" "cf_ldap_init st = Some li" "Ldap \<in> set (cf_seen st0)"
    using finish_config_COk [OF st0(2)] assms(2) by auto
  have "ldap_ready st0" using yyparse_ldap_ready [OF st0(1) ldap_ready_start] .
  with li(3) st0(3) obtain s where s: "ld_scope (cf_ldap st) = Some s" "s \<in> {''one'', ''sub''}" "ld_url (cf_ldap st) \<noteq> None" "ld_basedn (cf_ldap st) \<noteq> None"
    "ld_filter (cf_ldap st) \<noteq> None"
    by (auto simp: ldap_ready_def section_ok_def same_settings_def)
  with li(1,2) show ?thesis by (auto simp: ldap_init1_def Let_def t split: if_splits)
qed

theorem config_ldap_ready_witness:
  "\<exists>config st chain li. config_init sample_cfg_env no_opts sample_ldap_file = COk (config, st, chain) \<and> cf_ldap_init st = Some li
     \<and> li_timeout li = (11, 700000) \<and> ld_basedn (cf_ldap st) \<noteq> None"
proof -
  have "case config_init sample_cfg_env no_opts sample_ldap_file of COk (config, st, _) \<Rightarrow> cf_backend st = BACKEND_LDAP \<and> ldap_init_timeout (c_timeout config) = (11, 700000)
      | _ \<Rightarrow> False"
    by code_simp
  then obtain config st chain where c: "config_init sample_cfg_env no_opts sample_ldap_file = COk (config, st, chain)" "cf_backend st = BACKEND_LDAP"
    "ldap_init_timeout (c_timeout config) = (11, 700000)"
    by (auto split: cres.splits)
  from config_ldap_ready [OF c(1,2)] c(1,3) show ?thesis by auto
qed

text \<open>
  C33: the certificate of the directory server is not verified. Where TLS is configured and the option \<open>verify_cert\<close> is left out, the library is told never to ask for a valid
  certificate; the comments of \<^verbatim>\<open>src/otpd.conf\<close> say that the default is to verify it and to check for revocation.
\<close>

theorem config_tls_unverified:
  assumes "config_init env o' ds = COk (config, st, chain)" and "cf_backend st = BACKEND_LDAP" and "ld_tls_mode (cf_ldap st) \<noteq> TLSMODE_OFF"
    and "\<And>a. Set_tls_verify_cert a \<notin> set ds"
  shows "\<exists>li. cf_ldap_init st = Some li \<and> Require_cert_never \<in> set (li_options li) \<and> Require_cert_demand \<notin> set (li_options li)
    \<and> Crlcheck_all \<notin> set (li_options li)"
proof -
  obtain st1 st0 where st0: "yyparse env o' ds (cfg_reset env st1) = COk st0" "finish_config env st0 = COk (st, chain)" "same_settings st0 st"
    using config_init_cases [OF assms(1)] by metis
  have "ld_verify_cert (cf_ldap st) = 0"
    using yyparse_verify_cert [OF st0(1) assms(4)] st0(3) by (simp add: same_settings_def cfg_reset_def cfg_start_def)
  moreover obtain li where "ldap_init1 (en_set_option env) (cf st) (cf_ldap st) = COk li" "cf_ldap_init st = Some li"
    using finish_config_COk [OF st0(2)] assms(2) by auto
  ultimately show ?thesis using assms(3) by (auto simp: ldap_init1_def ldap_tls_options_def Let_def split: if_splits option.splits)
qed

theorem config_tls_unverified_witness:
  "\<exists>config st chain li. config_init sample_cfg_env no_opts (Set_tls_mode ''on'' # Finish_tls # sample_ldap_file) = COk (config, st, chain)
     \<and> cf_ldap_init st = Some li \<and> Require_cert_never \<in> set (li_options li)"
proof -
  let ?ds = "Set_tls_mode ''on'' # Finish_tls # sample_ldap_file"
  have "case config_init sample_cfg_env no_opts ?ds of COk (config, st, _) \<Rightarrow> cf_backend st = BACKEND_LDAP \<and> ld_tls_mode (cf_ldap st) \<noteq> TLSMODE_OFF | _ \<Rightarrow> False"
    by code_simp
  then obtain config st chain where c: "config_init sample_cfg_env no_opts ?ds = COk (config, st, chain)" "cf_backend st = BACKEND_LDAP"
    "ld_tls_mode (cf_ldap st) \<noteq> TLSMODE_OFF"
    by (auto split: cres.splits)
  have "\<And>a. Set_tls_verify_cert a \<notin> set ?ds" by (simp add: sample_ldap_file_def)
  from config_tls_unverified [OF c this] c(1) show ?thesis by blast
qed

text \<open>
  C34: options of the command line. The log level of \<open>-d\<close> and the user of \<open>-u\<close> are in force when the daemon has started, whatever the file says. The path of \<open>-p\<close> is
  checked and then forgotten, and with it the one in the file: the daemon listens at its default path.
\<close>

theorem config_command_line:
  assumes "config_init env o' ds = COk (config, st, chain)"
  shows "(\<forall>d. opt_d o' = Some d \<longrightarrow> map_of pri_names d = Some (log_level (cf_log st)))
    \<and> (\<forall>u. opt_u o' = Some u \<longrightarrow> getpw env u = Some (cr_uid (cf_cred st), cr_gid (cf_cred st)))
    \<and> (\<forall>p. opt_p o' = Some p \<longrightarrow> cf_path st = OTPD_PLUGIN_RP)"
proof -
  obtain st1 st0 where st1: "cfg_command_line env o' = COk st1" and st0: "yyparse env o' ds (cfg_reset env st1) = COk st0" "finish_config env st0 = COk (st, chain)"
    using config_init_cases [OF assms] by metis
  have cl: "(\<forall>d. opt_d o' = Some d \<longrightarrow> map_of pri_names d = Some (log_level (cf_log st1)))
      \<and> (\<forall>u. opt_u o' = Some u \<longrightarrow> getpw env u = Some (cr_uid (cf_cred st1), cr_gid (cf_cred st1)))"
    using st1 by (auto simp: cfg_command_line_def set_log_level_def set_user_def set_plugin_rp_def run_as_def Let_def split: option.splits if_splits)
  have "cl_settings o' st0 = cl_settings o' (cfg_reset env st1)" using yyparse_cl_settings [OF st0(1)] .
  moreover have "cl_settings o' st = cl_settings o' st0" "cf_path st = (case cf_plugin_rp st of None \<Rightarrow> OTPD_PLUGIN_RP | Some p \<Rightarrow> p)"
    using finish_config_COk [OF st0(2)] by (simp_all add: same_settings_def cl_settings_def)
  ultimately show ?thesis using cl by (auto simp: cl_settings_def cfg_reset_def cfg_start_def)
qed

theorem config_command_line_witness:
  "\<exists>config st chain. config_init sample_cfg_env (no_opts\<lparr>opt_d := Some ''debug8'', opt_u := Some ''otpd'', opt_p := Some ''/tmp/s''\<rparr>) [Set_user ''0'', Set_log_level ''err'']
       = COk (config, st, chain)
     \<and> log_level (cf_log st) = 15 \<and> cr_uid (cf_cred st) = 7 \<and> cf_path st = OTPD_PLUGIN_RP"
proof -
  let ?o = "no_opts\<lparr>opt_d := Some ''debug8'', opt_u := Some ''otpd'', opt_p := Some ''/tmp/s''\<rparr>"
  have "case config_init sample_cfg_env ?o [Set_user ''0'', Set_log_level ''err''] of COk _ \<Rightarrow> True | _ \<Rightarrow> False" by code_simp
  then obtain config st chain where c: "config_init sample_cfg_env ?o [Set_user ''0'', Set_log_level ''err''] = COk (config, st, chain)" by (auto split: cres.splits)
  have "map_of pri_names ''debug8'' = Some 15" "getpw sample_cfg_env ''otpd'' = Some (7, 100)" by code_simp+
  with config_command_line [OF c] c show ?thesis by auto
qed

text \<open>
  A server's own timeout is refused. It is given in milliseconds and compared with nanoseconds: with the default \<open>timeout\<close> no value that an \<open>int\<close> can hold is
  large enough, and the daemon does not start.
\<close>

theorem server_timeout_refused:
  assumes "sv_timeout sv \<noteq> 0" and "sv_timeout sv < 2 ^ 31"
  shows "fo_timeout_of 11700000000 gtimeout sv = CErr 1"
  using assms by (simp add: fo_timeout_of_def)

text \<open>
  A gap in the numbers of keys. When a key is configured whose number is higher than the next free one, \<open>finish_key\<close> writes beyond the array it has just
  enlarged.
\<close>

theorem finish_key_gap_faults:
  assumes "{Passwd_keyid, Passwd_key} \<subseteq> set (cf_seen st)" and "cf_keys st = Some ks" and "int (length ks) < cf_keyid st" and "cf_keyid st \<le> 127"
  shows "finish_key st = CFault"
  using assms by (auto simp: finish_key_def key_room_def)

end
