(* ===== verification/Otpd_Parser.thy ===== *)
theory Otpd_Parser
  imports Otpd_Config "HOL-Library.Sublist"
begin

text \<open>
  The configuration file as text: the scanner of \<^verbatim>\<open>src/config.l\<close> and the grammar of \<^verbatim>\<open>src/config.y\<close>, whose actions are the directives of \<open>Otpd_Config\<close>.

  The scanner takes the longest match, as lex does, with one function per start condition; what no rule of an exclusive start condition matches is
  skipped. The parser works on the tokens with the stack of sections that are open. It is compared with the productions of the grammar, written as rules.
\<close>

section \<open>Definitions\<close>

subsection \<open>The scanner\<close>

text \<open>A keyword stands for the token it returns; \<open>Lexerr\<close> is a call of \<open>yyerror\<close>.\<close>

datatype token = Kw string | Lbrace | Rbrace | Equals | Yesno bool | Word string | Integer int | Lexerr

text \<open>The keywords after which a word is expected, and the others.\<close>

definition word_kws :: "string list" where
  "word_kws = [''user'', ''log_facility'', ''log_level'', ''plugin_rp'', ''backend'', ''passwd'', ''state_server'', ''host'', ''binddn'', ''bindpw'', ''basedn'', ''filter'',
     ''scope'', ''mode'', ''verify_cert'', ''cacertfile'', ''cacertdir'', ''certfile'', ''keyfile'', ''key'', ''statedir'', ''name'', ''primary'', ''backup'']"

definition plain_kws :: "string list" where
  "plain_kws = [''otpd'', ''timeout'', ''prepend_pin'', ''hardfail'', ''softfail'', ''ewindow_size'', ''rwindow_size'', ''site_transform'', ''file'', ''encrypt'', ''clear'',
     ''pin'', ''pin-md5'', ''ldap'', ''port'', ''tls'', ''passwdkey'', ''id'', ''state'', ''gsmd_port'', ''server'']"

definition all_kws :: "string list" where
  "all_kws = [''yes'', ''no''] @ word_kws @ plain_kws"

text \<open>The longest keyword at the start of the input, or nothing.\<close>

definition longest :: "string list \<Rightarrow> string \<Rightarrow> string" where
  "longest ks s = foldr (\<lambda>k best. if take (length k) s = k \<and> length best < length k then k else best) ks []"

definition blank :: "char \<Rightarrow> bool" where
  "blank c \<longleftrightarrow> c = CHR '' '' \<or> c = CHR 0x09"

lemma dropWhile_Cons_length: "dropWhile P xs = y # ys \<Longrightarrow> length ys < length xs"
  using length_dropWhile_le [of P xs] by simp

lemma Suc_minus_length: "k \<noteq> [] \<Longrightarrow> Suc n - length k \<le> n"
  by (cases k) auto

datatype start = INITIAL | UWORD | UWORD2 | SQUOTE string | DQUOTE string

text \<open>\<open>SQUOTE\<close> and \<open>DQUOTE\<close> carry the text that \<open>yymore\<close> has kept.\<close>

function yylex :: "start \<Rightarrow> string \<Rightarrow> token list" where
  "yylex INITIAL [] = []"
| "yylex INITIAL (c # cs) =
     (if c = CHR ''{'' then Lbrace # yylex INITIAL cs
      else if c = CHR ''}'' then Rbrace # yylex INITIAL cs
      else if c = CHR ''='' then Equals # yylex INITIAL cs
      else if is_dec c then Integer (sint (atoi (takeWhile is_dec (c # cs)))) # yylex INITIAL (dropWhile is_dec cs)
      else if blank c \<or> c = NL then yylex INITIAL cs
      else if c = CHR ''#'' then yylex INITIAL (dropWhile (\<lambda>c. c \<noteq> NL) cs)
      else let k = longest all_kws (c # cs) in
        if k = [] then [Lexerr]
        else (if k = ''yes'' then Yesno True else if k = ''no'' then Yesno False else Kw k)
          # yylex (if k \<in> set word_kws then UWORD else INITIAL) (drop (length k) (c # cs)))"
| "yylex UWORD s =
     (case dropWhile blank s of
        CHR ''='' # r \<Rightarrow> Equals # yylex UWORD2 (dropWhile blank r)
      | _ \<Rightarrow> (case s of [] \<Rightarrow> [] | c # cs \<Rightarrow> yylex UWORD cs))"
| "yylex UWORD2 [] = []"
| "yylex UWORD2 (c # cs) =
     (if c = CHR 0x27 then yylex (SQUOTE []) cs
      else if c = CHR 0x22 then yylex (DQUOTE []) cs
      else Word (cstr (c # takeWhile (\<lambda>c. \<not> blank c \<and> c \<noteq> NL) cs)) # yylex INITIAL (dropWhile (\<lambda>c. \<not> blank c \<and> c \<noteq> NL) cs))"
| "yylex (SQUOTE yytext) [] = []"
| "yylex (SQUOTE yytext) (c # cs) =
     (if c = CHR 0x27 then Word (cstr yytext) # yylex INITIAL cs
      else if c = NL then [Lexerr]
      else yylex (SQUOTE (yytext @ [c])) cs)"
| "yylex (DQUOTE yytext) [] = []"
| "yylex (DQUOTE yytext) (c # cs) =
     (if c = CHR 0x22 then Word (cstr yytext) # yylex INITIAL cs
      else if c = NL then [Lexerr]
      else yylex (DQUOTE (yytext @ [c])) cs)"
  by pat_completeness auto

termination
  by (relation "measure (\<lambda>(_, s). length s)")
    (auto simp: less_Suc_eq_le length_dropWhile_le Suc_minus_length intro: le_less_trans [OF length_dropWhile_le dropWhile_Cons_length])

subsection \<open>The grammar\<close>

datatype sect = S_otpd | S_file | S_ldap | S_tls | S_key | S_state | S_server

text \<open>The actions of the items \<open>keyword = value\<close> of a section.\<close>

fun item :: "sect \<Rightarrow> string \<Rightarrow> token \<Rightarrow> directive option" where
  "item S_otpd k (Word w) = map_of [(''user'', Set_user w), (''log_facility'', Set_log_facility w), (''log_level'', Set_log_level w), (''plugin_rp'', Set_plugin_rp w),
     (''backend'', Set_backend w)] k"
| "item S_otpd k (Yesno b) = map_of [(''prepend_pin'', Set_prepend_pin b), (''site_transform'', Set_site_transform b)] k"
| "item S_otpd k (Integer n) = map_of [(''timeout'', Set_auth_timeout n), (''hardfail'', Set_hardfail n), (''softfail'', Set_softfail n),
     (''ewindow_size'', Set_ewindow_size n), (''rwindow_size'', Set_rwindow_size n)] k"
| "item S_file k (Word w) = map_of [(''passwd'', Set_file_passwd w), (''state_server'', Set_file_server w)] k"
| "item S_file k (Kw v) = (if k = ''encrypt''
     then map_of [(''clear'', Set_file_encrypt EMODE_CLEAR 0), (''pin'', Set_file_encrypt EMODE_PIN 0), (''pin-md5'', Set_file_encrypt EMODE_PINMD5 0)] v else None)"
| "item S_file k (Integer n) = (if k = ''encrypt'' then Some (Set_file_encrypt EMODE_KEYID n) else None)"
| "item S_ldap k (Word w) = map_of [(''host'', Set_ldap_host w), (''binddn'', Set_ldap_binddn w), (''bindpw'', Set_ldap_bindpw w), (''basedn'', Set_ldap_basedn w),
     (''filter'', Set_ldap_filter w), (''scope'', Set_ldap_scope w)] k"
| "item S_ldap k (Integer n) = map_of [(''port'', Set_ldap_port n)] k"
| "item S_tls k (Word w) = map_of [(''mode'', Set_tls_mode w), (''verify_cert'', Set_tls_verify_cert w), (''cacertfile'', Set_tls_cacertfile w),
     (''cacertdir'', Set_tls_cacertdir w), (''certfile'', Set_tls_certfile w), (''keyfile'', Set_tls_keyfile w)] k"
| "item S_key k (Integer n) = map_of [(''id'', Set_passwd_keyid n)] k"
| "item S_key k (Word w) = map_of [(''key'', Set_passwd_key w)] k"
| "item S_state k (Word w) = map_of [(''mode'', Set_state_mode w), (''statedir'', Set_statedir w)] k"
| "item S_state k (Integer n) = map_of [(''timeout'', Set_state_timeout n), (''gsmd_port'', Set_state_gport n), (''port'', Set_state_gport n)] k"
| "item S_server k (Word w) = map_of [(''name'', Set_server_name w), (''primary'', Set_server_primary w), (''backup'', Set_server_backup w), (''key'', Set_server_key w)] k"
| "item S_server k (Integer n) = map_of [(''timeout'', Set_server_timeout n), (''gsmd_port'', Set_server_gport n)] k"
| "item _ _ _ = None"

text \<open>The sections within a section, the action at the end of one, and whether it may be empty.\<close>

fun subsect :: "sect \<Rightarrow> string \<Rightarrow> sect option" where
  "subsect S_otpd k = map_of [(''file'', S_file), (''ldap'', S_ldap), (''passwdkey'', S_key), (''state'', S_state)] k"
| "subsect S_ldap k = map_of [(''tls'', S_tls)] k"
| "subsect S_state k = map_of [(''server'', S_server)] k"
| "subsect _ _ = None"

fun finish :: "sect \<Rightarrow> directive list" where
  "finish S_otpd = []"
| "finish S_file = [Finish_file]"
| "finish S_ldap = [Finish_ldap]"
| "finish S_tls = [Finish_tls]"
| "finish S_key = [Finish_key]"
| "finish S_state = [Finish_state]"
| "finish S_server = [Finish_server]"

fun may_be_empty :: "sect \<Rightarrow> bool" where
  "may_be_empty S_ldap = False"
| "may_be_empty S_key = False"
| "may_be_empty S_server = False"
| "may_be_empty _ = True"

text \<open>
  The parser: the actions in the order in which they are executed, and whether the input was accepted; after a syntax error, or one of the scanner, the
  actions of the items before it have been executed. Each section on the stack knows whether it has had an item.
\<close>

fun parse_sections :: "(sect \<times> bool) list \<Rightarrow> token list \<Rightarrow> directive list \<times> bool" where
  "parse_sections [] ts = ([], ts = [])"
| "parse_sections ((s, ne) # stk) (Rbrace # ts) =
     (if ne \<or> may_be_empty s then (case parse_sections stk ts of (ds, ok) \<Rightarrow> (finish s @ ds, ok)) else ([], False))"
| "parse_sections ((s, ne) # stk) (Kw k # Lbrace # ts) =
     (case subsect s k of None \<Rightarrow> ([], False) | Some s' \<Rightarrow> parse_sections ((s', False) # (s, True) # stk) ts)"
| "parse_sections ((s, ne) # stk) (Kw k # Equals # v # ts) =
     (case item s k v of
        None \<Rightarrow> ([], False)
      | Some d \<Rightarrow> (case parse_sections ((s, True) # stk) ts of (ds, ok) \<Rightarrow> (d # ds, ok)))"
| "parse_sections _ _ = ([], False)"

definition parse_tokens :: "token list \<Rightarrow> directive list \<times> bool" where
  "parse_tokens ts =
     (if ts = [] then ([], True)
      else if take 2 ts = [Kw ''otpd'', Lbrace] then parse_sections [(S_otpd, False)] (drop 2 ts)
      else ([], False))"

text \<open>\<open>config_init\<close> on the text of a file.\<close>

definition config_read :: "cfg_env \<Rightarrow> main_opts \<Rightarrow> string \<Rightarrow> (config_t \<times> cfg_t \<times> helix_scontext_t gsmd_chain) cres" where
  "config_read env o' text =
     (case parse_tokens (yylex INITIAL text) of (ds, ok) \<Rightarrow>
        if ok then config_init env o' ds
        else cbind (cfg_command_line env o') (\<lambda>st.
          if \<not> en_open env (case opt_c o' of None \<Rightarrow> OTPD_DEFAULT_CF | Some c \<Rightarrow> c) then CErr 1
          else cbind (yyparse env o' ds (cfg_reset env st)) (\<lambda>_. CErr 1)))"

subsection \<open>The productions\<close>

text \<open>
  The productions as rules: a sequence of tokens that is an item, or a list of items, of a section, with the actions it causes. The lists grow to the right, as
  the grammar is left recursive.
\<close>

inductive g_item :: "sect \<Rightarrow> token list \<Rightarrow> directive list \<Rightarrow> bool" and g_items :: "sect \<Rightarrow> token list \<Rightarrow> directive list \<Rightarrow> bool" where
  item_option: "item s k v = Some d \<Longrightarrow> g_item s [Kw k, Equals, v] [d]"
| item_section: "subsect s k = Some s' \<Longrightarrow> g_items s' ts ds \<Longrightarrow> ts \<noteq> [] \<or> may_be_empty s' \<Longrightarrow> g_item s (Kw k # Lbrace # ts @ [Rbrace]) (ds @ finish s')"
| items_none: "g_items s [] []"
| items_more: "g_items s ts ds \<Longrightarrow> g_item s us es \<Longrightarrow> g_items s (ts @ us) (ds @ es)"

inductive otpd_section :: "token list \<Rightarrow> directive list \<Rightarrow> bool" where
  empty: "otpd_section [] []"
| otpd: "g_items S_otpd ts ds \<Longrightarrow> otpd_section (Kw ''otpd'' # Lbrace # ts @ [Rbrace]) ds"

section \<open>Lemmas\<close>

subsection \<open>The parser and the productions\<close>

lemma g_item_nonempty: "g_item s ts ds \<Longrightarrow> ts \<noteq> []"
  by (cases rule: g_item.cases) auto

text \<open>Parsing the items of a section amounts to their actions.\<close>

lemma g_complete:
  "g_item s ts ds \<Longrightarrow> parse_sections ((s, ne) # stk) (ts @ us) = (case parse_sections ((s, True) # stk) us of (es, ok) \<Rightarrow> (ds @ es, ok))"
  "g_items s ts ds \<Longrightarrow> parse_sections ((s, ne) # stk) (ts @ us) = (case parse_sections ((s, ne \<or> ts \<noteq> []) # stk) us of (es, ok) \<Rightarrow> (ds @ es, ok))"
proof (induction arbitrary: ne stk us and ne stk us rule: g_item_g_items.inducts)
  case (item_section s k s' ts ds)
  then show ?case by (auto split: prod.split)
next
  case (items_more s ts ds us' es)
  have "us' \<noteq> []" using g_item_nonempty [OF items_more.hyps(2)] .
  with items_more.IH show ?case by (auto split: prod.split)
qed (simp_all split: prod.split)

text \<open>What the parser accepts with a stack of sections.\<close>

fun closes :: "(sect \<times> bool) list \<Rightarrow> token list \<Rightarrow> directive list \<Rightarrow> bool" where
  "closes [] ts ds \<longleftrightarrow> ts = [] \<and> ds = []"
| "closes ((s, ne) # stk) ts ds \<longleftrightarrow> (\<exists>a da b db. ts = a @ Rbrace # b \<and> ds = da @ finish s @ db \<and> g_items s a da \<and> (ne \<or> a \<noteq> [] \<or> may_be_empty s) \<and> closes stk b db)"

lemma g_items_Cons:
  assumes "g_items s ts ds" and "g_item s us es"
  shows "g_items s (us @ ts) (es @ ds)"
  using assms
proof (induction rule: g_item_g_items.inducts(2) [where ?P1.0 = "\<lambda>_ _ _. True"])
  case (items_none s)
  from g_item_g_items.items_more [OF g_item_g_items.items_none items_none] show ?case by simp
next
  case (items_more s ts ds us' es')
  from g_item_g_items.items_more [OF items_more.IH(1) [OF items_more.prems] items_more.hyps(2)] show ?case by simp
qed simp_all

lemma g_sound: "parse_sections stk ts = (ds, True) \<Longrightarrow> closes stk ts ds"
proof (induction stk ts arbitrary: ds rule: parse_sections.induct)
  case (2 s ne stk ts)
  then obtain db where db: "parse_sections stk ts = (db, True)" "ds = finish s @ db" "ne \<or> may_be_empty s" by (auto split: if_splits prod.splits)
  with 2(1) have "closes stk ts db" by blast
  with db items_none [of s] show ?case
    unfolding closes.simps by (intro exI [of _ "[]"] exI [of _ ts] exI [of _ db]) simp
next
  case (3 s ne stk k ts)
  then obtain s' where s': "subsect s k = Some s'" "parse_sections ((s', False) # (s, True) # stk) ts = (ds, True)" by (auto split: option.splits)
  from "3.IH" [OF this] obtain a da b db where a: "ts = a @ Rbrace # b" "ds = da @ finish s' @ db" "g_items s' a da" "a \<noteq> [] \<or> may_be_empty s'"
    "closes ((s, True) # stk) b db"
    unfolding closes.simps(2) [of s' False] by blast
  from a(5) obtain c dc e de where c: "b = c @ Rbrace # e" "db = dc @ finish s @ de" "g_items s c dc" "closes stk e de" by auto
  have "g_items s ((Kw k # Lbrace # a @ [Rbrace]) @ c) ((da @ finish s') @ dc)"
    using g_items_Cons [OF c(3) item_section [OF s'(1) a(3,4)]] .
  moreover have "Kw k # Lbrace # ts = ((Kw k # Lbrace # a @ [Rbrace]) @ c) @ Rbrace # e" using a(1) c(1) by simp
  moreover have "ds = ((da @ finish s') @ dc) @ finish s @ de" using a(2) c(2) by simp
  ultimately show ?case using c(4) unfolding closes.simps by blast
next
  case (4 s ne stk k v ts)
  then obtain d ds' where d: "item s k v = Some d" "parse_sections ((s, True) # stk) ts = (ds', True)" "ds = d # ds'" by (auto split: option.splits prod.splits)
  from "4.IH" [OF d(1,2)] obtain c dc e de where c: "ts = c @ Rbrace # e" "ds' = dc @ finish s @ de" "g_items s c dc" "closes stk e de" by auto
  have "g_items s ([Kw k, Equals, v] @ c) ([d] @ dc)" using g_items_Cons [OF c(3) item_option [OF d(1)]] .
  moreover have "Kw k # Equals # v # ts = ([Kw k, Equals, v] @ c) @ Rbrace # e" "ds = ([d] @ dc) @ finish s @ de" using c d(3) by simp_all
  ultimately show ?case using c(4) unfolding closes.simps by blast
qed auto

subsection \<open>The scanner\<close>

text \<open>Tokens as text: every token is followed by a space, words are quoted.\<close>

fun print_token :: "token \<Rightarrow> string" where
  "print_token (Kw k) = k @ '' ''"
| "print_token Lbrace = ''{ ''"
| "print_token Rbrace = ''} ''"
| "print_token Equals = ''= ''"
| "print_token (Yesno b) = (if b then ''yes '' else ''no '')"
| "print_token (Word w) = CHR 0x27 # w @ [CHR 0x27, CHR '' '']"
| "print_token (Integer n) = radix_string 10 (nat n) @ '' ''"
| "print_token Lexerr = []"

definition word_ok :: "string \<Rightarrow> bool" where
  "word_ok w \<longleftrightarrow> CHR 0x27 \<notin> set w \<and> NL \<notin> set w \<and> no_nul w"

text \<open>The sequences that a text can have: a word comes after its keyword and an equals sign, and nowhere else.\<close>

fun lexable :: "token list \<Rightarrow> bool" where
  "lexable [] \<longleftrightarrow> True"
| "lexable (Kw k # Equals # Word w # ts) \<longleftrightarrow> k \<in> set word_kws \<and> word_ok w \<and> lexable ts"
| "lexable (Kw k # ts) \<longleftrightarrow> k \<in> set plain_kws \<and> lexable ts"
| "lexable (Word w # ts) \<longleftrightarrow> False"
| "lexable (Lexerr # ts) \<longleftrightarrow> False"
| "lexable (Integer n # ts) \<longleftrightarrow> 0 \<le> n \<and> n < 2147483648 \<and> lexable ts"
| "lexable (t # ts) \<longleftrightarrow> lexable ts"

lemma longest_match:
  "longest ks s = [] \<or> longest ks s \<in> set ks \<and> take (length (longest ks s)) s = longest ks s"
  by (induction ks) (auto simp: longest_def)

lemma longest_max: "k \<in> set ks \<Longrightarrow> take (length k) s = k \<Longrightarrow> length k \<le> length (longest ks s)"
  by (induction ks) (auto simp: longest_def)

lemma keyword_chars:
  assumes "k \<in> set all_kws"
  shows "CHR '' '' \<notin> set k" "\<exists>c cs. k = c # cs \<and> c \<notin> {CHR ''{'', CHR ''}'', CHR ''='', CHR ''#'', NL} \<and> \<not> is_dec c \<and> \<not> blank c"
proof -
  have "list_all (\<lambda>k. CHR '' '' \<notin> set k \<and> (case k of [] \<Rightarrow> False | c # _ \<Rightarrow> c \<notin> {CHR ''{'', CHR ''}'', CHR ''='', CHR ''#'', NL} \<and> \<not> is_dec c \<and> \<not> blank c)) all_kws"
    by code_simp
  then have k: "CHR '' '' \<notin> set k \<and> (case k of [] \<Rightarrow> False | c # _ \<Rightarrow> c \<notin> {CHR ''{'', CHR ''}'', CHR ''='', CHR ''#'', NL} \<and> \<not> is_dec c \<and> \<not> blank c)"
    using assms unfolding list_all_iff by (rule bspec)
  then show "CHR '' '' \<notin> set k" by (rule conjunct1)
  from k show "\<exists>c cs. k = c # cs \<and> c \<notin> {CHR ''{'', CHR ''}'', CHR ''='', CHR ''#'', NL} \<and> \<not> is_dec c \<and> \<not> blank c"
    by (cases k) simp_all
qed

lemma longest_keyword:
  assumes "k \<in> set all_kws"
  shows "longest all_kws (k @ CHR '' '' # s) = k"
proof -
  let ?r = "longest all_kws (k @ CHR '' '' # s)"
  have le: "length k \<le> length ?r" using longest_max [OF assms] by simp
  with keyword_chars(2) [OF assms] have "?r \<noteq> []" by auto
  with longest_match [of all_kws "k @ CHR '' '' # s"] have r: "?r \<in> set all_kws" "take (length ?r) (k @ CHR '' '' # s) = ?r" by auto
  have "length ?r \<le> length k"
  proof (rule ccontr)
    assume "\<not> length ?r \<le> length k"
    then have "take (length ?r) (k @ CHR '' '' # s) ! length k = CHR '' ''" "length k < length ?r" by (simp_all del: take_append)
    with r(2) have "CHR '' '' \<in> set ?r" by (metis nth_mem)
    with keyword_chars(1) [OF r(1)] show False ..
  qed
  with le have eq: "length ?r = length k" by (rule antisym [rotated])
  have "?r = take (length ?r) (k @ CHR '' '' # s)" by (rule r(2) [symmetric])
  also have "\<dots> = k" unfolding eq by simp
  finally show ?thesis .
qed

lemma yylex_keyword:
  assumes "k \<in> set all_kws"
  shows "yylex INITIAL (k @ CHR '' '' # s) = (if k = ''yes'' then Yesno True else if k = ''no'' then Yesno False else Kw k)
    # yylex (if k \<in> set word_kws then UWORD else INITIAL) (CHR '' '' # s)"
proof -
  obtain c cs where c: "k = c # cs" "c \<notin> {CHR ''{'', CHR ''}'', CHR ''='', CHR ''#'', NL}" "\<not> is_dec c" "\<not> blank c" using keyword_chars(2) [OF assms] by blast
  have "longest all_kws (c # cs @ CHR '' '' # s) = c # cs" using longest_keyword [OF assms] c(1) by simp
  with c show ?thesis by (simp add: Let_def)
qed

lemma yylex_blank: "yylex INITIAL (CHR '' '' # s) = yylex INITIAL s"
  by (simp add: blank_def is_dec_def)

lemma yylex_quoted: "word_ok w \<Longrightarrow> yylex (SQUOTE b) (w @ CHR 0x27 # s) = Word (cstr (b @ w)) # yylex INITIAL s"
  by (induction w arbitrary: b) (auto simp: word_ok_def)

lemma yylex_integer:
  assumes "0 \<le> n" and "n < 2147483648"
  shows "yylex INITIAL (radix_string 10 (nat n) @ CHR '' '' # s) = Integer n # yylex INITIAL (CHR '' '' # s)"
proof -
  let ?ds = "radix_string 10 (nat n)"
  have "\<forall>n \<in> set [0..<10]. is_dec (digit_char n)" by code_simp
  then have dec: "\<forall>c \<in> set ?ds. is_dec c" using set_radix_string [of 10 "nat n"] by force
  obtain c cs where c: "?ds = c # cs" by (cases ?ds) simp_all
  have "is_dec c" "\<not> is_dec (CHR '' '')" using dec c by (simp_all add: is_dec_def)
  moreover have "c \<noteq> CHR ''{''" "c \<noteq> CHR ''}''" "c \<noteq> CHR ''=''" using calculation(1) by (auto simp: is_dec_def)
  moreover have "takeWhile is_dec (?ds @ CHR '' '' # s) = ?ds" "dropWhile is_dec (?ds @ CHR '' '' # s) = CHR '' '' # s"
    using dec calculation(2) by (simp_all add: takeWhile_append2 dropWhile_append2)
  moreover have "atoi ?ds = word_of_int n" using assms by (simp add: atoi_def digits_val_radix_string min_def)
  then have "sint (atoi ?ds) = n" using assms by (simp add: int_word_sint)
  ultimately show ?thesis unfolding c by simp
qed

lemma word_kws_all: "k \<in> set word_kws \<Longrightarrow> k \<in> set all_kws \<and> k \<noteq> ''yes'' \<and> k \<noteq> ''no''"
proof -
  have "list_all (\<lambda>k. k \<noteq> ''yes'' \<and> k \<noteq> ''no'') word_kws" by code_simp
  then show "k \<in> set word_kws \<Longrightarrow> k \<in> set all_kws \<and> k \<noteq> ''yes'' \<and> k \<noteq> ''no''" by (auto simp: list_all_iff all_kws_def)
qed

lemma plain_kws_all: "k \<in> set plain_kws \<Longrightarrow> k \<in> set all_kws \<and> k \<noteq> ''yes'' \<and> k \<noteq> ''no'' \<and> k \<notin> set word_kws"
proof -
  have "list_all (\<lambda>k. k \<noteq> ''yes'' \<and> k \<noteq> ''no'' \<and> k \<notin> set word_kws) plain_kws" by code_simp
  then show "k \<in> set plain_kws \<Longrightarrow> k \<in> set all_kws \<and> k \<noteq> ''yes'' \<and> k \<noteq> ''no'' \<and> k \<notin> set word_kws" by (auto simp: list_all_iff all_kws_def)
qed

text \<open>The text of one token, or of an option with a word, in front of more text.\<close>

lemma yylex_word_option:
  assumes "k \<in> set word_kws" and "word_ok w"
  shows "yylex INITIAL (k @ '' = '' @ CHR 0x27 # w @ CHR 0x27 # CHR '' '' # s) = Kw k # Equals # Word w # yylex INITIAL s"
proof -
  note k = word_kws_all [OF assms(1)]
  have "yylex UWORD ('' = '' @ CHR 0x27 # w @ CHR 0x27 # CHR '' '' # s) = Equals # yylex UWORD2 (CHR 0x27 # w @ CHR 0x27 # CHR '' '' # s)"
    by (simp add: blank_def)
  also have "\<dots> = Equals # Word w # yylex INITIAL s"
    using assms(2) by (simp add: yylex_quoted word_ok_def yylex_blank del: yylex.simps(2))
  finally show ?thesis using yylex_keyword [of k "''= '' @ CHR 0x27 # w @ CHR 0x27 # CHR '' '' # s"] k assms(1) by simp
qed

lemma yylex_plain: "k \<in> set plain_kws \<Longrightarrow> yylex INITIAL (k @ CHR '' '' # s) = Kw k # yylex INITIAL s"
  using yylex_keyword [of k s] plain_kws_all [of k] by (simp add: yylex_blank del: yylex.simps(2))

lemma yylex_yesno: "yylex INITIAL (''yes '' @ s) = Yesno True # yylex INITIAL s" "yylex INITIAL (''no '' @ s) = Yesno False # yylex INITIAL s"
proof -
  have k: "''yes'' \<in> set all_kws" "''no'' \<in> set all_kws" "''yes'' \<notin> set word_kws" "''no'' \<notin> set word_kws" by code_simp+
  from yylex_keyword [OF k(1), of s] yylex_keyword [OF k(2), of s] k(3,4)
  show "yylex INITIAL (''yes '' @ s) = Yesno True # yylex INITIAL s" "yylex INITIAL (''no '' @ s) = Yesno False # yylex INITIAL s"
    by (simp_all add: yylex_blank del: yylex.simps(2))
qed

lemma yylex_punctuation:
  "yylex INITIAL (''{ '' @ s) = Lbrace # yylex INITIAL s" "yylex INITIAL (''} '' @ s) = Rbrace # yylex INITIAL s" "yylex INITIAL (''= '' @ s) = Equals # yylex INITIAL s"
  by (simp_all add: blank_def is_dec_def)

lemmas yylex_tokens = yylex_word_option yylex_plain yylex_yesno yylex_punctuation yylex_integer yylex_blank

lemma yylex_print: "lexable ts \<Longrightarrow> yylex INITIAL (concat (map print_token ts)) = ts"
proof (induction ts rule: lexable.induct)
  case (2 k w ts)
  with yylex_word_option [of k w "concat (map print_token ts)"] show ?case by simp
qed (simp_all del: yylex.simps add: yylex_tokens yylex.simps(1) yylex_yesno [simplified] yylex_punctuation [simplified])

text \<open>The parser accepts what the productions derive.\<close>

lemma parse_tokens_grammar: "parse_tokens ts = (ds, True) \<longleftrightarrow> otpd_section ts ds"
proof
  assume p: "parse_tokens ts = (ds, True)"
  show "otpd_section ts ds"
  proof (cases "ts = []")
    case True
    with p show ?thesis by (simp add: parse_tokens_def otpd_section.empty)
  next
    case False
    with p have t: "take 2 ts = [Kw ''otpd'', Lbrace]" "parse_sections [(S_otpd, False)] (drop 2 ts) = (ds, True)"
      by (auto simp: parse_tokens_def split: if_splits)
    from g_sound [OF t(2)] have "\<exists>a. drop 2 ts = a @ [Rbrace] \<and> g_items S_otpd a ds" by auto
    moreover have "ts = Kw ''otpd'' # Lbrace # drop 2 ts" using t(1) append_take_drop_id [of 2 ts] by simp
    ultimately show ?thesis using otpd_section.otpd by metis
  qed
next
  assume "otpd_section ts ds"
  then show "parse_tokens ts = (ds, True)"
    by cases (simp_all add: parse_tokens_def g_complete(2))
qed

section \<open>Properties\<close>



text \<open>
  C29: configuration files can be written. Every sequence of tokens in which words follow their keywords can be written as text, words in quotes, and the scanner reads it
  back; a file that was written from a derivation of the grammar configures the daemon by the actions of that derivation.
\<close>

theorem config_text_roundtrip:
  assumes "lexable ts"
  shows "yylex INITIAL (concat (map print_token ts)) = ts
    \<and> (\<forall>ds. otpd_section ts ds \<longrightarrow> config_read env o' (concat (map print_token ts)) = config_init env o' ds)"
  using yylex_print [OF assms] by (auto simp: config_read_def parse_tokens_grammar [symmetric])

theorem config_text_roundtrip_witness:
  "(case config_read sample_cfg_env no_opts ''otpd { hardfail = 5 key }'' of CErr n \<Rightarrow> n = 1 | _ \<Rightarrow> False)
   \<and> config_read sample_cfg_env no_opts ''otpd { log_level = 'err' hardfail = 5 } ''
     = config_init sample_cfg_env no_opts [Set_log_level ''err'', Set_hardfail 5]"
proof -
  let ?ts = "[Kw ''otpd'', Lbrace, Kw ''log_level'', Equals, Word ''err'', Kw ''hardfail'', Equals, Integer 5, Rbrace]"
  have "lexable ?ts" by code_simp
  moreover have "otpd_section ?ts [Set_log_level ''err'', Set_hardfail 5]" unfolding parse_tokens_grammar [symmetric] by code_simp
  ultimately have "config_read sample_cfg_env no_opts (concat (map print_token ?ts)) = config_init sample_cfg_env no_opts [Set_log_level ''err'', Set_hardfail 5]"
    using config_text_roundtrip [of ?ts sample_cfg_env no_opts] by blast
  moreover have "concat (map print_token ?ts) = ''otpd { log_level = 'err' hardfail = 5 } ''" by code_simp
  moreover have "(case config_read sample_cfg_env no_opts ''otpd { hardfail = 5 key }'' of CErr n \<Rightarrow> n = 1 | _ \<Rightarrow> False)" by code_simp
  ultimately show ?thesis by (simp only: simp_thms)
qed

end
