(* ===== verification/Otpd_Main.thy ===== *)
theory Otpd_Main
  imports Otpd_Nonce Otpd_Work_Thread Otpd_Parser
begin

text \<open>
  Start-up and the accept thread, \<^verbatim>\<open>src/main.c\<close> and \<^verbatim>\<open>src/accept_thread.c\<close>: options, signals, becoming a daemon, the threads that are started and
  the connections that are handed to work threads. \<open>main\<close> reads the configuration file with \<open>config_read\<close>.

  A process that exits is \<open>CErr\<close> of its status. What the system calls do is a parameter.
\<close>

section \<open>Definitions\<close>

subsection \<open>Options\<close>

definition main_opts_init :: main_opts where
  "main_opts_init = \<lparr>opt_c = None, opt_u = None, opt_p = None, opt_d = None, dodaemon = True\<rparr>"

text \<open>The options as \<open>getopt\<close> returns them; \<open>':'\<close> is a missing argument, anything else an unknown option.\<close>

fun main_options :: "(char \<times> string) list \<Rightarrow> main_opts \<Rightarrow> main_opts cres" where
  "main_options [] o' = COk o'"
| "main_options ((c, optarg) # opts) o' =
     (if c = CHR ''c'' then main_options opts (o'\<lparr>opt_c := Some optarg\<rparr>)
      else if c = CHR ''d'' then main_options opts (o'\<lparr>opt_d := Some optarg\<rparr>)
      else if c = CHR ''f'' then main_options opts (o'\<lparr>dodaemon := False\<rparr>)
      else if c = CHR ''D'' then main_options opts (o'\<lparr>dodaemon := False, opt_d := Some ''debug8''\<rparr>)
      else if c = CHR ''u'' then main_options opts (o'\<lparr>opt_u := Some optarg\<rparr>)
      else if c = CHR ''p'' then main_options opts (o'\<lparr>opt_p := Some optarg\<rparr>)
      else if c = CHR ''h'' then CErr 0
      else if c = CHR ''v'' then CErr 0
      else CErr 1)"

subsection \<open>Becoming a daemon\<close>

datatype fork_ev = ForkErr | ForkParent | ForkChild

text \<open>
  \<open>dm_rlim\<close> is the hard limit of descriptors, \<open>None\<close> for \<open>RLIM_INFINITY\<close>; \<open>dm_open\<close> and \<open>dm_dup\<close> whether \<open>open\<close> and the two calls of \<open>dup\<close> succeed.
\<close>

record daemon_env =
  dm_getrlimit :: bool
  dm_rlim :: "u64 option"
  dm_fork1 :: fork_ev
  dm_setsid :: bool
  dm_fork2 :: fork_ev
  dm_chdir :: bool
  dm_open :: bool
  dm_dup1 :: bool
  dm_dup2 :: bool

definition dm_fork :: "fork_ev \<Rightarrow> unit cres" where
  "dm_fork ev = (case ev of ForkErr \<Rightarrow> CErr 1 | ForkParent \<Rightarrow> CErr 0 | ForkChild \<Rightarrow> COk ())"

text \<open>The descriptors are a list without order; a new one is the lowest that is free, or -1.\<close>

definition new_fd :: "bool \<Rightarrow> int list \<Rightarrow> int \<times> int list" where
  "new_fd ok fds =
     (if ok then (let n = hd (filter (\<lambda>n. n \<notin> set fds) (map int [0..<Suc (length fds)])) in (n, n # fds))
      else (- 1, fds))"

text \<open>\<open>close (i)\<close> for all \<open>i\<close> with \<open>a \<le> i < b\<close>.\<close>

definition close_range :: "int \<Rightarrow> int \<Rightarrow> int list \<Rightarrow> int list" where
  "close_range a b fds = filter (\<lambda>n. \<not> (a \<le> n \<and> n < b)) fds"

text \<open>The bound of the second loop, a limit cast to \<open>int\<close>.\<close>

definition rlim_int :: "u64 option \<Rightarrow> int" where
  "rlim_int rlim = sint (ucast (case rlim of None \<Rightarrow> 1024 | Some n \<Rightarrow> n) :: 32 word)"

text \<open>\<open>closefrom\<close>: whether the system has the function of that name.\<close>

definition daemonize_close :: "bool \<Rightarrow> daemon_env \<Rightarrow> int \<Rightarrow> int list \<Rightarrow> int list" where
  "daemonize_close closefrom env listenfd fds =
     (let fds = close_range 0 listenfd fds in
      if closefrom then filter (\<lambda>n. n < listenfd + 1) fds
      else close_range (listenfd + 1) (rlim_int (dm_rlim env)) fds)"

definition daemonize_std :: "daemon_env \<Rightarrow> int list \<Rightarrow> int list cres" where
  "daemonize_std env fds =
     (case new_fd (dm_open env) fds of (fd0, fds) \<Rightarrow>
      case new_fd (dm_dup1 env \<and> 0 \<in> set fds) fds of (fd1, fds) \<Rightarrow>
      case new_fd (dm_dup2 env \<and> 0 \<in> set fds) fds of (fd2, fds) \<Rightarrow>
        if fd0 \<noteq> 0 \<or> fd1 \<noteq> 1 \<or> fd2 \<noteq> 2 then CErr 1 else COk fds)"

definition daemonize :: "bool \<Rightarrow> daemon_env \<Rightarrow> int \<Rightarrow> int list \<Rightarrow> int list cres" where
  "daemonize closefrom env listenfd fds =
     cbind (if closefrom then COk () else xgetrlimit (dm_getrlimit env)) (\<lambda>_.
     cbind (dm_fork (dm_fork1 env)) (\<lambda>_.
     cbind (xsetsid (dm_setsid env)) (\<lambda>_.
     cbind (dm_fork (dm_fork2 env)) (\<lambda>_.
     cbind (xchdir (dm_chdir env)) (\<lambda>_.
       if listenfd = 0 \<or> listenfd = 1 \<or> listenfd = 2 then CErr 1
       else daemonize_std env (daemonize_close closefrom env listenfd fds))))))"

subsection \<open>Threads\<close>

text \<open>
  The loop that starts a failover thread for each state manager: \<open>create k\<close> is the success of the \<open>k\<close>-th \<open>pthread_create\<close>; the result
  is the list of managers that a thread was started for.
\<close>

partial_function (option) start_failover :: "'k gsmd_chain \<Rightarrow> (nat \<Rightarrow> bool) \<Rightarrow> nat \<Rightarrow> (nat \<times> nat) option \<Rightarrow> (nat \<times> nat) list \<Rightarrow>
    ((nat \<times> nat) list cres) option" where
  "start_failover chain create k g started =
     (case gsmd_next chain g of
        None \<Rightarrow> Some (COk started)
      | Some p \<Rightarrow>
          (case xpthread_create (create k) of
             COk _ \<Rightarrow> start_failover chain create (k + 1) (Some p) (started @ [p])
           | CErr n \<Rightarrow> Some (CErr n)
           | CFault \<Rightarrow> Some CFault))"

text \<open>Signals: those that are blocked, a mask that new threads inherit, and those that are ignored.\<close>

record signals_t =
  sg_blocked :: "nat \<Rightarrow> bool"
  sg_ignored :: "nat \<Rightarrow> bool"

definition SIGILL :: nat where "SIGILL = 4"
definition SIGBUS :: nat where "SIGBUS = 7"
definition SIGFPE :: nat where "SIGFPE = 8"
definition SIGSEGV :: nat where "SIGSEGV = 11"
definition SIGPIPE :: nat where "SIGPIPE = 13"

definition sig_init :: "signals_t \<Rightarrow> signals_t" where
  "sig_init sg = sg\<lparr>sg_blocked := (\<lambda>s. sg_blocked sg s \<or> s \<noteq> SIGFPE \<and> s \<noteq> SIGILL \<and> s \<noteq> SIGSEGV \<and> s \<noteq> SIGBUS),
     sg_ignored := (\<lambda>s. s = SIGPIPE \<or> sg_ignored sg s)\<rparr>"

text \<open>
  \<open>main\<close>. \<open>m_text\<close> is the configuration file, \<open>m_rest\<close> counts the arguments after the options, and \<open>m_use_socket\<close> is the build option. \<open>None\<close>: \<open>nonce_init\<close> waits for the
  random device forever. \<open>m_fds\<close> are the descriptors when the socket is open.
\<close>

record main_env =
  m_rest :: nat
  m_cfg :: cfg_env
  m_text :: string
  m_signals :: signals_t
  m_fds :: "int list"
  m_opened :: bool
  m_host :: "byte list \<Rightarrow> u32"
  m_rnd :: "nat \<Rightarrow> byte list option"
  m_closefrom :: bool
  m_daemon :: daemon_env
  m_create :: "nat \<Rightarrow> bool"
  m_create_accept :: bool
  m_use_socket :: bool

text \<open>The process in its last loop: \<open>ps_signals\<close> are the signals of the threads; the main thread itself has unblocked all.\<close>

record process_t =
  ps_config :: config_t
  ps_vars :: cfg_t
  ps_chain :: "helix_scontext_t gsmd_chain"
  ps_signals :: signals_t
  ps_main_mask :: "nat \<Rightarrow> bool"
  ps_locks :: "locks_t option"
  ps_nonce :: "((u32 \<times> u32) \<times> u32) option"
  ps_log :: log_t
  ps_fds :: "int list"
  ps_failover :: "(nat \<times> nat) list"
  ps_accept :: bool

definition main_state :: "main_env \<Rightarrow> config_t \<Rightarrow> (locks_t option \<times> ((u32 \<times> u32) \<times> u32) option) cres option" where
  "main_state env config =
     (if c_state_mode config = SMODE_LOCAL then Some (COk (Some lock_init, None))
      else map_option (\<lambda>r. case r of None \<Rightarrow> CErr 1 | Some n \<Rightarrow> COk (None, Some n)) (nonce_init (m_opened env) (m_host env) (m_rnd env)))"

text \<open>The log goes to syslog from \<open>daemonize\<close> on.\<close>

definition main_background :: "main_env \<Rightarrow> main_opts \<Rightarrow> cfg_t \<Rightarrow> (int list \<times> log_t) cres" where
  "main_background env o' st =
     (if dodaemon o'
      then cbind (daemonize (m_closefrom env) (m_daemon env) (cf_s st) (m_fds env)) (\<lambda>fds. COk (fds, snd (mopenlog (cf_log st))))
      else COk (m_fds env, cf_log st))"

definition main_threads :: "main_env \<Rightarrow> process_t \<Rightarrow> process_t cres option" where
  "main_threads env ps =
     map_option (\<lambda>r. cbind r (\<lambda>started.
         cbind (if m_use_socket env then xpthread_create (m_create_accept env) else COk ()) (\<lambda>_.
           COk (ps\<lparr>ps_failover := started, ps_accept := m_use_socket env, ps_main_mask := (\<lambda>s. False)\<rparr>))))
       (start_failover (ps_chain ps) (m_create env) 0 None [])"

definition main :: "main_env \<Rightarrow> (char \<times> string) list \<Rightarrow> process_t cres option" where
  "main env opts =
     (case cbind (main_options opts main_opts_init) (\<lambda>o'. if 0 < m_rest env then CErr 1 else cbind (config_read (m_cfg env) o' (m_text env)) (\<lambda>c. COk (o', c))) of
        COk (o', config, st, chain) \<Rightarrow>
          let sg = sig_init (m_signals env) in
          (case main_state env config of
             None \<Rightarrow> None
           | Some (COk (locks, nonce)) \<Rightarrow>
               (case main_background env o' st of
                  COk (fds, lg) \<Rightarrow> main_threads env \<lparr>ps_config = config, ps_vars = st, ps_chain = chain, ps_signals = sg, ps_main_mask = sg_blocked sg, ps_locks = locks,
                    ps_nonce = nonce, ps_log = lg, ps_fds = fds, ps_failover = [], ps_accept = False\<rparr>
                | CErr n \<Rightarrow> Some (CErr n)
                | CFault \<Rightarrow> Some CFault)
           | Some (CErr n) \<Rightarrow> Some (CErr n)
           | Some CFault \<Rightarrow> Some CFault)
      | CErr n \<Rightarrow> Some (CErr n)
      | CFault \<Rightarrow> Some CFault)"

text \<open>
  The accept thread on the outcomes of \<open>accept\<close>, each a descriptor with the success of \<open>pthread_create\<close>, or an error: the work threads started, each
  with its own copy of the configuration and its descriptor.
\<close>

fun accept_thread :: "config_t \<Rightarrow> (int \<times> bool) option list \<Rightarrow> (config_t \<times> int) list cres" where
  "accept_thread config [] = COk []"
| "accept_thread config (None # evs) = accept_thread config evs"
| "accept_thread config (Some (s, ok) # evs) =
     cbind (xpthread_create ok) (\<lambda>_. cbind (accept_thread config evs) (\<lambda>insts. COk ((config, s) # insts)))"

text \<open>The connections of the accepted descriptors, one after the other: what each plugin sends and what its requests meet.\<close>

record conn_t =
  k_turns :: "nat \<Rightarrow> turn_t"
  k_evs :: "read_ev list"
  k_stream :: "byte list"

fun serve :: "abi_t \<Rightarrow> crypto \<Rightarrow> cardops_t list \<Rightarrow> userops_t \<Rightarrow> (nat \<Rightarrow> conn_t) \<Rightarrow> nat \<Rightarrow> (config_t \<times> int) list \<Rightarrow> world_t \<Rightarrow>
    (string list list \<times> world_t) cres" where
  "serve abi cr cardops uo conns i [] w = COk ([], w)"
| "serve abi cr cardops uo conns i ((config, s) # insts) w =
     cbind (work_thread abi cr cardops uo config (k_turns (conns i)) (k_evs (conns i)) (k_stream (conns i)) w) (\<lambda>(out, w).
     cbind (serve abi cr cardops uo conns (i + 1) insts w) (\<lambda>(outs, w). COk (out # outs, w)))"

subsection \<open>Sample values\<close>

definition sample_daemon :: daemon_env where
  "sample_daemon = \<lparr>dm_getrlimit = True, dm_rlim = Some 20, dm_fork1 = ForkChild, dm_setsid = True, dm_fork2 = ForkChild, dm_chdir = True,
     dm_open = True, dm_dup1 = True, dm_dup2 = True\<rparr>"

definition sample_main :: main_env where
  "sample_main = \<lparr>m_rest = 0, m_cfg = sample_cfg_env, m_text = ''otpd { hardfail = 10 }'', m_signals = \<lparr>sg_blocked = (\<lambda>s. False), sg_ignored = (\<lambda>s. False)\<rparr>,
     m_fds = [0, 1, 2, 3], m_opened = True, m_host = (\<lambda>bs. 0), m_rnd = (\<lambda>k. None), m_closefrom = False, m_daemon = sample_daemon, m_create = (\<lambda>k. True),
     m_create_accept = True, m_use_socket = True\<rparr>"

section \<open>Lemmas\<close>

lemma dm_fork_Inr_iff [simp]: "dm_fork ev = COk x \<longleftrightarrow> ev = ForkChild"
  by (simp add: dm_fork_def split: fork_ev.split)

lemma new_fd_fresh:
  assumes "new_fd ok fds = (n, fds')" and "0 \<le> n"
  shows "n \<notin> set fds" "fds' = n # fds"
proof -
  let ?free = "filter (\<lambda>n. n \<notin> set fds) (map int [0..<Suc (length fds)])"
  have "?free \<noteq> []"
  proof
    assume "?free = []"
    then have "set (map int [0..<Suc (length fds)]) \<subseteq> set fds" by (auto simp: filter_empty_conv simp del: upt_Suc)
    then have "card (set (map int [0..<Suc (length fds)])) \<le> card (set fds)" by (rule card_mono [OF finite_set])
    also have "\<dots> \<le> length fds" by (rule card_length)
    finally show False by (simp add: card_image del: upt_Suc)
  qed
  then have "hd ?free \<in> set ?free" by (rule hd_in_set)
  then have "hd ?free \<notin> set fds" by (auto simp only: set_filter)
  with assms show "n \<notin> set fds" "fds' = n # fds"
    by (auto simp: new_fd_def Let_def simp del: upt_Suc split: if_splits)
qed

text \<open>The checks on the new descriptors succeed only if 0, 1 and 2 were free.\<close>

lemma daemonize_std_result:
  assumes "daemonize_std env fds = COk fds'"
  shows "set fds' = {0, 1, 2} \<union> set fds \<and> {0, 1, 2} \<inter> set fds = {}"
proof -
  obtain ok1 ok2 fds1 fds2 where "new_fd (dm_open env) fds = (0, fds1)" "new_fd ok1 fds1 = (1, fds2)" "new_fd ok2 fds2 = (2, fds')"
    using assms by (auto simp: daemonize_std_def split: prod.splits if_splits)
  from new_fd_fresh [OF this(1)] new_fd_fresh [OF this(2)] new_fd_fresh [OF this(3)] show ?thesis by auto
qed

lemma start_failover_step:
  assumes "gsmd_positions chain [0..<UHASH_SIZE] = ps @ qs"
  shows "gsmd_next chain (if ps = [] then None else Some (last ps)) = (case qs of [] \<Rightarrow> None | q # _ \<Rightarrow> Some q)"
proof (cases ps rule: rev_cases)
  case Nil
  with assms show ?thesis by (simp add: gsmd_next_def first_chain_eq)
next
  case (snoc ps' p)
  with gsmd_next_enumerates [of chain ps' p qs] assms show ?thesis by simp
qed

lemma start_failover_result:
  assumes "gsmd_positions chain [0..<UHASH_SIZE] = ps @ qs" and "g = (if ps = [] then None else Some (last ps))"
  shows "\<exists>r. start_failover chain create k g ps = Some r \<and> (\<forall>l. r = COk l \<longrightarrow> l = ps @ qs)"
  using assms
proof (induction qs arbitrary: ps k g)
  case Nil
  with start_failover_step [OF Nil(1)] show ?case by (subst start_failover.simps) simp
next
  case (Cons q qs)
  have "\<exists>r. start_failover chain create (k + 1) (Some q) (ps @ [q]) = Some r \<and> (\<forall>l. r = COk l \<longrightarrow> l = ps @ q # qs)"
    using Cons.IH [of "ps @ [q]" "Some q" "k + 1"] Cons.prems(1) by simp
  with start_failover_step [OF Cons.prems(1)] show ?case unfolding Cons.prems(2) by (subst start_failover.simps) (auto simp: xcall_def)
qed

lemma main_state_result:
  assumes "c_state_mode config = SMODE_LOCAL \<or> nonce_ends (m_host env) (m_rnd env k)"
  shows "\<exists>st. main_state env config = Some st \<and> (\<forall>locks nonce. st = COk (locks, nonce) \<longrightarrow>
    (if c_state_mode config = SMODE_LOCAL then locks = Some lock_init
     else \<exists>sid seq. nonce = Some (sid, seq) \<and> sid \<noteq> (0, 0) \<and> nonce32 seq = 0))"
proof (cases "c_state_mode config = SMODE_LOCAL")
  case False
  then obtain r where "nonce_init (m_opened env) (m_host env) (m_rnd env) = Some r"
    "\<forall>sid seq. r = Some (sid, seq) \<longrightarrow> sid \<noteq> (0, 0) \<and> nonce32 seq = 0"
    using nonce_init_result [of "m_host env" "m_rnd env" k "m_opened env"] assms by blast
  with False show ?thesis by (cases r) (auto simp: main_state_def)
qed (simp add: main_state_def)

lemma main_threads_result:
  "\<exists>r. main_threads env ps = Some r \<and> (\<forall>ps'. r = COk ps' \<longrightarrow>
     ps' = ps\<lparr>ps_failover := gsmd_positions (ps_chain ps) [0..<UHASH_SIZE], ps_accept := m_use_socket env, ps_main_mask := (\<lambda>s. False)\<rparr>)"
  using start_failover_result [of "ps_chain ps" "[]" _ None "m_create env" 0] by (auto simp: main_threads_def)

lemma daemonize_fds:
  assumes "daemonize closefrom env listenfd fds = COk fds'" and "\<forall>n \<in> set fds. 0 \<le> n" and "- 1 \<le> listenfd"
  shows "set fds' = {0, 1, 2} \<union> {n \<in> set fds. n = listenfd \<or> \<not> closefrom \<and> listenfd < n \<and> rlim_int (dm_rlim env) \<le> n} \<and> listenfd \<notin> {0, 1, 2}"
proof -
  have "set (daemonize_close closefrom env listenfd fds)
      = {n \<in> set fds. n = listenfd \<or> \<not> closefrom \<and> listenfd < n \<and> rlim_int (dm_rlim env) \<le> n}"
    using assms(2) by (auto simp: daemonize_close_def close_range_def Let_def)
  moreover have "daemonize_std env (daemonize_close closefrom env listenfd fds) = COk fds'" "listenfd \<notin> {0, 1, 2}"
    using assms(1) by (auto simp: daemonize_def split: if_splits)
  ultimately show ?thesis using daemonize_std_result by blast
qed

lemma main_background_result:
  assumes "main_background env o' st = COk (fds, lg)" and "\<forall>n \<in> set (m_fds env). 0 \<le> n" and "- 1 \<le> cf_s st"
  shows "if dodaemon o' then set fds = {0, 1, 2} \<union> {n \<in> set (m_fds env). n = cf_s st
      \<or> \<not> m_closefrom env \<and> cf_s st < n \<and> rlim_int (dm_rlim (m_daemon env)) \<le> n} \<and> log_syslog lg
    else fds = m_fds env"
  using assms daemonize_fds [of "m_closefrom env" "m_daemon env" "cf_s st" "m_fds env"]
  by (auto simp: main_background_def mopenlog_def split: if_splits)

lemma accept_thread_result:
  "accept_thread config evs = COk insts \<Longrightarrow> insts = map (\<lambda>(s, _). (config, s)) (List.map_filter id evs)"
proof (induction config evs arbitrary: insts rule: accept_thread.induct)
  case (3 config s ok evs)
  then show ?case by (auto simp: map_filter_simps)
qed (simp_all add: map_filter_simps)

lemma serve_no_leak:
  assumes "set cardops \<subseteq> {hotp_cardops cr', totp_cardops cr', c200_cardops cr'}"
    and "\<And>name now. file_get penv tuser name config now \<noteq> CFault"
    and "\<And>name now user. file_get penv tuser name config now = COk user \<Longrightarrow> user_ok config user"
    and "\<And>i k. length (t_challenge (k_turns (conns i) k)) = OTP_MAX_CHALLENGE_LEN"
    and "\<And>bs. wire_ok (get_request abi bs)" and "\<And>bs. wire_ok (get_request_v1 abi bs)" and "\<And>i k. wire_ok (t_union (k_turns (conns i) k))"
    and "c_softfail config = 0" and "idle (\<lambda>b. []) n u w" and "\<forall>inst \<in> set insts. fst inst = config"
  shows "\<exists>outs w'. serve abi cr cardops (userops_file penv tuser) conns i insts w = COk (outs, w') \<and> length outs = length insts \<and> idle (\<lambda>b. []) n u w'"
  using assms(9,10)
proof (induction insts arbitrary: i w)
  case (Cons inst insts)
  obtain s where inst: "inst = (config, s)" using Cons.prems(2) by (cases inst) auto
  have "\<exists>out w1. work_thread abi cr cardops (userops_file penv tuser) config (k_turns (conns i)) (k_evs (conns i)) (k_stream (conns i)) w
      = COk (out, w1) \<and> idle (\<lambda>b. []) n u w1"
    unfolding work_thread_def by (rule work_loop_no_leak [where cr' = cr']) (use assms(1-8) Cons.prems(1) in simp_all)
  then obtain out w1 where "work_thread abi cr cardops (userops_file penv tuser) config (k_turns (conns i)) (k_evs (conns i)) (k_stream (conns i)) w
      = COk (out, w1)" "idle (\<lambda>b. []) n u w1"
    by blast
  with Cons.IH [of w1 "i + 1"] Cons.prems(2) inst show ?case by auto
qed simp

section \<open>Properties\<close>

text \<open>
  The descriptors of the daemon. A process that becomes a daemon has the descriptors 0, 1 and 2 on \<^verbatim>\<open>/dev/null\<close>, the listening
  socket, and nothing else below the limit; what was open at or above the limit stays open where \<open>closefrom\<close> is missing.
\<close>

theorem daemonize_descriptors:
  assumes "daemonize closefrom env listenfd fds = COk fds'" and "\<forall>n \<in> set fds. 0 \<le> n" and "- 1 \<le> listenfd"
  shows "set fds' = {0, 1, 2} \<union> {n \<in> set fds. n = listenfd \<or> \<not> closefrom \<and> listenfd < n \<and> rlim_int (dm_rlim env) \<le> n} \<and> listenfd \<notin> {0, 1, 2}"
  using daemonize_fds [OF assms] .

theorem daemonize_descriptors_witness:
  "\<exists>fds'. daemonize False sample_daemon 3 [0, 1, 2, 3, 7, 30] = COk fds' \<and> set fds' = {0, 1, 2, 3, 30}"
proof -
  have lim: "rlim_int (dm_rlim sample_daemon) = 20" by (simp add: rlim_int_def sample_daemon_def)
  have "daemonize_close False sample_daemon 3 [0, 1, 2, 3, 7, 30] = [3, 30]"
    by (simp add: daemonize_close_def close_range_def lim)
  moreover have "daemonize_std sample_daemon [3, 30] = COk [2, 1, 0, 3, 30]" by code_simp
  ultimately have "\<exists>fds'. daemonize False sample_daemon 3 [0, 1, 2, 3, 7, 30] = COk fds'"
    by (simp add: daemonize_def) (simp add: sample_daemon_def)
  then obtain fds' where r: "daemonize False sample_daemon 3 [0, 1, 2, 3, 7, 30] = COk fds'" by blast
  have "set fds' = {0, 1, 2} \<union> {n \<in> set [0, 1, 2, 3, 7, 30]. n = 3 \<or> \<not> False \<and> 3 < n \<and> rlim_int (dm_rlim sample_daemon) \<le> n}"
    using daemonize_descriptors [OF r] by simp
  also have "\<dots> = {0, 1, 2, 3, 30}" by (auto simp: lim)
  finally show ?thesis using r by blast
qed



text \<open>
  The daemon goes on serving. Every connection that is accepted gets a work thread with a copy of the configuration, failed calls of \<open>accept\<close> aside; with a
  password file in order and the modules built on HOTP, the connections can be served one after the other, whatever the plugins send, and at the end no lock is
  held and the same number of sockets is open as before.
\<close>

theorem daemon_serves:
  assumes "accept_thread config evs = COk insts"
    and "set cardops \<subseteq> {hotp_cardops cr', totp_cardops cr', c200_cardops cr'}"
    and "\<And>name now. file_get penv tuser name config now \<noteq> CFault"
    and "\<And>name now user. file_get penv tuser name config now = COk user \<Longrightarrow> user_ok config user"
    and "\<And>i k. length (t_challenge (k_turns (conns i) k)) = OTP_MAX_CHALLENGE_LEN"
    and "\<And>bs. wire_ok (get_request abi bs)" and "\<And>bs. wire_ok (get_request_v1 abi bs)" and "\<And>i k. wire_ok (t_union (k_turns (conns i) k))"
    and "c_softfail config = 0" and "idle (\<lambda>b. []) n u w"
  shows "\<exists>outs w'. serve abi cr cardops (userops_file penv tuser) conns 0 insts w = COk (outs, w')
    \<and> length outs = length (filter (\<lambda>ev. ev \<noteq> None) evs) \<and> idle (\<lambda>b. []) n u w'"
proof -
  have insts: "insts = map (\<lambda>(s, _). (config, s)) (List.map_filter id evs)" using accept_thread_result [OF assms(1)] .
  have "length (List.map_filter id evs) = length (filter (\<lambda>ev. ev \<noteq> None) evs)" by (simp add: List.map_filter_def)
  moreover have "\<forall>inst \<in> set insts. fst inst = config" by (auto simp: insts)
  moreover have "\<exists>outs w'. serve abi cr cardops (userops_file penv tuser) conns 0 insts w = COk (outs, w')
      \<and> length outs = length insts \<and> idle (\<lambda>b. []) n u w'"
    by (rule serve_no_leak [where cr' = cr']) (use assms(2-10) calculation(2) in blast)+
  ultimately show ?thesis using insts by simp
qed

theorem daemon_serves_witness:
  "\<exists>outs w'. serve sample_abi sample_crypto [hotp_cardops sample_crypto] (userops_file sample_passwd sample_user)
       (\<lambda>i. \<lparr>k_turns = (\<lambda>k. sample_turn), k_evs = [], k_stream = [2, 0, 0, 0, 0, 0, 0, 0]\<rparr>) 0 [(sample_config, 5), (sample_config, 6)] stored_world = COk (outs, w')
     \<and> length outs = 2 \<and> idle (\<lambda>b. []) 0 sample_user w'"
proof -
  have a: "accept_thread sample_config [Some (5, True), None, Some (6, True)] = COk [(sample_config, 5), (sample_config, 6)]"
    by (simp add: xcall_def)
  have get: "file_get sample_passwd sample_user name sample_config now \<noteq> CFault" for name now
    using sample_get_any [of sample_user name sample_config now] by auto
  have ok: "user_ok sample_config user" if "file_get sample_passwd sample_user name sample_config now = COk user" for name now user
    using that sample_get_any [of sample_user name sample_config now] sample_any_ok by auto
  have "\<exists>outs w'. serve sample_abi sample_crypto [hotp_cardops sample_crypto] (userops_file sample_passwd sample_user)
       (\<lambda>i. \<lparr>k_turns = (\<lambda>k. sample_turn), k_evs = [], k_stream = [2, 0, 0, 0, 0, 0, 0, 0]\<rparr>) 0 [(sample_config, 5), (sample_config, 6)] stored_world = COk (outs, w')
     \<and> length outs = length (filter (\<lambda>ev. ev \<noteq> None) [Some (5 :: int, True), None, Some (6, True)]) \<and> idle (\<lambda>b. []) 0 sample_user w'"
    by (rule daemon_serves [where cr' = sample_crypto, OF a])
      (use get ok in \<open>simp_all add: sample_idle sample_turn_def sample_abi_def OTP_MAX_CHALLENGE_LEN_def\<close>)
  moreover have "length (filter (\<lambda>ev. ev \<noteq> None) [Some (5 :: int, True), None, Some (6, True)]) = 2" by code_simp
  ultimately show ?thesis by (simp only:)
qed

end
