(* ===== verification/Otpd_Client.thy ===== *)
theory Otpd_Client
  imports Otpd_Work_Thread
begin

text \<open>
  The test client, \<^verbatim>\<open>src/otpauth.c\<close>: it sends one request to the daemon and prints the answer. It stands for the
  plugins, which fill in the same structures.

  What the client meets is a record \<open>client_env\<close>; the daemon is a function from the octets that arrive to the octets it
  answers with. The layout of the structures on this side is the record \<open>client_abi\<close>.
\<close>

section \<open>Definitions\<close>

definition MAX_ERRLIST :: int where "MAX_ERRLIST = 7"

definition errlist :: "string list" where
  "errlist = [''ok'', ''user unknown'', ''authinfo unavailable'', ''authentication error'', ''max tries exceeded'', ''service error'',
     ''next passcode required'', ''initial PIN error'']"

text \<open>The return codes as numbers.\<close>

fun rc_code :: "otp_rc \<Rightarrow> int" where
  "rc_code OTP_RC_OK = 0"
| "rc_code OTP_RC_USER_UNKNOWN = 1"
| "rc_code OTP_RC_AUTHINFO_UNAVAIL = 2"
| "rc_code OTP_RC_AUTH_ERR = 3"
| "rc_code OTP_RC_MAXTRIES = 4"
| "rc_code OTP_RC_SERVICE_ERR = 5"
| "rc_code OTP_RC_NEXTPASSCODE = 6"
| "rc_code OTP_RC_IPIN = 7"

text \<open>A reply as the client reads it.\<close>

record reply_wire =
  p_version :: int
  p_rc :: int
  p_passcode :: string

record client_abi =
  put_request :: "wire_t \<Rightarrow> byte list"
  sizeof_reply :: nat
  get_reply :: "byte list \<Rightarrow> reply_wire"

datatype sock_ev = SockIntr | SockErr | SockN nat

text \<open>
  \<open>cl_mem\<close> is what the request structure on the stack holds before it is filled in; \<open>cl_sun_path\<close> is \<open>sizeof (sa.sun_path)\<close>.
\<close>

record client_env =
  cl_mem :: wire_t
  cl_sun_path :: nat
  cl_socket :: bool
  cl_connect :: bool
  cl_writes :: "sock_ev list"
  cl_reads :: "sock_ev list"

definition strcpy :: "string \<Rightarrow> string \<Rightarrow> string" where
  "strcpy buf s = s @ NUL # drop (Suc (length s)) buf"

text \<open>The request that \<open>verify\<close> fills in, or \<open>None\<close> where it returns \<open>OTP_RC_AUTH_ERR\<close>.\<close>

definition client_request :: "wire_t \<Rightarrow> string \<Rightarrow> string \<Rightarrow> wire_t option" where
  "client_request mem username passcode =
     (if OTP_MAX_USERNAME_LEN < length username then None
      else if OTP_MAX_PASSCODE_LEN < length passcode then None
      else Some (mem\<lparr>q_username := (strcpy (q_username mem) username)[OTP_MAX_USERNAME_LEN := NUL],
        q_challenge := (q_challenge mem)[0 := NUL, OTP_MAX_CHALLENGE_LEN := NUL], q_pwe := PWE_PAP,
        q_passcode := (strcpy (q_passcode mem) passcode)[OTP_MAX_PASSCODE_LEN := NUL],
        q_allow_sync := True, q_allow_async := False, q_challenge_delay := 0, q_resync := True\<rparr>))"

definition otp_connect :: "client_env \<Rightarrow> string \<Rightarrow> bool" where
  "otp_connect env path \<longleftrightarrow> \<not> cl_sun_path env - 1 < length path \<and> cl_socket env \<and> cl_connect env"

text \<open>The loops of \<open>otp_write\<close> (what was written, and whether it was all) and \<open>otp_read\<close>.\<close>

fun otp_write :: "sock_ev list \<Rightarrow> byte list \<Rightarrow> byte list \<times> bool" where
  "otp_write [] buf = (buf, True)"
| "otp_write (ev # evs) buf =
     (if buf = [] then ([], True)
      else case ev of
        SockIntr \<Rightarrow> otp_write evs buf
      | SockErr \<Rightarrow> ([], False)
      | SockN n \<Rightarrow> let r = min n (length buf); (w, ok) = otp_write evs (drop r buf) in (take r buf @ w, ok))"

fun otp_read :: "sock_ev list \<Rightarrow> nat \<Rightarrow> byte list \<Rightarrow> byte list option" where
  "otp_read [] n stream = (if length stream < n then None else Some (take n stream))"
| "otp_read (ev # evs) n stream =
     (if n = 0 then Some []
      else case ev of
        SockIntr \<Rightarrow> otp_read evs n stream
      | SockErr \<Rightarrow> None
      | SockN k \<Rightarrow>
          if stream = [] then None
          else let r = min (Suc k) (min n (length stream))
               in map_option (\<lambda>bs. take r stream @ bs) (otp_read evs (n - r) (drop r stream)))"

definition otp_verify :: "client_abi \<Rightarrow> client_env \<Rightarrow> (byte list \<Rightarrow> byte list) \<Rightarrow> string \<Rightarrow> wire_t \<Rightarrow> int" where
  "otp_verify cabi env daemon otpd_socket request =
     (if \<not> otp_connect env otpd_socket then - 1
      else case otp_write (cl_writes env) (put_request cabi request) of (sent, ok) \<Rightarrow>
        if \<not> ok then - 1
        else case otp_read (cl_reads env) (sizeof_reply cabi) (daemon sent) of
            None \<Rightarrow> - 1
          | Some bs \<Rightarrow>
              let reply = get_reply cabi bs in
              if p_version reply \<noteq> 1 then - 1
              else if p_passcode reply ! OTP_MAX_PASSCODE_LEN \<noteq> NUL then - 1
              else p_rc reply)"

definition client_verify :: "client_abi \<Rightarrow> client_env \<Rightarrow> (byte list \<Rightarrow> byte list) \<Rightarrow> string \<Rightarrow> string \<Rightarrow> string \<Rightarrow> int" where
  "client_verify cabi env daemon otpd_socket username passcode =
     (case client_request (cl_mem env) username passcode of
        None \<Rightarrow> rc_code OTP_RC_AUTH_ERR
      | Some request \<Rightarrow> otp_verify cabi env daemon otpd_socket request)"

text \<open>\<open>main\<close>: the options as \<open>getopt\<close> gives them and the number of further arguments; what is printed and the argument of \<open>exit\<close>.\<close>

record client_opts =
  x_username :: "string option"
  x_password :: "string option"
  x_socket :: "string option"

fun client_options :: "(char \<times> string) list \<Rightarrow> client_opts \<Rightarrow> client_opts option" where
  "client_options [] o' = Some o'"
| "client_options ((c, optarg) # opts) o' =
     (if c = CHR ''u'' then client_options opts (o'\<lparr>x_username := Some optarg\<rparr>)
      else if c = CHR ''p'' then client_options opts (o'\<lparr>x_password := Some optarg\<rparr>)
      else if c = CHR ''s'' then client_options opts (o'\<lparr>x_socket := Some optarg\<rparr>)
      else None)"

definition errtext :: "int \<Rightarrow> string" where
  "errtext rc = (if rc < 0 \<or> MAX_ERRLIST < rc then ''invalid return code'' else errlist ! nat rc)"

definition fmt_d :: "int \<Rightarrow> string" where
  "fmt_d i = (if i < 0 then ''-'' else []) @ radix_string 10 (nat \<bar>i\<bar>)"

datatype client_exit = Usage | Printed string int

definition client_main :: "client_abi \<Rightarrow> client_env \<Rightarrow> (byte list \<Rightarrow> byte list) \<Rightarrow> (char \<times> string) list \<Rightarrow> nat \<Rightarrow> client_exit" where
  "client_main cabi env daemon opts rest =
     (case client_options opts \<lparr>x_username = None, x_password = None, x_socket = None\<rparr> of
        None \<Rightarrow> Usage
      | Some o' \<Rightarrow>
          if 0 < rest then Usage
          else case (x_username o', x_password o', x_socket o') of
            (Some username, Some password, Some otpd_socket) \<Rightarrow>
              let rc = client_verify cabi env daemon otpd_socket username password
              in Printed (fmt_d rc @ '' ('' @ errtext rc @ '')'' @ [CHR 0x0A]) rc
          | _ \<Rightarrow> Usage)"

text \<open>
  The daemon at the other end of the connection: a work thread that gets these octets. Its answer to a request does not depend on what follows
  the request, so the octets may be taken as all that the client sends.
\<close>

definition daemon_answer :: "(string list \<times> world_t) cres \<Rightarrow> byte list" where
  "daemon_answer r = (case r of COk (out, _) \<Rightarrow> bytes_of (concat out) | _ \<Rightarrow> [])"

text \<open>Two requests that agree on what a PAP request uses.\<close>

definition pap_same :: "wire_t \<Rightarrow> wire_t \<Rightarrow> bool" where
  "pap_same q q' \<longleftrightarrow> q_username q = q_username q' \<and> q_challenge q = q_challenge q' \<and> q_pwe q = q_pwe q' \<and> q_passcode q = q_passcode q'
     \<and> q_allow_async q = q_allow_async q' \<and> q_allow_sync q = q_allow_sync q' \<and> q_challenge_delay q = q_challenge_delay q' \<and> q_resync q = q_resync q'"

text \<open>
  What two programs compiled against \<^verbatim>\<open>src/otp.h\<close> agree on: one reads the members that the other wrote, those of a PAP request in particular
  (the members of the other kinds share its memory).
\<close>

definition layout_ok :: "abi_t \<Rightarrow> client_abi \<Rightarrow> bool" where
  "layout_ok abi cabi \<longleftrightarrow> 4 \<le> sizeof_request abi
     \<and> (\<forall>q. wire_ok q \<and> q_pwe q = PWE_PAP \<longrightarrow> length (put_request cabi q) = sizeof_request abi
          \<and> get_version abi (take 4 (put_request cabi q)) = 2 \<and> pap_same (get_request abi (put_request cabi q)) q)
     \<and> (\<forall>reply. length (y_passcode reply) \<le> OTP_MAX_PASSCODE_LEN \<and> y_version reply = 1 \<longrightarrow> length (put_reply abi reply) = sizeof_reply cabi
          \<and> p_version (get_reply cabi (bytes_of (put_reply abi reply))) = 1
          \<and> p_rc (get_reply cabi (bytes_of (put_reply abi reply))) = rc_code (y_rc reply)
          \<and> p_passcode (get_reply cabi (bytes_of (put_reply abi reply))) ! OTP_MAX_PASSCODE_LEN = NUL)"

subsection \<open>Sample values\<close>

text \<open>A layout without padding, for requests whose numbers fit an octet.\<close>

definition sample_put_request :: "wire_t \<Rightarrow> byte list" where
  "sample_put_request q = [2, 0, 0, 0] @ bytes_of (q_username q) @ bytes_of (q_challenge q) @ bytes_of (q_passcode q)
     @ [of_bool (q_allow_async q), of_bool (q_allow_sync q), of_bool (q_resync q)] @ le32_bytes (q_challenge_delay q)"

definition sample_get_request :: "byte list \<Rightarrow> wire_t" where
  "sample_get_request bs = \<lparr>q_username = chars_of (take 32 (drop 4 bs)), q_challenge = chars_of (take 17 (drop 36 bs)), q_pwe = PWE_PAP,
     q_passcode = chars_of (take 48 (drop 53 bs)), q_chap_challenge = [], q_chap_clen = 0, q_chap_response = [], q_chap_rlen = 0,
     q_allow_async = (bs ! 101 \<noteq> 0), q_allow_sync = (bs ! 102 \<noteq> 0), q_challenge_delay = le32 (bs ! 104) (bs ! 105) (bs ! 106) (bs ! 107),
     q_resync = (bs ! 103 \<noteq> 0)\<rparr>"

definition sample_put_reply :: "otp_reply_t \<Rightarrow> string" where
  "sample_put_reply reply = chars_of [word_of_int (y_version reply), word_of_int (rc_code (y_rc reply))] @ take 48 (y_passcode reply @ replicate 48 NUL)"

definition sample_get_reply :: "byte list \<Rightarrow> reply_wire" where
  "sample_get_reply bs = \<lparr>p_version = uint (bs ! 0), p_rc = uint (bs ! 1), p_passcode = chars_of (drop 2 bs)\<rparr>"

definition packed_abi :: abi_t where
  "packed_abi = \<lparr>sizeof_request = 108, sizeof_request_v1 = 108, get_version = (\<lambda>bs. int (unat (bs ! 0))), get_request = sample_get_request,
     get_request_v1 = sample_get_request, put_reply = sample_put_reply\<rparr>"

definition packed_client :: client_abi where
  "packed_client = \<lparr>put_request = sample_put_request, sizeof_reply = 50, get_reply = sample_get_reply\<rparr>"

definition sample_client :: client_env where
  "sample_client = \<lparr>cl_mem = sample_wire, cl_sun_path = 108, cl_socket = True, cl_connect = True, cl_writes = [SockIntr, SockN 5],
     cl_reads = [SockN 0, SockIntr]\<rparr>"

section \<open>Lemmas\<close>

lemma otp_write_complete: "SockErr \<notin> set evs \<Longrightarrow> otp_write evs buf = (buf, True)"
proof (induction evs arbitrary: buf)
  case (Cons ev evs)
  then show ?case by (cases ev) auto
qed simp

lemma otp_read_complete: "SockErr \<notin> set evs \<Longrightarrow> otp_read evs n stream = (if length stream < n then None else Some (take n stream))"
proof (induction evs arbitrary: n stream)
  case (Cons ev evs)
  show ?case
  proof (cases ev)
    case (SockN k)
    define r where "r = min (Suc k) (min n (length stream))"
    have r: "r \<le> n" "r \<le> length stream" by (auto simp: r_def)
    have "take r stream @ take (n - r) (drop r stream) = take n stream"
      using r by (metis take_add le_add_diff_inverse)
    moreover have "length stream - r < n - r \<longleftrightarrow> length stream < n" using r by auto
    moreover have "otp_read evs (n - r) (drop r stream) = (if length stream - r < n - r then None else Some (take (n - r) (drop r stream)))"
      using Cons by simp
    moreover have "otp_read (SockN k # evs) n stream = (if n = 0 then Some [] else if stream = [] then None
        else map_option (\<lambda>bs. take r stream @ bs) (otp_read evs (n - r) (drop r stream)))"
      by (simp only: otp_read.simps sock_ev.case Let_def r_def)
    ultimately show ?thesis using SockN by auto
  qed (use Cons in auto)
qed simp

lemma xwrite_error_free: "WriteErr \<notin> set evs \<Longrightarrow> xwrite evs buf = (buf, True)"
proof (induction evs arbitrary: buf)
  case (Cons ev evs)
  then show ?case by (cases ev) (auto simp: Let_def)
qed simp

lemma verify_exit_version: "verify_exit uo env config clk reply r w = COk (reply', w') \<Longrightarrow> y_version reply' = y_version reply"
  by (cases r) (auto simp: verify_exit_def auth_done_def Let_def split: if_splits)

lemma verify_version:
  assumes "verify cr cardops uo env clk challenge0 config request reply w = COk (reply', w')"
  shows "y_version reply' = y_version reply"
  using assms
  by (auto simp: verify_def verify_no_user_def verify_card_def Let_def
      split: cres.splits option.splits vres.splits if_splits dest: verify_exit_version)

lemma cstr_strcpy:
  assumes "no_nul s" and "length s \<le> n" and "length buf = Suc n"
  shows "cstr ((strcpy buf s)[n := NUL]) = s" "(strcpy buf s)[n := NUL] ! n = NUL" "length ((strcpy buf s)[n := NUL]) = Suc n"
proof -
  have len: "length (strcpy buf s) = Suc n" using assms(2,3) by (simp add: strcpy_def)
  then show "(strcpy buf s)[n := NUL] ! n = NUL" "length ((strcpy buf s)[n := NUL]) = Suc n" by simp_all
  have "(strcpy buf s)[n := NUL] = s @ NUL # drop (Suc (length s)) ((strcpy buf s)[n := NUL])"
    using assms(2) by (cases "n - length s") (auto simp: strcpy_def list_update_append)
  with assms(1) show "cstr ((strcpy buf s)[n := NUL]) = s" by (metis cstr_append_NUL)
qed

lemma client_request_wire:
  assumes "wire_ok mem" and "no_nul username" and "no_nul passcode" and "length username \<le> OTP_MAX_USERNAME_LEN"
    and "length passcode \<le> OTP_MAX_PASSCODE_LEN"
  shows "\<exists>q. client_request mem username passcode = Some q \<and> wire_ok q \<and> q_pwe q = PWE_PAP \<and> cstr (q_username q) = username
    \<and> q_username q ! OTP_MAX_USERNAME_LEN = NUL \<and> cstr (q_challenge q) = [] \<and> q_challenge q ! OTP_MAX_CHALLENGE_LEN = NUL
    \<and> cstr (q_passcode q) = passcode \<and> q_passcode q ! OTP_MAX_PASSCODE_LEN = NUL
    \<and> q_allow_sync q \<and> \<not> q_allow_async q \<and> q_resync q"
proof -
  have len: "length (q_username mem) = Suc OTP_MAX_USERNAME_LEN" "length (q_passcode mem) = Suc OTP_MAX_PASSCODE_LEN"
    "length (q_challenge mem) = Suc OTP_MAX_CHALLENGE_LEN"
    using assms(1) by (simp_all add: wire_ok_def)
  note u = cstr_strcpy [OF assms(2,4) len(1)] and p = cstr_strcpy [OF assms(3,5) len(2)]
  have c: "cstr ((q_challenge mem)[0 := NUL, OTP_MAX_CHALLENGE_LEN := NUL]) = []"
    using len(3) by (cases "q_challenge mem") (simp_all add: cstr_def OTP_MAX_CHALLENGE_LEN_def)
  from assms(4,5) u p c len(3) show ?thesis by (auto simp: client_request_def wire_ok_def)
qed

text \<open>Such a request passes the checks of the daemon, if the name has none of the characters that it refuses.\<close>

lemma client_request_valid:
  assumes "client_request mem username passcode = Some q" and "wire_ok mem" and "no_nul username" and "no_nul passcode"
    and "username_charset username" and "pap_same q' q"
  shows "validate q' = Valid (request_of q') \<and> r_username (request_of q') = username \<and> r_passcode (request_of q') = passcode
    \<and> r_challenge (request_of q') = [] \<and> r_pwe (request_of q') = PWE_PAP \<and> r_allow_sync (request_of q') \<and> \<not> r_allow_async (request_of q')
    \<and> r_resync (request_of q')"
proof -
  have "length username \<le> OTP_MAX_USERNAME_LEN" "length passcode \<le> OTP_MAX_PASSCODE_LEN"
    using assms(1) by (auto simp: client_request_def split: if_splits)
  from client_request_wire [OF assms(2-4) this] assms(1,5,6) show ?thesis
    by (auto simp: pap_same_def validate_def request_of_def)
qed

text \<open>The work thread on the octets of one request.\<close>

lemma work_thread_one:
  assumes "layout_ok abi cabi" and "wire_ok q" and "q_pwe q = PWE_PAP" and "error_free evs"
  shows "work_thread abi cr cardops uo config turns evs (put_request cabi q) w =
    (case handle_request cr cardops uo config (turns 0) (get_request abi (put_request cabi q)) reply_init w of
       COk None \<Rightarrow> COk ([], w)
     | COk (Some (reply, w)) \<Rightarrow> (case xwrite (t_writes (turns 0)) (put_reply abi reply) of (written, ok) \<Rightarrow> COk ([written], w))
     | CErr n \<Rightarrow> CErr n | CFault \<Rightarrow> CFault)"
proof -
  have law: "4 \<le> sizeof_request abi" "length (put_request cabi q) = sizeof_request abi" "get_version abi (take 4 (put_request cabi q)) = 2"
    using assms(1-3) by (auto simp: layout_ok_def)
  obtain e where "error_free e" "read_request abi (t_union (turns 0)) evs (put_request cabi q) =
      map_option (\<lambda>(q, _, rest). (q, e, rest)) (read_request abi (t_union (turns 0)) [] (put_request cabi q))"
    using read_request_error_free [OF assms(4)] by blast
  then have e: "error_free e" "read_request abi (t_union (turns 0)) evs (put_request cabi q) = Some (get_request abi (put_request cabi q), e, [])"
    using law by (simp_all add: read_request_def)
  have "work_loop abi cr cardops uo config turns 1 e [] reply w = COk ([], w)" for reply w
    using work_loop_error_free [OF e(1), of "[]" abi cr cardops uo config turns 1 "[]" reply w]
    by (simp add: work_loop.simps read_request_def error_free_def)
  with e(2) show ?thesis
    by (auto simp: work_thread_def work_loop.simps [of abi cr cardops uo config turns 0] split: cres.split option.split prod.split)
qed

lemma packed_request:
  assumes "wire_ok q" and "q_pwe q = PWE_PAP"
  shows "length (sample_put_request q) = 108" "pap_same (sample_get_request (sample_put_request q)) q"
proof -
  have len: "length (q_username q) = 32" "length (q_challenge q) = 17" "length (q_passcode q) = 48"
    using assms(1) by (simp_all add: wire_ok_def max_defs)
  then show "length (sample_put_request q) = 108" by (simp add: sample_put_request_def)
  obtain a b c d where d: "le32_bytes (q_challenge_delay q) = [a, b, c, d]" "le32 a b c d = q_challenge_delay q"
    by (rule le32_bytes_cases)
  then show "pap_same (sample_get_request (sample_put_request q)) q"
    using len assms(2) d by (simp add: pap_same_def sample_get_request_def sample_put_request_def nth_append)
qed

lemma packed_layout: "layout_ok packed_abi packed_client"
proof -
  have "length (sample_put_reply reply) = 50 \<and> p_version (sample_get_reply (bytes_of (sample_put_reply reply))) = 1
      \<and> p_rc (sample_get_reply (bytes_of (sample_put_reply reply))) = rc_code (y_rc reply)
      \<and> p_passcode (sample_get_reply (bytes_of (sample_put_reply reply))) ! OTP_MAX_PASSCODE_LEN = NUL"
    if "length (y_passcode reply) \<le> OTP_MAX_PASSCODE_LEN" and "y_version reply = 1" for reply
  proof -
    have "chars_of (bytes_of (y_passcode reply) @ bytes_of (replicate (48 - length (y_passcode reply)) NUL))
        = y_passcode reply @ replicate (48 - length (y_passcode reply)) NUL"
      by (metis bytes_of_simps(3) chars_of_bytes_of)
    with that show ?thesis
      by (cases "y_rc reply") (simp_all add: sample_put_reply_def sample_get_reply_def max_defs nth_append)
  qed
  then show ?thesis
    by (auto simp: layout_ok_def packed_abi_def packed_client_def packed_request) (simp_all add: sample_put_request_def)
qed

section \<open>Properties\<close>

text \<open>
  C23: client and daemon understand each other. For a user name and a passcode that fit their arrays, and a name without the characters the
  daemon refuses, the request that the client sends passes the daemon's checks and reaches \<open>verify\<close> with just this name and passcode; and the
  client prints and returns the code that \<open>verify\<close> gave, however the octets are split on either side.
\<close>

theorem client_gets_verdict:
  assumes "layout_ok abi cabi" and "wire_ok (cl_mem env)" and "no_nul username" and "no_nul passcode"
    and "length username \<le> OTP_MAX_USERNAME_LEN" and "length passcode \<le> OTP_MAX_PASSCODE_LEN" and "username_charset username"
    and "otp_connect env path" and "SockErr \<notin> set (cl_writes env)" and "SockErr \<notin> set (cl_reads env)"
    and "error_free evs" and "WriteErr \<notin> set (t_writes (turns 0))"
  shows "\<exists>request. r_username request = username \<and> r_passcode request = passcode \<and> r_challenge request = [] \<and> r_pwe request = PWE_PAP
    \<and> r_allow_sync request \<and> \<not> r_allow_async request \<and> r_resync request
    \<and> (\<forall>reply w'. verify cr cardops uo (t_env (turns 0)) (t_clock (turns 0)) (t_challenge (turns 0)) config request reply_init w = COk (reply, w')
         \<and> length (y_passcode reply) \<le> OTP_MAX_PASSCODE_LEN
       \<longrightarrow> client_main cabi env (\<lambda>octets. daemon_answer (work_thread abi cr cardops uo config turns evs octets w))
             [(CHR ''u'', username), (CHR ''p'', passcode), (CHR ''s'', path)] 0
           = Printed (fmt_d (rc_code (y_rc reply)) @ '' ('' @ errlist ! nat (rc_code (y_rc reply)) @ '')'' @ [CHR 0x0A]) (rc_code (y_rc reply)))"
proof -
  obtain q where q: "client_request (cl_mem env) username passcode = Some q" "wire_ok q" "q_pwe q = PWE_PAP"
    using client_request_wire [OF assms(2-6)] by blast
  define q' where "q' = get_request abi (put_request cabi q)"
  have "pap_same q' q" using assms(1) q by (auto simp: layout_ok_def q'_def)
  note v = client_request_valid [OF q(1) assms(2-4,7) this]
  have "client_main cabi env (\<lambda>octets. daemon_answer (work_thread abi cr cardops uo config turns evs octets w))
      [(CHR ''u'', username), (CHR ''p'', passcode), (CHR ''s'', path)] 0
    = Printed (fmt_d (rc_code (y_rc reply)) @ '' ('' @ errlist ! nat (rc_code (y_rc reply)) @ '')'' @ [CHR 0x0A]) (rc_code (y_rc reply))"
    if run: "verify cr cardops uo (t_env (turns 0)) (t_clock (turns 0)) (t_challenge (turns 0)) config (request_of q') reply_init w = COk (reply, w')"
      and len: "length (y_passcode reply) \<le> OTP_MAX_PASSCODE_LEN" for reply w'
  proof -
    have reply: "y_version reply = 1" using verify_version [OF run] by (simp add: reply_init_def)
    have "work_thread abi cr cardops uo config turns evs (put_request cabi q) w = COk ([put_reply abi reply], w')"
      using v run by (simp add: work_thread_one [OF assms(1) q(2,3) assms(11)] q'_def [symmetric] handle_request_def xwrite_error_free [OF assms(12)])
    then have "client_verify cabi env (\<lambda>octets. daemon_answer (work_thread abi cr cardops uo config turns evs octets w)) path username passcode
        = rc_code (y_rc reply)"
      using assms(1,8) reply len q(1)
      by (simp add: client_verify_def otp_verify_def otp_write_complete [OF assms(9)] otp_read_complete [OF assms(10)] daemon_answer_def layout_ok_def)
    moreover have "errtext (rc_code (y_rc reply)) = errlist ! nat (rc_code (y_rc reply))"
      by (cases "y_rc reply") (simp_all add: errtext_def MAX_ERRLIST_def)
    ultimately show ?thesis by (simp add: client_main_def Let_def)
  qed
  with v show ?thesis by (intro exI [of _ "request_of q'"]) blast
qed

theorem client_gets_verdict_witness:
  "\<exists>request. r_username request = ''joe'' \<and> r_passcode request = ''1234000008''
    \<and> (\<forall>reply w'. verify sample_crypto [hotp_cardops sample_crypto] (userops_file sample_passwd sample_user) sample_env sample_clock
           (replicate 16 0) sample_config request reply_init stored_world = COk (reply, w') \<and> length (y_passcode reply) \<le> OTP_MAX_PASSCODE_LEN
       \<longrightarrow> client_main packed_client sample_client (\<lambda>octets. daemon_answer (work_thread packed_abi sample_crypto [hotp_cardops sample_crypto]
               (userops_file sample_passwd sample_user) sample_config (\<lambda>i. sample_turn) [] octets stored_world))
             [(CHR ''u'', ''joe''), (CHR ''p'', ''1234000008''), (CHR ''s'', ''/s'')] 0
           = Printed (fmt_d (rc_code (y_rc reply)) @ '' ('' @ errlist ! nat (rc_code (y_rc reply)) @ '')'' @ [CHR 0x0A]) (rc_code (y_rc reply)))"
proof -
  have "wire_ok (cl_mem sample_client)" "otp_connect sample_client ''/s''" "username_charset ''joe''" "no_nul ''joe''" "no_nul ''1234000008''"
    "error_free []"
    by (simp_all add: sample_client_def sample_wire_def wire_ok_def otp_connect_def username_charset_def no_nul_def error_free_def max_defs)
  from client_gets_verdict [OF packed_layout this(1,4,5) _ _ this(3,2) _ _ this(6), of "\<lambda>i. sample_turn" sample_crypto "[hotp_cardops sample_crypto]"
      "userops_file sample_passwd sample_user" sample_config stored_world]
  show ?thesis by (simp add: sample_client_def sample_turn_def max_defs) blast
qed

text \<open>
  Refused names. The daemon closes the connection without an answer on a name with a character that it refuses, and the client reports an invalid
  return code; a name or passcode that is too long is never sent and counts as an authentication error.
\<close>

theorem client_refused:
  assumes "layout_ok abi cabi" and "wire_ok (cl_mem env)" and "no_nul username" and "no_nul passcode"
    and "SockErr \<notin> set (cl_writes env)" and "SockErr \<notin> set (cl_reads env)" and "error_free evs" and "0 < sizeof_reply cabi"
  shows "(OTP_MAX_USERNAME_LEN < length username \<or> OTP_MAX_PASSCODE_LEN < length passcode
      \<longrightarrow> client_verify cabi env daemon path username passcode = rc_code OTP_RC_AUTH_ERR)
    \<and> (length username \<le> OTP_MAX_USERNAME_LEN \<and> length passcode \<le> OTP_MAX_PASSCODE_LEN \<and> \<not> username_charset username
      \<longrightarrow> client_verify cabi env (\<lambda>octets. daemon_answer (work_thread abi cr cardops uo config turns evs octets w)) path username passcode = - 1)"
proof (intro conjI impI; (elim conjE)?)
  assume fits: "length username \<le> OTP_MAX_USERNAME_LEN" "length passcode \<le> OTP_MAX_PASSCODE_LEN" and bad: "\<not> username_charset username"
  obtain q where q: "client_request (cl_mem env) username passcode = Some q" "wire_ok q" "q_pwe q = PWE_PAP" "cstr (q_username q) = username"
    using client_request_wire [OF assms(2-4) fits] by blast
  have "pap_same (get_request abi (put_request cabi q)) q" using assms(1) q by (auto simp: layout_ok_def)
  then have "validate (get_request abi (put_request cabi q)) = Invalid"
    using bad q(4) by (simp add: validate_def pap_same_def)
  then have "work_thread abi cr cardops uo config turns evs (put_request cabi q) w = COk ([], w)"
    by (simp add: work_thread_one [OF assms(1) q(2,3) assms(7)] handle_request_def)
  then show "client_verify cabi env (\<lambda>octets. daemon_answer (work_thread abi cr cardops uo config turns evs octets w)) path username passcode = - 1"
    using q(1) assms(8)
    by (simp add: client_verify_def otp_verify_def otp_write_complete [OF assms(5)] otp_read_complete [OF assms(6)] daemon_answer_def)
qed (auto simp: client_verify_def client_request_def)

theorem client_refused_witness:
  "client_verify packed_client sample_client (\<lambda>octets. daemon_answer (work_thread packed_abi sample_crypto [] (userops_file sample_passwd sample_user)
      sample_config (\<lambda>i. sample_turn) [] octets stored_world)) ''/s'' ''a=b'' ''0'' = - 1"
proof -
  have "wire_ok (cl_mem sample_client)" "\<not> username_charset ''a=b''" "no_nul ''a=b''" "no_nul ''0''" "error_free []" "0 < sizeof_reply packed_client"
    by (simp_all add: sample_client_def sample_wire_def wire_ok_def username_charset_def no_nul_def error_free_def packed_client_def max_defs)
  from client_refused [OF packed_layout this(1,3,4) _ _ this(5,6)] this(2)
  show ?thesis by (auto simp: sample_client_def max_defs)
qed

end
