(* ===== verification/Otpd_Failover.thy ===== *)
theory Otpd_Failover
  imports Otpd_Gsm
begin

text \<open>
  The failover thread, \<^verbatim>\<open>src/failover_thread.c\<close>: one thread per configured state manager. It sleeps on a
  semaphore until \<open>gsmd ()\<close> reports a timeout of the primary server, then probes the primary and switches
  between primary and backup.

  The thread is a state machine. A step is a return from \<open>sem_wait\<close>, one pass of the probe loop, or the
  end of the loop at its timeout; its label (\<open>fo_ev\<close>) holds what the environment did: the sequence number
  that \<open>nonce32\<close> returned, what \<open>send\<close>, \<open>poll\<close> and \<open>recv\<close> did, and the clock readings.
\<close>

section \<open>Definitions\<close>

text \<open>
  One pass: \<open>FoAgain\<close> is \<open>EAGAIN\<close> from \<open>send\<close> or \<open>poll\<close>, \<open>FoErr\<close> any other error of these two, \<open>FoTimeout\<close> the
  timeout of \<open>poll\<close>, \<open>FoRecvErr\<close> an error of \<open>recv\<close>, which are all treated alike but for the pause.
\<close>

datatype fo_net = FoAgain | FoErr | FoTimeout | FoRecvErr | FoRecv "byte list"

datatype fo_ev = Signal u32 int | Pass int fo_net int | Expire int int

datatype fo_pc = FoSleep | FoPoll u32 int | FoDead

text \<open>
  The state: \<open>f_cmsg\<close> and \<open>f_packet\<close> are the message and the whole packet in the buffer \<open>c\<close>, \<open>f_buf\<close> is the buffer \<open>p\<close>.
  \<open>FoPoll seq timeout\<close> is the probe loop; \<open>FoDead\<close> is reached when an access leaves the buffer.
\<close>

record fo_t =
  f_gsmd :: "helix_scontext_t gsmd_t"
  f_cmsg :: "byte list"
  f_packet :: "byte list"
  f_buf :: "byte list"
  f_pc :: fo_pc

text \<open>The thread ends at once where there is only a primary.\<close>

definition failover_start :: "helix_scontext_t gsmd_t \<Rightarrow> byte list \<Rightarrow> fo_t option" where
  "failover_start g buf =
     (if g_n g = 1 then None
      else Some \<lparr>f_gsmd = g, f_cmsg = gsm_pad ''G !'', f_packet = [], f_buf = buf, f_pc = FoSleep\<rparr>)"

text \<open>
  The probe for a sequence number. The static part of the nonce is the one of the message \<open>G !\<close>; the
  message is encrypted in place.
\<close>

definition fo_probe :: "u32 \<times> u32 \<Rightarrow> u32 \<Rightarrow> fo_t \<Rightarrow> fo_t" where
  "fo_probe streamid seq s =
     (let sc = g_scontext (f_gsmd s); nonce = gsm_nonce streamid ''G !'' seq in
      case helix_encrypt sc (helix_nonce sc nonce) (f_cmsg s) of
        Some (c, m, _) \<Rightarrow> s\<lparr>f_cmsg := c, f_packet := nonce @ c @ m\<rparr>
      | None \<Rightarrow> s\<lparr>f_packet := nonce @ f_cmsg s @ replicate HELIX_MAC_LEN 0\<rparr>)"

text \<open>\<open>RESET_FAILBACK\<close>.\<close>

definition reset_failback :: "helix_scontext_t gsmd_t \<Rightarrow> int \<Rightarrow> int \<Rightarrow> int" where
  "reset_failback g hr timeout = (if g_active g = 1 then hr + g_fb_timeout g else timeout)"

text \<open>
  The checks on a received packet of \<open>rlen\<close> octets at the start of the buffer. The length of the
  ciphertext is computed without a check that the packet has one: below 32 octets it is negative, and
  as a \<open>size_t\<close> huge. A packet that fails the integrity check stays decrypted in the buffer.
\<close>

datatype fo_verdict = FoFault | FoBad "byte list" | FoAck "byte list" | FoNak "byte list"

definition fo_decrypt :: "helix_scontext_t \<Rightarrow> byte list \<Rightarrow> nat \<Rightarrow> bool \<times> byte list" where
  "fo_decrypt sc pp rlen =
     (case helix_decrypt sc (helix_nonce sc (take HELIX_NONCE_LEN pp))
             (drop HELIX_NONCE_LEN (take (rlen - HELIX_MAC_LEN) pp)) of
        None \<Rightarrow> (False, pp)
      | Some (p, m, _) \<Rightarrow>
          (m = take HELIX_MAC_LEN (drop (rlen - HELIX_MAC_LEN) pp),
           take HELIX_NONCE_LEN pp @ p @ drop (rlen - HELIX_MAC_LEN) pp))"

definition fo_check :: "helix_scontext_t \<Rightarrow> u32 \<Rightarrow> byte list \<Rightarrow> nat \<Rightarrow> fo_verdict" where
  "fo_check sc seq pp rlen =
     (if rlen < HELIX_NONCE_LEN + HELIX_MAC_LEN then FoFault
      else case fo_decrypt sc pp rlen of (ok, pp) \<Rightarrow>
        let len = unat (pp ! 8) + unat (pp ! 9) * 256; ulen = 1 in
        if \<not> ok then FoBad pp
        else if len < 3 + ulen \<or> GSM_MAX_MSG_LEN < len
           \<or> 3 < int rlen - int (HELIX_NONCE_LEN + HELIX_MAC_LEN) - int len then FoBad pp
        else if le32 (pp ! 12) (pp ! 13) (pp ! 14) (pp ! 15) \<noteq> seq then FoBad pp
        else if pmsg_at pp 1 \<noteq> byte_of (CHR '' '') then FoBad pp
        else if pmsg_at pp 2 \<noteq> byte_of (CHR ''!'')
           \<or> pmsg_at pp (ulen + 2) \<noteq> byte_of (CHR '' '') \<and> pmsg_at pp (ulen + 2) \<noteq> 0 then FoBad pp
        else if pmsg_at pp (len - 1) \<noteq> 0 then FoBad pp
        else if pmsg_at pp 0 = byte_of (CHR ''A'') then FoAck pp
        else if pmsg_at pp 0 = byte_of (CHR ''N'') then FoNak pp
        else FoBad pp)"

text \<open>One pass of the loop; \<open>hr\<close> is the clock at \<open>RESET_FAILBACK\<close>.\<close>

definition fo_recv :: "u32 \<Rightarrow> int \<Rightarrow> byte list \<Rightarrow> int \<Rightarrow> fo_t \<Rightarrow> fo_t" where
  "fo_recv seq timeout pkt hr s =
     (let g = f_gsmd s; rlen = min GSM_ULTRA_MSG_LEN (length pkt) in
      case fo_check (g_scontext g) seq (memcpy (f_buf s) pkt rlen) rlen of
        FoFault \<Rightarrow> s\<lparr>f_pc := FoDead\<rparr>
      | FoBad pp \<Rightarrow> s\<lparr>f_buf := pp, f_pc := FoPoll seq (reset_failback g hr timeout)\<rparr>
      | FoNak pp \<Rightarrow> s\<lparr>f_buf := pp, f_pc := FoPoll seq (reset_failback g hr timeout)\<rparr>
      | FoAck pp \<Rightarrow> s\<lparr>f_buf := pp, f_pc := if g_active g = 0 then FoSleep else FoPoll seq timeout\<rparr>)"

definition fo_pass :: "u32 \<Rightarrow> int \<Rightarrow> fo_net \<Rightarrow> int \<Rightarrow> fo_t \<Rightarrow> fo_t" where
  "fo_pass seq timeout net hr s = (case net of
     FoAgain \<Rightarrow> s
   | FoErr \<Rightarrow> s\<lparr>f_pc := FoSleep\<rparr>
   | FoTimeout \<Rightarrow> s\<lparr>f_pc := FoPoll seq (reset_failback (f_gsmd s) hr timeout)\<rparr>
   | FoRecvErr \<Rightarrow> s\<lparr>f_pc := FoPoll seq (reset_failback (f_gsmd s) hr timeout)\<rparr>
   | FoRecv pkt \<Rightarrow> fo_recv seq timeout pkt hr s)"

text \<open>The end of the loop: failover to the backup, or failback to the primary.\<close>

definition fo_expire :: "u32 \<Rightarrow> int \<Rightarrow> fo_t \<Rightarrow> fo_t" where
  "fo_expire seq hr s =
     (let g = f_gsmd s in
      if g_active g = 0 then s\<lparr>f_gsmd := g\<lparr>g_active := 1\<rparr>, f_pc := FoPoll seq (hr + g_fb_timeout g)\<rparr>
      else s\<lparr>f_gsmd := g\<lparr>g_active := 0\<rparr>, f_pc := FoSleep\<rparr>)"

inductive fo_step :: "u32 \<times> u32 \<Rightarrow> fo_t \<Rightarrow> fo_ev \<Rightarrow> fo_t \<Rightarrow> bool" for streamid where
  signal: "f_pc s = FoSleep \<Longrightarrow>
    fo_step streamid s (Signal seq hr) ((fo_probe streamid seq s)\<lparr>f_pc := FoPoll seq (hr + g_fo_timeout (f_gsmd s))\<rparr>)"
| pass: "f_pc s = FoPoll seq timeout \<Longrightarrow> hr < timeout \<Longrightarrow> fo_step streamid s (Pass hr net hr') (fo_pass seq timeout net hr' s)"
| expire: "f_pc s = FoPoll seq timeout \<Longrightarrow> timeout \<le> hr \<Longrightarrow> fo_step streamid s (Expire hr hr') (fo_expire seq hr' s)"

inductive_cases fo_signalE: "fo_step streamid s (Signal seq hr) s'"
inductive_cases fo_passE: "fo_step streamid s (Pass hr net hr') s'"
inductive_cases fo_expireE: "fo_step streamid s (Expire hr hr') s'"

text \<open>A run of the thread with the events in order.\<close>

inductive fo_run :: "u32 \<times> u32 \<Rightarrow> fo_t \<Rightarrow> fo_ev list \<Rightarrow> fo_t \<Rightarrow> bool" for streamid s0 where
  start: "fo_run streamid s0 [] s0"
| snoc: "fo_run streamid s0 evs s \<Longrightarrow> fo_step streamid s ev s' \<Longrightarrow> fo_run streamid s0 (evs @ [ev]) s'"


section \<open>Lemmas\<close>

text \<open>\<open>fo_decrypt\<close> accepts what \<open>gsm_decrypt\<close> accepts.\<close>

lemma fo_decrypt_gsm: "gsm_decrypt sc pp rlen = Some pp' \<Longrightarrow> fo_decrypt sc pp rlen = (True, pp')"
  by (auto simp: gsm_decrypt_def fo_decrypt_def split: option.splits if_splits)

text \<open>The acknowledgement of a probe by a server that shares the key.\<close>

definition fo_ack_packet :: "helix_scontext_t \<Rightarrow> u32 \<times> u32 \<Rightarrow> u32 \<Rightarrow> byte list" where
  "fo_ack_packet sc sid seq = gsm_packet sc (gsm_nonce sid ''A ! '' seq) (gsm_pad ''A ! '')"

lemma fo_check_gsm:
  assumes "gsm_response sc ''!'' seq pp rlen = GsmOk len pp'"
  shows "fo_check sc seq pp rlen = FoAck pp'"
proof -
  have dec: "fo_decrypt sc pp rlen = (True, pp')"
    using assms by (auto simp: gsm_response_def Let_def split: if_splits option.splits intro: fo_decrypt_gsm)
  have "length (take 1 (drop 18 pp')) = Suc 0" if "take (Suc 0) (drop 18 pp') = [byte_of (CHR ''!'')]"
    using that by simp
  then have "take (Suc 0) (drop 18 pp') = [byte_of (CHR ''!'')] \<Longrightarrow> pp' ! 18 = byte_of (CHR ''!'')"
    by (cases "drop 18 pp'") (auto simp: drop_Suc nth_via_drop)
  with assms dec show ?thesis
    by (auto simp: gsm_response_def fo_check_def Let_def HELIX_NONCE_LEN_def HELIX_MAC_LEN_def pmsg_at_def
        dest!: fo_decrypt_gsm split: if_splits option.splits)
qed

lemma fo_ack_accepted:
  assumes "sc_magic sc = HELIX_MAGIC"
  shows "\<exists>pp. fo_check sc seq (memcpy buf (fo_ack_packet sc sid seq) (min GSM_ULTRA_MSG_LEN (length (fo_ack_packet sc sid seq))))
    (min GSM_ULTRA_MSG_LEN (length (fo_ack_packet sc sid seq))) = FoAck pp"
proof -
  let ?pkt = "fo_ack_packet sc sid seq"
  have "length (gsm_pad ''A ! '') = 8" by (simp add: gsm_pad_def ROUND4_def)
  then have "length ?pkt = 40"
    using gsm_decrypt_packet [of sc "gsm_nonce sid ''A ! '' seq" "gsm_pad ''A ! ''"] assms by (auto simp: fo_ack_packet_def)
  then have min: "min GSM_ULTRA_MSG_LEN (length ?pkt) = length ?pkt"
    by (simp add: GSM_ULTRA_MSG_LEN_def HELIX_NONCE_LEN_def HELIX_MAC_LEN_def GSM_MAX_MSG_LEN_def)
  have "length (''A '' @ ''!'' @ '' '' @ []) < GSM_MAX_MSG_LEN" by (simp add: GSM_MAX_MSG_LEN_def)
  then obtain len pp where "gsm_response sc ''!'' seq (?pkt @ drop (length ?pkt) buf) (length ?pkt) = GsmOk len pp"
    using gsm_response_packet [OF assms, where u = "''!''" and body = "[]" and sid = sid and seq = seq and rest = "drop (length ?pkt) buf"]
    by (auto simp: fo_ack_packet_def)
  from fo_check_gsm [OF this] show ?thesis unfolding min by (simp add: memcpy_def)
qed

text \<open>What an accepted acknowledgement is: a packet whose MAC verifies, with the sequence number of the probe.\<close>

definition fo_acks :: "helix_scontext_t \<Rightarrow> u32 \<Rightarrow> byte list \<Rightarrow> bool" where
  "fo_acks sc seq pkt \<longleftrightarrow> (\<exists>buf pp. let rlen = min GSM_ULTRA_MSG_LEN (length pkt) in
     gsm_decrypt sc (memcpy buf pkt rlen) rlen = Some pp \<and> le32 (pp ! 12) (pp ! 13) (pp ! 14) (pp ! 15) = seq
     \<and> pmsg_at pp 0 = byte_of (CHR ''A''))"

lemma fo_check_acks:
  assumes "fo_check sc seq (memcpy buf pkt (min GSM_ULTRA_MSG_LEN (length pkt))) (min GSM_ULTRA_MSG_LEN (length pkt)) = FoAck pp"
  shows "fo_acks sc seq pkt"
proof -
  have "gsm_decrypt sc p n = Some pp'" if "fo_decrypt sc p n = (True, pp')" for p n pp'
    using that by (auto simp: gsm_decrypt_def fo_decrypt_def split: option.splits)
  with assms show ?thesis
    unfolding fo_acks_def
    by (intro exI [of _ buf] exI [of _ pp]) (auto simp: fo_check_def Let_def split: if_splits prod.splits)
qed

text \<open>What the steps leave alone.\<close>

lemma fo_pass_frame [simp]:
  "f_gsmd (fo_pass seq timeout net hr s) = f_gsmd s" "f_cmsg (fo_pass seq timeout net hr s) = f_cmsg s"
  "f_packet (fo_pass seq timeout net hr s) = f_packet s"
  by (auto simp: fo_pass_def fo_recv_def Let_def split: fo_net.split fo_verdict.split)

lemma fo_expire_frame [simp]:
  "f_cmsg (fo_expire seq hr s) = f_cmsg s" "f_packet (fo_expire seq hr s) = f_packet s"
  "f_gsmd (fo_expire seq hr s) = (f_gsmd s)\<lparr>g_active := if g_active (f_gsmd s) = 0 then 1 else 0\<rparr>"
  by (auto simp: fo_expire_def Let_def)

lemma fo_probe_frame [simp]: "f_gsmd (fo_probe sid seq s) = f_gsmd s" "f_pc (fo_probe sid seq s) = f_pc s"
  by (auto simp: fo_probe_def Let_def split: option.split)

text \<open>The position of a pass that goes on polling.\<close>

lemma fo_pass_polls:
  assumes "f_pc (fo_pass seq timeout net hr s) = FoPoll seq' timeout'" and "f_pc s = FoPoll seq timeout"
  shows "seq' = seq \<and> net \<noteq> FoErr
    \<and> (timeout' = reset_failback (f_gsmd s) hr timeout
       \<or> timeout' = timeout \<and> (net = FoAgain \<or> g_active (f_gsmd s) \<noteq> 0 \<and> (\<exists>pkt. net = FoRecv pkt \<and> fo_acks (g_scontext (f_gsmd s)) seq pkt)))
    \<and> (sc_magic (g_scontext (f_gsmd s)) = HELIX_MAGIC \<longrightarrow> g_active (f_gsmd s) = 0 \<longrightarrow>
        (\<forall>sid. net \<noteq> FoRecv (fo_ack_packet (g_scontext (f_gsmd s)) sid seq)))"
proof (cases net)
  case (FoRecv pkt)
  show ?thesis
  proof (intro conjI impI allI)
    fix sid
    assume "sc_magic (g_scontext (f_gsmd s)) = HELIX_MAGIC" "g_active (f_gsmd s) = 0"
    then show "net \<noteq> FoRecv (fo_ack_packet (g_scontext (f_gsmd s)) sid seq)"
      using assms(1) FoRecv fo_ack_accepted [of "g_scontext (f_gsmd s)" seq "f_buf s" sid]
      by (auto simp: fo_pass_def fo_recv_def Let_def)
  qed (use assms FoRecv in \<open>auto simp: fo_pass_def fo_recv_def Let_def dest: fo_check_acks split: fo_verdict.splits if_splits\<close>)
qed (use assms in \<open>auto simp: fo_pass_def\<close>)

lemma fo_run_config:
  "fo_run streamid s0 tr s \<Longrightarrow> g_scontext (f_gsmd s) = g_scontext (f_gsmd s0)
     \<and> g_fo_timeout (f_gsmd s) = g_fo_timeout (f_gsmd s0) \<and> g_fb_timeout (f_gsmd s) = g_fb_timeout (f_gsmd s0)"
proof (induction rule: fo_run.induct)
  case (snoc tr s ev s')
  then show ?case by (auto elim!: fo_step.cases)
qed simp

lemma fo_run_active:
  "fo_run streamid s0 tr s \<Longrightarrow> g_active (f_gsmd s0) \<le> 1 \<Longrightarrow> g_active (f_gsmd s) \<le> 1"
proof (induction rule: fo_run.induct)
  case (snoc tr s ev s')
  then show ?case by (auto elim!: fo_step.cases)
qed

text \<open>
  While the primary is active and probed, the events since the signal are passes without the
  acknowledgement of the probe, and the time runs from the signal.
\<close>

lemma fo_run_primary:
  assumes "fo_run streamid s0 tr s" and "f_pc s0 = FoSleep"
    and "sc_magic (g_scontext (f_gsmd s0)) = HELIX_MAGIC"
  shows "f_pc s = FoPoll seq timeout \<Longrightarrow> g_active (f_gsmd s) = 0 \<Longrightarrow>
    \<exists>pre hr0 evs. tr = pre @ Signal seq hr0 # evs \<and> timeout = hr0 + g_fo_timeout (f_gsmd s0)
      \<and> (\<forall>ev \<in> set evs. \<exists>hr net hr'. ev = Pass hr net hr' \<and> (\<forall>sid. net \<noteq> FoRecv (fo_ack_packet (g_scontext (f_gsmd s0)) sid seq)))"
  using assms(1)
proof (induction arbitrary: seq timeout rule: fo_run.induct)
  case (snoc tr s ev s')
  note same = fo_run_config [OF snoc.hyps(1)]
  from snoc.hyps(2) show ?case
  proof cases
    case (signal sq hr)
    with snoc.prems same show ?thesis
      by (intro exI [of _ tr] exI [of _ hr] exI [of _ "[]"]) auto
  next
    case (pass sq tmo hr net hr')
    then have p: "f_pc (fo_pass sq tmo net hr' s) = FoPoll seq timeout" "g_active (f_gsmd s) = 0"
      using snoc.prems by simp_all
    note polls = fo_pass_polls [OF p(1) pass(3)]
    have tmo: "timeout = tmo" "sq = seq" using polls p(2) by (auto simp: reset_failback_def)
    have silent: "\<forall>sid. net \<noteq> FoRecv (fo_ack_packet (g_scontext (f_gsmd s0)) sid seq)"
      using polls p(2) same assms(3) tmo(2) by simp
    obtain pre hr0 evs where IH: "tr = pre @ Signal seq hr0 # evs" "tmo = hr0 + g_fo_timeout (f_gsmd s0)"
      "\<forall>ev \<in> set evs. \<exists>hr net hr'. ev = Pass hr net hr' \<and> (\<forall>sid. net \<noteq> FoRecv (fo_ack_packet (g_scontext (f_gsmd s0)) sid seq))"
      using snoc.IH pass(3) p(2) tmo(2) by blast
    show ?thesis
      using IH tmo pass(1) silent
      by (intro exI [of _ pre] exI [of _ hr0] exI [of _ "evs @ [ev]"]) auto
  next
    case (expire sq tmo hr hr')
    with snoc.prems show ?thesis by (auto simp: fo_expire_def Let_def split: if_splits)
  qed
qed (use assms(2) in simp)

text \<open>
  While the backup is active and no \<open>send\<close> or \<open>poll\<close> failed, the thread polls, and since the last reset of
  the timer every pass met an acknowledgement or an interrupted call.
\<close>

definition quiet_pass :: "helix_scontext_t \<Rightarrow> u32 \<Rightarrow> fo_ev \<Rightarrow> bool" where
  "quiet_pass sc seq ev \<longleftrightarrow> (\<exists>hr net hr'. ev = Pass hr net hr' \<and> (net = FoAgain \<or> (\<exists>pkt. net = FoRecv pkt \<and> fo_acks sc seq pkt)))"

definition no_errors :: "fo_ev list \<Rightarrow> bool" where
  "no_errors tr \<longleftrightarrow> (\<forall>hr hr'. Pass hr FoErr hr' \<notin> set tr)"

lemma fo_pass_sleeps:
  "f_pc (fo_pass seq timeout net hr s) = FoSleep \<Longrightarrow> f_pc s = FoPoll seq timeout \<Longrightarrow> net \<noteq> FoErr \<Longrightarrow> g_active (f_gsmd s) = 0"
  by (auto simp: fo_pass_def fo_recv_def Let_def split: fo_net.splits fo_verdict.splits if_splits)

lemma fo_run_asleep:
  assumes "fo_run streamid s0 tr s" and "g_active (f_gsmd s0) = 0" and "no_errors tr" and "f_pc s = FoSleep"
  shows "g_active (f_gsmd s) = 0"
  using assms(1)
proof cases
  case (snoc tr' s1 ev)
  have noerr: "net \<noteq> FoErr" if "ev = Pass hr net hr'" for hr net hr'
    using assms(3) snoc(1) that by (auto simp: no_errors_def)
  from snoc(3) show ?thesis
  proof cases
    case (pass seq timeout hr net hr')
    with fo_pass_sleeps noerr assms(4) show ?thesis by (metis fo_pass_frame(1))
  next
    case (expire seq timeout hr hr')
    with assms(4) show ?thesis by (auto simp: fo_expire_def Let_def split: if_splits)
  qed (use assms(4) in simp)
qed (use assms(2) in simp)

lemma fo_run_backup:
  assumes "fo_run streamid s0 tr s" and "f_pc s0 = FoSleep" and "g_active (f_gsmd s0) = 0"
  shows "no_errors tr \<Longrightarrow> f_pc s = FoPoll seq timeout \<Longrightarrow> g_active (f_gsmd s) = 1 \<Longrightarrow>
    \<exists>pre ev evs hr T. tr = pre @ ev # evs \<and> (ev = Expire hr T \<or> (\<exists>net. ev = Pass hr net T)) \<and> timeout = T + g_fb_timeout (f_gsmd s0)
      \<and> (\<forall>ev \<in> set evs. quiet_pass (g_scontext (f_gsmd s0)) seq ev)"
  using assms(1)
proof (induction arbitrary: seq timeout rule: fo_run.induct)
  case (snoc tr s ev s')
  note same = fo_run_config [OF snoc.hyps(1)]
  have tr: "no_errors tr" using snoc.prems(1) by (simp add: no_errors_def)
  from snoc.hyps(2) show ?case
  proof cases
    case (signal sq hr)
    with fo_run_asleep [OF snoc.hyps(1) assms(3) tr] snoc.prems show ?thesis by simp
  next
    case (pass sq tmo hr net hr')
    then have p: "f_pc (fo_pass sq tmo net hr' s) = FoPoll seq timeout" "g_active (f_gsmd s) = 1"
      using snoc.prems by simp_all
    note polls = fo_pass_polls [OF p(1) pass(3)]
    show ?thesis
    proof (cases "timeout = hr' + g_fb_timeout (f_gsmd s0)")
      case True
      with pass(1) show ?thesis by (intro exI [of _ tr] exI [of _ ev] exI [of _ "[]"]) auto
    next
      case False
      then have quiet: "timeout = tmo" "quiet_pass (g_scontext (f_gsmd s0)) seq ev" "sq = seq"
        using polls p(2) same pass(1) by (auto simp: reset_failback_def quiet_pass_def)
      obtain pre ev' evs h T where IH: "tr = pre @ ev' # evs" "ev' = Expire h T \<or> (\<exists>net. ev' = Pass h net T)"
        "tmo = T + g_fb_timeout (f_gsmd s0)" "\<forall>ev \<in> set evs. quiet_pass (g_scontext (f_gsmd s0)) seq ev"
        using snoc.IH [OF tr] pass(3) p(2) quiet(3) by blast
      with quiet show ?thesis
        by (intro exI [of _ pre] exI [of _ ev'] exI [of _ "evs @ [ev]"] exI [of _ h] exI [of _ T]) auto
    qed
  next
    case (expire sq tmo hr hr')
    with snoc.prems same show ?thesis
      by (intro exI [of _ tr] exI [of _ ev] exI [of _ "[]"]) (auto simp: fo_expire_def Let_def split: if_splits)
  qed
qed (use assms(2) in simp)

text \<open>The packet in the buffer stays until the next signal.\<close>

lemma fo_run_packet:
  "fo_run streamid s0 tr s \<Longrightarrow> \<forall>ev \<in> set tr. \<forall>seq hr. ev \<noteq> Signal seq hr \<Longrightarrow>
     f_cmsg s = f_cmsg s0 \<and> f_packet s = f_packet s0"
proof (induction rule: fo_run.induct)
  case (snoc tr s ev s')
  then show ?case by (auto elim!: fo_step.cases)
qed simp

lemma fo_run_trans: "fo_run streamid s1 tr2 s \<Longrightarrow> fo_run streamid s0 tr1 s1 \<Longrightarrow> fo_run streamid s0 (tr1 @ tr2) s"
proof (induction rule: fo_run.induct)
  case (snoc evs s ev s')
  have "fo_run streamid s0 ((tr1 @ evs) @ [ev]) s'" by (rule fo_run.snoc [OF snoc.IH [OF snoc.prems] snoc.hyps(2)])
  then show ?case by simp
qed simp

lemma fo_run_Cons:
  "fo_step streamid s0 ev s1 \<Longrightarrow> fo_run streamid s1 tr s \<Longrightarrow> fo_run streamid s0 (ev # tr) s"
  using fo_run_trans [of streamid s1 tr s s0 "[ev]"] fo_run.snoc [OF fo_run.start] by fastforce

lemma fo_run_snocD:
  "fo_run streamid s0 (tr @ [ev]) s \<Longrightarrow> \<exists>s1. fo_run streamid s0 tr s1 \<and> fo_step streamid s1 ev s"
  by (auto elim: fo_run.cases)

lemma fo_run_ConsD:
  "fo_run streamid s0 (ev # tr) s \<Longrightarrow> \<exists>s1. fo_step streamid s0 ev s1 \<and> fo_run streamid s1 tr s"
proof (induction tr arbitrary: s rule: rev_induct)
  case Nil
  then show ?case using fo_run_snocD [of streamid s0 "[]" ev s] by (auto elim: fo_run.cases intro: fo_run.start)
next
  case (snoc ev' tr)
  then obtain s' where "fo_run streamid s0 (ev # tr) s'" "fo_step streamid s' ev' s"
    using fo_run_snocD [of streamid s0 "ev # tr" ev' s] by auto
  with snoc.IH show ?case by (meson fo_run.snoc)
qed

text \<open>The packet of a probe decrypts to the message in the buffer.\<close>

lemma fo_probe_packet:
  assumes "sc_magic (g_scontext (f_gsmd s)) = HELIX_MAGIC"
  shows "f_packet (fo_probe streamid seq s) = gsm_packet (g_scontext (f_gsmd s)) (gsm_nonce streamid ''G !'' seq) (f_cmsg s)
    \<and> f_cmsg (fo_probe streamid seq s) = take (length (f_cmsg s)) (drop HELIX_NONCE_LEN (f_packet (fo_probe streamid seq s)))"
proof -
  let ?sc = "g_scontext (f_gsmd s)" and ?n = "gsm_nonce streamid ''G !'' seq"
  obtain c m dc where enc: "helix_encrypt ?sc (helix_nonce ?sc ?n) (f_cmsg s) = Some (c, m, dc)"
    using assms by (cases "helix_encrypt ?sc (helix_nonce ?sc ?n) (f_cmsg s)") (auto simp: helix_encrypt_def split: prod.splits)
  moreover have "length c = length (f_cmsg s)" using helix_decrypt_encrypt [OF enc] by simp
  ultimately show ?thesis by (simp add: fo_probe_def gsm_packet_def HELIX_NONCE_LEN_def)
qed

subsection \<open>Sample values\<close>

definition sample_gsmd :: "helix_scontext_t gsmd_t" where
  "sample_gsmd = \<lparr>g_name = ''g'', g_n = 2, g_active = 0, g_fo_timeout = 5, g_fb_timeout = 7,
     g_scontext = \<lparr>sc_magic = HELIX_MAGIC, sc_l = 16, sc_k = replicate 8 7, sc_x0 = replicate 8 7\<rparr>\<rparr>"

lemma sample_fo_runs:
  "\<exists>s0 s1 s2 s3. failover_start sample_gsmd [] = Some s0 \<and> fo_step (1, 2) s0 (Signal 4 0) s1 \<and> fo_step (1, 2) s1 (Expire 5 6) s2
     \<and> fo_step (1, 2) s2 (Expire 13 13) s3 \<and> g_active (f_gsmd s1) = 0 \<and> g_active (f_gsmd s2) = 1 \<and> g_active (f_gsmd s3) = 0
     \<and> f_pc s1 = FoPoll 4 5 \<and> f_pc s2 = FoPoll 4 13 \<and> f_pc s3 = FoSleep"
proof -
  define s0 where "s0 = \<lparr>f_gsmd = sample_gsmd, f_cmsg = gsm_pad ''G !'', f_packet = [], f_buf = [], f_pc = FoSleep\<rparr>"
  define s1 where "s1 = (fo_probe (1, 2) 4 s0)\<lparr>f_pc := FoPoll 4 (0 + g_fo_timeout (f_gsmd s0))\<rparr>"
  define s2 where "s2 = fo_expire 4 6 s1"
  have s1: "f_gsmd s1 = sample_gsmd" "f_pc s1 = FoPoll 4 5" by (simp_all add: s1_def s0_def sample_gsmd_def)
  have s2: "g_active (f_gsmd s2) = 1" "f_pc s2 = FoPoll 4 13" using s1 by (simp_all add: s2_def fo_expire_def Let_def sample_gsmd_def)
  have "failover_start sample_gsmd [] = Some s0" by (simp add: failover_start_def s0_def sample_gsmd_def)
  moreover have "fo_step (1, 2) s0 (Signal 4 0) s1" unfolding s1_def by (rule fo_step.signal) (simp add: s0_def)
  moreover have "fo_step (1, 2) s1 (Expire 5 6) s2" unfolding s2_def by (rule fo_step.expire [OF s1(2)]) simp
  moreover have "fo_step (1, 2) s2 (Expire 13 13) (fo_expire 4 13 s2)" by (rule fo_step.expire [OF s2(2)]) simp
  moreover have "g_active (f_gsmd (fo_expire 4 13 s2)) = 0" "f_pc (fo_expire 4 13 s2) = FoSleep"
    using s2 by (simp_all add: fo_expire_def Let_def)
  moreover have "g_active (f_gsmd s1) = 0" using s1(1) by (simp add: sample_gsmd_def)
  ultimately show ?thesis using s1(2) s2 by blast
qed

section \<open>Properties\<close>







text \<open>
  The second probe is garbled. The message is set up once and encrypted in place, so that the probe
  of the second signal holds the encryption of the first probe's ciphertext in place of \<open>G !\<close>: the
  primary, which decrypts with the shared key, gets that ciphertext as the message.
\<close>

theorem failover_second_probe_garbled:
  assumes "failover_start g buf = Some s0" and "sc_magic (g_scontext g) = HELIX_MAGIC"
    and "fo_run streamid s0 (Signal seq1 hr1 # tr @ [Signal seq2 hr2]) s" and "\<forall>ev \<in> set tr. \<forall>sq hr. ev \<noteq> Signal sq hr"
  shows "\<exists>mac. gsm_decrypt (g_scontext g) (f_packet s) (length (f_packet s)) = Some (gsm_nonce streamid ''G !'' seq2
    @ take 4 (drop HELIX_NONCE_LEN (gsm_packet (g_scontext g) (gsm_nonce streamid ''G !'' seq1) (gsm_pad ''G !''))) @ mac)"
proof -
  have s0: "f_cmsg s0 = gsm_pad ''G !''" "f_gsmd s0 = g" using assms(1) by (auto simp: failover_start_def split: if_splits)
  have pad: "length (gsm_pad ''G !'') = 4" by (simp add: gsm_pad_def ROUND4_def)
  obtain s1 s2 where s1: "fo_step streamid s0 (Signal seq1 hr1) s1" "fo_run streamid s1 tr s2" "fo_step streamid s2 (Signal seq2 hr2) s"
    using fo_run_ConsD [OF assms(3)] fo_run_snocD by meson
  have c1: "f_cmsg s1 = take 4 (drop HELIX_NONCE_LEN (gsm_packet (g_scontext g) (gsm_nonce streamid ''G !'' seq1) (gsm_pad ''G !'')))"
    "f_gsmd s1 = g"
    using s1(1) fo_probe_packet [of s0 streamid seq1] s0 assms(2) pad by (auto elim!: fo_signalE)
  have "f_cmsg s2 = f_cmsg s1" using fo_run_packet [OF s1(2) assms(4)] by simp
  moreover have "g_scontext (f_gsmd s2) = g_scontext g" using fo_run_config [OF s1(2)] c1(2) by simp
  ultimately have "f_packet s = gsm_packet (g_scontext g) (gsm_nonce streamid ''G !'' seq2) (f_cmsg s1)"
    using s1(3) fo_probe_packet [of s2 streamid seq2] assms(2) by (auto elim!: fo_signalE)
  with gsm_decrypt_packet [OF assms(2), of "gsm_nonce streamid ''G !'' seq2" "f_cmsg s1" "[]"] c1(1) show ?thesis by auto
qed

theorem failover_second_probe_garbled_witness:
  "\<exists>s0 s mac. failover_start sample_gsmd [] = Some s0
     \<and> fo_run (1, 2) s0 (Signal 4 0 # [Pass 1 FoErr 1] @ [Signal 6 2]) s
     \<and> gsm_decrypt (g_scontext sample_gsmd) (f_packet s) (length (f_packet s)) = Some (gsm_nonce (1, 2) ''G !'' 6
         @ take 4 (drop HELIX_NONCE_LEN (gsm_packet (g_scontext sample_gsmd) (gsm_nonce (1, 2) ''G !'' 4) (gsm_pad ''G !''))) @ mac)"
proof -
  obtain s0 s1 where s1: "failover_start sample_gsmd [] = Some s0" "fo_step (1, 2) s0 (Signal 4 0) s1" "f_pc s1 = FoPoll 4 5"
    using sample_fo_runs by blast
  have "fo_step (1, 2) s1 (Pass 1 FoErr 1) (s1\<lparr>f_pc := FoSleep\<rparr>)"
    using fo_step.pass [OF s1(3), of 1 "(1, 2)" FoErr 1] by (simp add: fo_pass_def)
  moreover obtain s where "fo_step (1, 2) (s1\<lparr>f_pc := FoSleep\<rparr>) (Signal 6 2) s"
    using fo_step.signal [of "s1\<lparr>f_pc := FoSleep\<rparr>"] by force
  ultimately have run: "fo_run (1, 2) s0 (Signal 4 0 # [Pass 1 FoErr 1] @ [Signal 6 2]) s"
    using s1(2) by (simp add: fo_run_Cons [OF _ fo_run_Cons [OF _ fo_run_Cons [OF _ fo_run.start]]])
  have magic: "sc_magic (g_scontext sample_gsmd) = HELIX_MAGIC" by (simp add: sample_gsmd_def)
  from failover_second_probe_garbled [OF s1(1) magic run] s1(1) run show ?thesis by auto
qed

text \<open>
  A short packet ends the process. A datagram of less than 32 octets, which needs no key, makes the thread
  decrypt past the end of its buffer.
\<close>

theorem failover_short_packet_faults:
  assumes "f_pc s = FoPoll seq timeout" and "hr < timeout" and "length pkt < 32"
  shows "fo_step streamid s (Pass hr (FoRecv pkt) hr') (s\<lparr>f_pc := FoDead\<rparr>)"
proof -
  have "fo_check sc seq pp (min GSM_ULTRA_MSG_LEN (length pkt)) = FoFault" for sc pp
    using assms(3) by (simp add: fo_check_def HELIX_NONCE_LEN_def HELIX_MAC_LEN_def min_less_iff_disj)
  then have "fo_pass seq timeout (FoRecv pkt) hr' s = s\<lparr>f_pc := FoDead\<rparr>"
    by (simp add: fo_pass_def fo_recv_def Let_def)
  with fo_step.pass [OF assms(1,2), of streamid "FoRecv pkt" hr'] show ?thesis by simp
qed

theorem failover_short_packet_faults_witness:
  "\<exists>s. f_pc s = FoPoll 4 5 \<and> fo_step (1, 2) s (Pass 1 (FoRecv []) 2) (s\<lparr>f_pc := FoDead\<rparr>)"
  using sample_fo_runs failover_short_packet_faults [of _ 4 5 1 "[]" "(1, 2)" 2] by auto

end
