(* ===== verification/Otpd_Resynctool.thy ===== *)
theory Otpd_Resynctool
  imports Otpd_Card_Hotp Otpd_State_File
begin

text \<open>
  The resynchronisation tool, \<^verbatim>\<open>src/resynctool.c\<close>: from two consecutive passcodes of a HOTP card it finds the
  event counter and prints the line for the user's state file. The debugging output is left out.
\<close>

section \<open>Definitions\<close>

text \<open>The tool has its own copy of the conversion.\<close>

definition rt_a2x :: "string \<Rightarrow> byte list option" where
  "rt_a2x s = a2nx s (length s div 2)"

definition keystring2keyblock :: "string \<Rightarrow> byte list option" where
  "keystring2keyblock keystring =
     (let l = length keystring in if 64 < l - l mod 2 then None else rt_a2x keystring)"

text \<open>\<open>sprintf ("%02x")\<close> of the eight octets.\<close>

definition rt_x2a :: "byte list \<Rightarrow> string" where
  "rt_x2a challenge =
     concat (map (\<lambda>b. let s = radix_string 16 (unat b) in replicate (2 - length s) (CHR ''0'') @ s) (take 8 challenge))"

text \<open>
  \<open>hotp\<close>: \<open>md\<close> is what the array of that name holds before, and keeps where \<open>HMAC\<close> fails, whose result is
  not looked at.
\<close>

definition rt_hotp :: "crypto \<Rightarrow> byte list \<Rightarrow> byte list \<Rightarrow> byte list \<Rightarrow> string" where
  "rt_hotp cr md challenge keyblock =
     (let md = (case hmac_sha1 cr keyblock (take 8 challenge) of None \<Rightarrow> md | Some hmac \<Rightarrow> hmac)
      in fmt_lu 6 (unat (hotp_dbc md) mod 1000000))"

definition rt_c2c :: "u64 \<Rightarrow> byte list" where
  "rt_c2c counter = [ucast (drop_bit 56 counter), ucast (drop_bit 48 counter), ucast (drop_bit 40 counter), ucast (drop_bit 32 counter),
     ucast (drop_bit 24 counter), ucast (drop_bit 16 counter), ucast (drop_bit 8 counter), ucast counter]"

text \<open>
  The search. The counter is a \<open>uint64_t\<close> and the loop may wrap around, so the function is partial; the result
  is the challenge of the second passcode, or \<open>None\<close> for "counter value not found". After a match of the first passcode alone
  the counter has moved by two.
\<close>

partial_function (option) rt_search :: "(u64 \<Rightarrow> string) \<Rightarrow> string \<Rightarrow> string \<Rightarrow> u64 \<Rightarrow> u64 \<Rightarrow> byte list option option" where
  "rt_search hotp pass1 pass2 final counter =
     (if counter < final
      then if hotp counter = pass1
           then if hotp (counter + 1) = pass2 then Some (Some (rt_c2c (counter + 1)))
                else rt_search hotp pass1 pass2 final (counter + 1 + 1)
           else rt_search hotp pass1 pass2 final (counter + 1)
      else Some None)"

text \<open>The options, in the order in which \<open>getopt\<close> gives them.\<close>

record rt_t =
  o_username :: string
  o_keystring :: string
  o_pass1 :: "string option"
  o_pass2 :: "string option"
  o_initial :: u64
  o_final :: u64

definition rt_init :: rt_t where
  "rt_init = \<lparr>o_username = ''username'', o_keystring = replicate 40 (CHR ''0''), o_pass1 = None, o_pass2 = None,
     o_initial = 0, o_final = 0\<rparr>"

fun rt_options :: "(char \<times> string) list \<Rightarrow> rt_t \<Rightarrow> rt_t option" where
  "rt_options [] o' = Some o'"
| "rt_options ((c, optarg) # opts) o' =
     (if c = CHR ''d'' then rt_options opts o'
      else if c = CHR ''1'' then rt_options opts (o'\<lparr>o_pass1 := Some optarg\<rparr>)
      else if c = CHR ''2'' then rt_options opts (o'\<lparr>o_pass2 := Some optarg\<rparr>)
      else if c = CHR ''u'' then rt_options opts (o'\<lparr>o_username := optarg\<rparr>)
      else if c = CHR ''k'' then rt_options opts (o'\<lparr>o_keystring := optarg\<rparr>)
      else if c = CHR ''c'' then rt_options opts (o'\<lparr>o_initial := strtoull 16 optarg\<rparr>)
      else if c = CHR ''i'' then rt_options opts (o'\<lparr>o_initial := strtoull 10 optarg\<rparr>)
      else if c = CHR ''f''
      then rt_options opts (o'\<lparr>o_final := if take 1 optarg = ''+'' then o_initial o' + strtoull 10 (drop 1 optarg) else strtoull 10 optarg\<rparr>)
      else None)"

text \<open>\<open>main\<close>: the line on standard output, or \<open>None\<close> for exit status 1.\<close>

definition rt_main :: "crypto \<Rightarrow> byte list \<Rightarrow> (char \<times> string) list \<Rightarrow> string option option" where
  "rt_main cr md opts = (case rt_options opts rt_init of
     None \<Rightarrow> Some None
   | Some o' \<Rightarrow>
       (case (o_pass1 o', o_pass2 o') of
          (Some pass1, Some pass2) \<Rightarrow>
            if length pass1 \<noteq> 6 then Some None
            else if length pass2 \<noteq> 6 then Some None
            else
              let final = (if o_final o' = 0 then o_initial o' + 65536 else o_final o') in
              (case keystring2keyblock (o_keystring o') of
                 None \<Rightarrow> Some None
               | Some keyblock \<Rightarrow>
                   map_option (map_option (\<lambda>challenge. ''5:'' @ o_username o' @ '':'' @ rt_x2a challenge @ '':::0:0:0:'' @ [CHR 0x0A]))
                     (rt_search (\<lambda>counter. rt_hotp cr md (rt_c2c counter) keyblock) pass1 pass2 final (o_initial o')))
        | _ \<Rightarrow> Some None))"

section \<open>Lemmas\<close>

lemma rt_c2c_eq [simp]: "rt_c2c counter = be64_bytes counter"
  by (simp add: rt_c2c_def be64_bytes_def)

text \<open>The tool computes the codes of the daemon.\<close>

lemma rt_hotp_mac:
  assumes "hmac_sha1 cr keyblock (take 8 challenge) = Some hmac" and "length hmac = 20"
  shows "hotp_mac cr challenge keyblock (length keyblock) 6 = COk (rt_hotp cr md challenge keyblock)"
  using assms by (simp add: hotp_mac_def rt_hotp_def hotp_fmt_def hotp_dmod_def)

text \<open>What a result of the search means.\<close>

lemma rt_search_sound:
  "rt_search hotp pass1 pass2 final counter = Some r \<Longrightarrow>
   \<forall>challenge. r = Some challenge \<longrightarrow> (\<exists>c. c < final \<and> hotp c = pass1 \<and> hotp (c + 1) = pass2 \<and> challenge = be64_bytes (c + 1))"
proof (rule rt_search.raw_induct [where P = "\<lambda>hotp pass1 pass2 final counter r.
    \<forall>challenge. r = Some challenge \<longrightarrow> (\<exists>c. c < final \<and> hotp c = pass1 \<and> hotp (c + 1) = pass2 \<and> challenge = be64_bytes (c + 1))"])
  fix rt hotp pass1 pass2 final counter r
  assume IH: "\<And>hotp pass1 pass2 final counter r. rt hotp pass1 pass2 final counter = Some r \<Longrightarrow>
      \<forall>challenge. r = Some challenge \<longrightarrow> (\<exists>c. c < final \<and> hotp c = pass1 \<and> hotp (c + 1) = pass2 \<and> challenge = be64_bytes (c + 1))"
    and body: "(if counter < final
      then if hotp counter = pass1
           then if hotp (counter + 1) = pass2 then Some (Some (rt_c2c (counter + 1)))
                else rt hotp pass1 pass2 final (counter + 1 + 1)
           else rt hotp pass1 pass2 final (counter + 1)
      else Some None) = Some r"
  then show "\<forall>challenge. r = Some challenge \<longrightarrow> (\<exists>c. c < final \<and> hotp c = pass1 \<and> hotp (c + 1) = pass2 \<and> challenge = be64_bytes (c + 1))"
    by (auto split: if_splits)
qed

lemma unat_u64_lt: "unat (c :: u64) < 2 ^ 64"
  using unsigned_less [of c] by simp

lemma less_suc_u64: "counter < (final :: u64) \<Longrightarrow> unat (counter + 1) = unat counter + 1"
  using unat_u64_lt [of final] by (simp add: word_less_nat_alt unat_word_ariths)

lemma rt_search_returns:
  assumes "final \<noteq> - 1"
  shows "\<exists>r. rt_search hotp pass1 pass2 final counter = Some r"
proof (induction "unat final - unat counter" arbitrary: counter rule: less_induct)
  case less
  show ?case
  proof (cases "counter < final")
    case True
    have n1: "unat (counter + 1) = unat counter + 1" using less_suc_u64 [OF True] .
    have lt: "unat counter < unat final" using True by (simp add: word_less_nat_alt)
    have "unat final \<noteq> 2 ^ 64 - 1" using assms by (simp add: word_unat_eq_iff unsigned_minus_1_eq_mask mask_eq_exp_minus_1)
    then have "unat final + 1 < 2 ^ 64" using unat_u64_lt [of final] by simp
    then have n2: "unat (counter + 1 + 1) = unat counter + 2"
      using lt by (simp only: unat_word_ariths n1) simp
    have "\<exists>r. rt_search hotp pass1 pass2 final (counter + 1) = Some r" "\<exists>r. rt_search hotp pass1 pass2 final (counter + 1 + 1) = Some r"
      using less n1 n2 lt by auto
    then show ?thesis by (subst rt_search.simps) auto
  qed (simp add: rt_search.simps)
qed

lemma rt_search_first:
  assumes "hotp c = pass1" and "hotp (c + 1) = pass2" and "c < final"
  shows "counter \<le> c \<Longrightarrow> \<forall>j. counter \<le> j \<and> j < c \<longrightarrow> hotp j \<noteq> pass1 \<Longrightarrow>
    rt_search hotp pass1 pass2 final counter = Some (Some (be64_bytes (c + 1)))"
proof (induction "unat c - unat counter" arbitrary: counter rule: less_induct)
  case less
  show ?case
  proof (cases "counter = c")
    case True
    with assms show ?thesis by (simp add: rt_search.simps)
  next
    case False
    then have lt: "counter < c" "counter < final" using less.prems(1) assms(3) by auto
    have n1: "unat (counter + 1) = unat counter + 1" using less_suc_u64 [OF lt(1)] .
    have "rt_search hotp pass1 pass2 final (counter + 1) = Some (Some (be64_bytes (c + 1)))"
      using lt(1) less.prems(2) n1 by (intro less.hyps) (auto simp: word_less_nat_alt word_le_nat_alt)
    moreover have "hotp counter \<noteq> pass1" using less.prems(2) lt(1) by simp
    ultimately show ?thesis using lt(2) by (simp add: rt_search.simps [of hotp pass1 pass2 final counter])
  qed
qed

text \<open>The printed line is the state format of the daemon.\<close>

lemma rt_byte_hex:
  "(let s = radix_string 16 (unat (b :: byte)) in replicate (2 - length s) (CHR ''0'') @ s)
     = [digit_char (unat b div 16), digit_char (unat b mod 16)]"
proof (cases "unat b < 16")
  case False
  have "unat b div 16 < 16" using unat_byte_lt [of b] by simp
  with False show ?thesis by (simp add: radix_string.simps [of 16 "unat b"] radix_string.simps [of 16 "unat b div 16"])
qed (simp add: radix_string.simps digit_char_def)

lemma rt_x2a_eq: "length challenge = 8 \<Longrightarrow> rt_x2a challenge = x2a challenge 8 x2a_hex_conversion"
proof -
  have "rt_x2a bs = x2a bs n x2a_hex_conversion" if "length bs = n" "n \<le> 8" for bs n
    using that
  proof (induction bs arbitrary: n)
    case (Cons b bs)
    then have "rt_x2a bs = x2a bs (length bs) x2a_hex_conversion" by simp
    moreover have "rt_x2a (b # bs) = [digit_char (unat b div 16), digit_char (unat b mod 16)] @ rt_x2a bs"
      using Cons.prems unfolding rt_x2a_def by (simp only: rt_byte_hex) simp
    ultimately show ?case using Cons.prems by (auto simp: digit_char_def x2a_hex_conversion_def)
  qed (simp add: rt_x2a_def)
  then show "length challenge = 8 \<Longrightarrow> ?thesis" by simp
qed

lemma rt_line_unparse:
  assumes "length challenge = 8"
  shows "''5:'' @ u_username user @ '':'' @ rt_x2a challenge @ '':::0:0:0:''
    = state_unparse user (state_zero\<lparr>s_clen := 8, s_challenge := challenge @ replicate 8 0\<rparr>)"
proof -
  have "fmt_x32 0 = ''0''" by (simp add: fmt_x32_def radix_string.simps digit_char_def)
  moreover have "x2a (challenge @ replicate 8 0) 8 x2a_hex_conversion = x2a challenge 8 x2a_hex_conversion"
    using assms by (simp add: x2a_def)
  ultimately show ?thesis using rt_x2a_eq [OF assms] by (simp add: state_unparse_def state_zero_def)
qed

lemma rt_main_line:
  assumes "rt_main cr md opts = Some (Some line)"
  obtains o' pass1 pass2 keyblock c where "rt_options opts rt_init = Some o'" "o_pass1 o' = Some pass1" "o_pass2 o' = Some pass2"
    "keystring2keyblock (o_keystring o') = Some keyblock" "rt_hotp cr md (be64_bytes c) keyblock = pass1"
    "rt_hotp cr md (be64_bytes (c + 1)) keyblock = pass2"
    "line = ''5:'' @ o_username o' @ '':'' @ rt_x2a (be64_bytes (c + 1)) @ '':::0:0:0:'' @ [CHR 0x0A]"
proof -
  obtain o' pass1 pass2 keyblock challenge where "rt_options opts rt_init = Some o'" "o_pass1 o' = Some pass1" "o_pass2 o' = Some pass2"
    "keystring2keyblock (o_keystring o') = Some keyblock"
    "rt_search (\<lambda>counter. rt_hotp cr md (be64_bytes counter) keyblock) pass1 pass2
       (if o_final o' = 0 then o_initial o' + 65536 else o_final o') (o_initial o') = Some (Some challenge)"
    "line = ''5:'' @ o_username o' @ '':'' @ rt_x2a challenge @ '':::0:0:0:'' @ [CHR 0x0A]"
    using assms by (auto simp: rt_main_def Let_def split: option.splits if_splits)
  with rt_search_sound [of "\<lambda>counter. rt_hotp cr md (be64_bytes counter) keyblock" pass1 pass2] that show thesis by blast
qed

lemma rt_hotp_code [code]:
  "rt_hotp cr md challenge keyblock =
     (let md = (case hmac_sha1 cr keyblock (take 8 challenge) of None \<Rightarrow> md | Some hmac \<Rightarrow> hmac) in dec_string 6 (uint (hotp_dbc md)))"
proof -
  have "fmt_lu 6 (unat w mod 1000000) = dec_string 6 (uint w)" for w :: u32
    using fmt_lu_dec_string [of 6 "unat w"] by simp
  then show ?thesis by (simp add: rt_hotp_def Let_def)
qed

subsection \<open>Sample values\<close>

definition sample_opts :: "(char \<times> string) list" where
  "sample_opts = [(CHR ''u'', ''joe''), (CHR ''1'', ''000000''), (CHR ''2'', ''000008''), (CHR ''i'', ''7'')]"

definition sample_hotp :: "u64 \<Rightarrow> string" where
  "sample_hotp counter = rt_hotp sample_crypto [] (rt_c2c counter) (replicate 20 0)"

lemma sample_hotp_values: "sample_hotp 7 = ''000000''" "sample_hotp 8 = ''000008''"
  by code_simp+

lemma sample_search: "rt_search sample_hotp ''000000'' ''000008'' 65543 7 = Some (Some (be64_bytes 8))"
proof -
  have "\<forall>j. 7 \<le> j \<and> j < 7 \<longrightarrow> sample_hotp j \<noteq> ''000000''" by (auto dest: leD)
  with rt_search_first [of sample_hotp 7 "''000000''" "''000008''" 65543 7] sample_hotp_values show ?thesis by simp
qed

lemma sample_options:
  "rt_options sample_opts rt_init = Some \<lparr>o_username = ''joe'', o_keystring = replicate 40 (CHR ''0''), o_pass1 = Some ''000000'',
      o_pass2 = Some ''000008'', o_initial = 7, o_final = 0\<rparr>"
  by (simp add: sample_opts_def rt_init_def strtoull_def is_space_def is_dec_def digits_val_def nibble_def)

lemma sample_rt: "rt_main sample_crypto [] sample_opts = Some (Some (''5:joe:'' @ rt_x2a (be64_bytes 8) @ '':::0:0:0:'' @ [CHR 0x0A]))"
proof -
  have "keystring2keyblock (replicate 40 (CHR ''0'')) = Some (replicate 20 0)" by code_simp
  moreover have "rt_search (\<lambda>counter. rt_hotp sample_crypto [] (rt_c2c counter) (replicate 20 0)) ''000000'' ''000008'' 65543 7 = Some (Some (be64_bytes 8))"
    using sample_search by (simp add: sample_hotp_def [abs_def])
  ultimately show ?thesis by (simp add: rt_main_def sample_options)
qed

section \<open>Properties\<close>

text \<open>
  C30: the printed line puts the daemon behind the second passcode. When the tool prints a line for a user, the daemon
  parses the line as state of this user, with no failures, whose challenge is the counter of the second
  passcode; the two passcodes are the codes of this counter and the one before, for the given key.
\<close>

theorem resync_line_parses:
  assumes "rt_main cr md opts = Some (Some line)" and "rt_options opts rt_init = Some o'" and "no_nul (o_username o')"
  shows "\<exists>c keyblock st. state_parse (butlast line @ [NUL]) (o_username o') state_zero = COk st
    \<and> \<not> s_nullstate st \<and> s_failcount st = 0 \<and> s_clen st = 8 \<and> take 8 (s_challenge st) = be64_bytes (c + 1)
    \<and> keystring2keyblock (o_keystring o') = Some keyblock
    \<and> o_pass1 o' = Some (rt_hotp cr md (be64_bytes c) keyblock) \<and> o_pass2 o' = Some (rt_hotp cr md (be64_bytes (c + 1)) keyblock)"
proof -
  obtain pass1 pass2 keyblock c where r: "o_pass1 o' = Some pass1" "o_pass2 o' = Some pass2"
    "keystring2keyblock (o_keystring o') = Some keyblock" "rt_hotp cr md (be64_bytes c) keyblock = pass1"
    "rt_hotp cr md (be64_bytes (c + 1)) keyblock = pass2"
    "line = ''5:'' @ o_username o' @ '':'' @ rt_x2a (be64_bytes (c + 1)) @ '':::0:0:0:'' @ [CHR 0x0A]"
    using rt_main_line [OF assms(1)] assms(2) by (metis option.inject)
  let ?user = "sample_user\<lparr>u_username := o_username o'\<rparr>"
  let ?st = "state_zero\<lparr>s_clen := 8, s_challenge := be64_bytes (c + 1) @ replicate 8 0\<rparr>"
  have "butlast line = state_unparse ?user ?st"
    using rt_line_unparse [of "be64_bytes (c + 1)" ?user] r(6) by (simp add: butlast_append)
  moreover have "state_wf ?st" by (simp add: state_wf_def state_zero_def max_defs)
  ultimately have "state_parse (butlast line @ [NUL]) (o_username o') state_zero = COk (state_zero\<lparr>s_nullstate := False, s_clen := 8,
      s_challenge := memcpy (replicate 16 0) (be64_bytes (c + 1)) 8\<rparr>)"
    using state_parse_unparse_eq [of ?st ?user state_zero] assms(3) by (simp add: state_zero_def)
  moreover have "take 8 (memcpy (replicate 16 0) (be64_bytes (c + 1)) 8) = be64_bytes (c + 1)" by (simp add: memcpy_def)
  ultimately show ?thesis using r by (intro exI [of _ c] exI [of _ keyblock]) (simp add: state_zero_def)
qed

theorem resync_line_parses_witness:
  "\<exists>line st. rt_main sample_crypto [] sample_opts = Some (Some line) \<and> state_parse (butlast line @ [NUL]) ''joe'' state_zero = COk st \<and> s_clen st = 8"
  using resync_line_parses [OF sample_rt sample_options] sample_rt by auto

text \<open>
  The search finds the first use of the passcodes. If the two passcodes are codes of consecutive counters in the range and
  no earlier counter of the range has the first one, the result is the second of these counters.
\<close>

theorem resync_finds_first:
  assumes "hotp c = pass1" and "hotp (c + 1) = pass2" and "initial \<le> c" and "c < final"
    and "\<forall>j. initial \<le> j \<and> j < c \<longrightarrow> hotp j \<noteq> pass1"
  shows "rt_search hotp pass1 pass2 final initial = Some (Some (be64_bytes (c + 1)))"
  using assms by (intro rt_search_first)

theorem resync_finds_first_witness:
  "rt_search sample_hotp ''000000'' ''000008'' 65543 7 = Some (Some (be64_bytes 8))"
proof -
  have "\<forall>j. 7 \<le> j \<and> j < 7 \<longrightarrow> sample_hotp j \<noteq> ''000000''" by (auto dest: leD)
  with resync_finds_first [of sample_hotp 7 "''000000''" "''000008''" 7 65543] sample_hotp_values show ?thesis by simp
qed

text \<open>
  C31: the search ends. Unless the final counter is the largest one, the tool finds a counter or reports that there is none,
  whatever the passcodes are.
\<close>

theorem resync_ends:
  assumes "final \<noteq> - 1"
  shows "\<exists>r. rt_search hotp pass1 pass2 final initial = Some r
    \<and> (\<forall>challenge. r = Some challenge \<longrightarrow> (\<exists>c. c < final \<and> hotp c = pass1 \<and> hotp (c + 1) = pass2 \<and> challenge = be64_bytes (c + 1)))"
  using rt_search_returns [OF assms] rt_search_sound by metis

theorem resync_ends_witness: "\<forall>hotp. \<exists>r. rt_search hotp ''000000'' ''000008'' 65543 7 = Some r"
proof
  fix hotp
  show "\<exists>r. rt_search hotp ''000000'' ''000008'' 65543 7 = Some r"
    using resync_ends [of 65543 hotp "''000000''" "''000008''" 7] by auto
qed

text \<open>
  A pair may be overlooked. Where the first passcode is the code of two counters in a row and the second one follows, the
  search skips the second of them and with it the pair.
\<close>

theorem resync_overlooks_pair:
  assumes "hotp a = pass1" and "hotp (a + 1) = pass1" and "hotp (a + 1 + 1) = pass2" and "pass1 \<noteq> pass2" and "a < a + 1 + 1"
  shows "rt_search hotp pass1 pass2 (a + 1 + 1) a = Some None"
  using assms by (simp add: rt_search.simps [of hotp pass1 pass2 _ a] rt_search.simps [of hotp pass1 pass2 _ "2 + a"])

theorem resync_overlooks_pair_witness:
  "rt_search (\<lambda>c. if c = 2 then ''000002'' else ''000001'') ''000001'' ''000002'' 2 0 = Some None"
  using resync_overlooks_pair [of "\<lambda>c. if c = 2 then ''000002'' else ''000001''" 0 "''000001''" "''000002''"] by simp

end
