(* ===== verification/Otpd_Bitmanip.thy ===== *)
theory Otpd_Bitmanip
  imports Otpd_Helix
begin

text \<open>
  The byte-order macros of \<^verbatim>\<open>src/bitmanip.h\<close> on a big-endian host, and the portable version of \<open>rol\<close>. A word in memory is its image,
  a list of four octets with the most significant first; the macros move octets between images and arrays. \<open>Otpd_Helix\<close> uses the
  macros of a little-endian host; both give the same results.
\<close>

section \<open>Definitions\<close>

text \<open>The image of a word, and the word of an image.\<close>

definition be_image :: "u32 \<Rightarrow> byte list" where
  "be_image w = [ucast (drop_bit 24 w), ucast (drop_bit 16 w), ucast (drop_bit 8 w), ucast w]"

definition be_word :: "byte list \<Rightarrow> u32" where
  "be_word img = push_bit 24 (ucast (img ! 0)) OR push_bit 16 (ucast (img ! 1)) OR push_bit 8 (ucast (img ! 2)) OR ucast (img ! 3)"

text \<open>\<open>LEUCHAR2HEUINT32\<close>; \<open>w\<close> is the image of the variable before.\<close>

definition be_load :: "byte list \<Rightarrow> byte list \<Rightarrow> u32" where
  "be_load w cp = be_word (w[0 := cp ! 3, 1 := cp ! 2, 2 := cp ! 1, 3 := cp ! 0])"

text \<open>\<open>LEUCHAR2HEUINT32ZE\<close>.\<close>

definition be_load_ze :: "byte list \<Rightarrow> nat \<Rightarrow> u32" where
  "be_load_ze cp n = be_word (foldl (\<lambda>w li. w[3 - li := cp ! li]) (be_image 0) [0..<n])"

text \<open>\<open>HEUINT32TOLEUCHAR\<close> and \<open>HEUINT32P2LEUCHAR\<close>, into the array \<open>cp\<close>.\<close>

definition be_store :: "byte list \<Rightarrow> u32 \<Rightarrow> byte list" where
  "be_store cp w = cp[0 := be_image w ! 3, 1 := be_image w ! 2, 2 := be_image w ! 1, 3 := be_image w ! 0]"

definition be_store_partial :: "byte list \<Rightarrow> u32 \<Rightarrow> nat \<Rightarrow> byte list" where
  "be_store_partial cp w n = foldl (\<lambda>cp li. cp[li := be_image w ! (3 - li)]) cp [0..<n]"

text \<open>\<open>LEUCHARXORHEUINT32\<close> and \<open>LEUCHARXORHEUINT32P\<close>, into the array \<open>wp\<close>.\<close>

definition be_xor :: "byte list \<Rightarrow> byte list \<Rightarrow> u32 \<Rightarrow> byte list" where
  "be_xor wp xp y = wp[0 := xp ! 0 XOR be_image y ! 3, 1 := xp ! 1 XOR be_image y ! 2, 2 := xp ! 2 XOR be_image y ! 1, 3 := xp ! 3 XOR be_image y ! 0]"

definition be_xor_partial :: "byte list \<Rightarrow> byte list \<Rightarrow> u32 \<Rightarrow> nat \<Rightarrow> byte list" where
  "be_xor_partial wp xp y n = foldl (\<lambda>wp li. wp[li := xp ! li XOR be_image y ! (3 - li)]) wp [0..<n]"

text \<open>The macro \<open>rol\<close>, by shifts.\<close>

definition rol_shift :: "u32 \<Rightarrow> nat \<Rightarrow> u32" where
  "rol_shift w x = push_bit x w OR drop_bit (32 - x) w"

section \<open>Lemmas\<close>

lemma be_image_rev: "be_image w = rev (le32_bytes w)"
  by (simp add: be_image_def le32_bytes_def)

lemma be_word_le32: "be_word [d, c, b, a] = le32 a b c d"
  by (simp add: be_word_def le32_def or.commute or.left_commute)

text \<open>A list of at least four octets.\<close>

lemma four_octets:
  assumes "4 \<le> length bs"
  obtains a b c d r where "bs = a # b # c # d # r"
proof -
  obtain a b c d r where "bs = a # b # c # d # r"
    using assms by (cases bs; cases "tl bs"; cases "tl (tl bs)"; cases "tl (tl (tl bs))") auto
  then show ?thesis by (rule that)
qed

lemma length_4: "length bs = 4 \<Longrightarrow> \<exists>a b c d. bs = [a, b, c, d]"
  by (cases bs; cases "tl bs"; cases "tl (tl bs)"; cases "tl (tl (tl bs))") auto

lemma upto_four: "n \<le> 4 \<Longrightarrow> n \<in> {0, 1, 2, 3, 4::nat}"
  by auto

lemma upt_four: "[0..<1] = [0]" "[0..<2] = [0, 1]" "[0..<3] = [0, 1, 2]" "[0..<4] = [0, 1, 2, 3]"
  by (simp_all add: upt_rec)

lemma be_image_0: "be_image 0 = [0, 0, 0, 0]"
  by (simp add: be_image_def)

lemma be_word_load: "be_word [d, c, b, a] = le32ze [a, b, c, d]"
  by (simp add: be_word_le32 le32ze_def)

lemma le32ze_zeros: "le32ze [] = le32ze [0, 0, 0, 0]" "le32ze [a] = le32ze [a, 0, 0, 0]" "le32ze [a, b] = le32ze [a, b, 0, 0]"
  "le32ze [a, b, c] = le32ze [a, b, c, 0]"
  by (simp_all add: le32ze_def le32_def)

lemma rol_shift_rotl:
  assumes "0 < x" and "x < 32"
  shows "rol_shift w x = rol w x"
proof (rule bit_eqI)
  fix n
  assume "possible_bit TYPE(u32) n"
  then have n: "n < 32" by simp
  show "bit (rol_shift w x) n \<longleftrightarrow> bit (rol w x) n"
  proof (cases "x \<le> n")
    case True
    then have m: "(n + 32 - x) mod 32 = n - x" using n by (simp add: mod_if)
    have "\<not> bit w (32 + n - x)" using True bit_imp_le_length [of w "32 + n - x"] by auto
    with True n assms m show ?thesis by (simp add: rol_shift_def rol_def bit_simps word_size)
  next
    case False
    then have "(n + 32 - x) mod 32 = 32 + n - x" using n by simp
    with False n assms show ?thesis by (simp add: rol_shift_def rol_def bit_simps word_size)
  qed
qed

subsection \<open>The macros as an interface\<close>

text \<open>
  What the cipher relies on: octets and words correspond to each other, and the exclusive or of octets with a word is the one of words. Then it undoes itself,
  which is how decryption undoes encryption.
\<close>

locale octet_macros =
  fixes load :: "byte list \<Rightarrow> u32" and store :: "u32 \<Rightarrow> byte list" and xor_word :: "byte list \<Rightarrow> u32 \<Rightarrow> byte list"
  assumes load_store: "load (store w) = w"
    and store_load: "length bs = 4 \<Longrightarrow> store (load bs) = bs"
    and xor_word: "length bs = 4 \<Longrightarrow> xor_word bs w = store (load bs XOR w)"
    and length_store: "length (store w) = 4"
begin

lemma xor_word_cancel: "length bs = 4 \<Longrightarrow> xor_word (xor_word bs w) w = bs"
  by (simp add: xor_word length_store load_store store_load xor.assoc)

lemma xor_word_zero: "length bs = 4 \<Longrightarrow> xor_word bs 0 = bs"
  by (simp add: xor_word store_load)

end

definition le_load :: "byte list \<Rightarrow> u32" where
  "le_load bs = le32 (bs ! 0) (bs ! 1) (bs ! 2) (bs ! 3)"

definition le_xor :: "byte list \<Rightarrow> u32 \<Rightarrow> byte list" where
  "le_xor bs y = le32_xor (bs ! 0) (bs ! 1) (bs ! 2) (bs ! 3) y"

lemma le_load_store: "le_load (le32_bytes w) = w"
  using le32_le32_bytes [of w] by (simp add: le_load_def le32_bytes_def)

lemma le_store_load: "length bs = 4 \<Longrightarrow> le32_bytes (le_load bs) = bs"
  using length_4 [of bs] by (auto simp: le_load_def)

interpretation le: octet_macros le_load le32_bytes le_xor
  by unfold_locales (simp_all add: le_load_store le_store_load le_xor_def le32_xor_def, simp add: le_load_def)

lemma be_load_le: "length w0 = 4 \<Longrightarrow> length bs = 4 \<Longrightarrow> be_load w0 bs = le_load bs"
  using length_4 [of w0] by (auto simp: be_load_def be_word_le32 le_load_def)

lemma be_store_le: "length cp = 4 \<Longrightarrow> be_store cp w = le32_bytes w"
  using length_4 [of cp] by (auto simp: be_store_def be_image_def le32_bytes_def)

lemma be_xor_le: "length wp = 4 \<Longrightarrow> length xp = 4 \<Longrightarrow> be_xor wp xp y = le_xor xp y"
proof -
  assume "length wp = 4" "length xp = 4"
  then obtain a b c d p q r s where l: "wp = [a, b, c, d]" "xp = [p, q, r, s]" using length_4 by metis
  show ?thesis unfolding l by (simp add: be_xor_def be_image_def le_xor_def le32_xor_def le32_bytes_xor) (simp add: le32_bytes_def)
qed

interpretation be: octet_macros "be_load (be_image w0)" "be_store (be_image w1)" "be_xor (be_image w2)" for w0 w1 w2
  by unfold_locales (simp_all add: be_load_le be_store_le be_xor_le be_image_def le_load_store le_store_load le.xor_word)

section \<open>Properties\<close>

text \<open>
  The cipher is the same on both hosts. Each macro of a big-endian host gives what its counterpart on a little-endian host gives, whatever was in the
  variable or the array before, its exclusive or undoes itself, and the rotation by shifts is the one of the processor.
\<close>

theorem bitmanip_big_endian:
  assumes "n \<le> 4" and "4 \<le> length cp" and "length xp = 4" and "length w0 = 4" and "0 < x" and "x < 32"
  shows "be_load w0 xp = le32 (xp ! 0) (xp ! 1) (xp ! 2) (xp ! 3)
    \<and> be_load_ze xp n = le32ze (take n xp)
    \<and> be_store cp w = le32_bytes w @ drop 4 cp
    \<and> be_store_partial cp w n = le32_partial w n @ drop n cp
    \<and> be_xor cp xp w = le32_xor (xp ! 0) (xp ! 1) (xp ! 2) (xp ! 3) w @ drop 4 cp
    \<and> be_xor_partial cp xp w n = le32_xor_partial (take n xp) w @ drop n cp
    \<and> rol_shift w x = rol w x
    \<and> be_xor (be_image v) (be_xor (be_image v) xp w) w = xp"
proof -
  obtain a b c d r where cp: "cp = a # b # c # d # r" using four_octets [OF assms(2)] .
  obtain p q s t where xp: "xp = [p, q, s, t]" using length_4 [OF assms(3)] by blast
  obtain i j k l where w0: "w0 = [i, j, k, l]" using length_4 [OF assms(4)] by blast
  note n = upto_four [OF assms(1)]
  have "be_load w0 xp = le32 (xp ! 0) (xp ! 1) (xp ! 2) (xp ! 3)" by (simp add: be_load_def w0 be_word_le32)
  moreover have "be_load_ze xp n = le32ze (take n xp)"
    using n by (auto simp: be_load_ze_def xp be_image_0 be_word_load le32ze_zeros upt_four)
  moreover have "be_store cp w = le32_bytes w @ drop 4 cp" by (simp add: be_store_def cp be_image_def le32_bytes_def)
  moreover have "be_store_partial cp w n = le32_partial w n @ drop n cp"
    using n by (auto simp: be_store_partial_def cp be_image_def le32_partial_def le32_bytes_def upt_four)
  moreover have "be_xor cp xp w = le32_xor (xp ! 0) (xp ! 1) (xp ! 2) (xp ! 3) w @ drop 4 cp"
    by (simp add: be_xor_def cp xp be_image_def le32_xor_def le32_bytes_xor) (simp add: le32_bytes_def)
  moreover have "be_xor_partial cp xp w n = le32_xor_partial (take n xp) w @ drop n cp"
    using n by (auto simp: be_xor_partial_def cp xp be_image_def le32_xor_partial_def le32_bytes_def upt_four)
  moreover have "rol_shift w x = rol w x"
    using rol_shift_rotl assms(5,6) by blast
  moreover have "be_xor (be_image v) (be_xor (be_image v) xp w) w = xp" by (rule be.xor_word_cancel [OF assms(3)])
  ultimately show ?thesis by blast
qed

theorem bitmanip_big_endian_witness:
  "be_load_ze [1, 2, 3, 4] 2 = 0x0201 \<and> be_store_partial [9, 9, 9, 9, 9] 0x00000001 2 = [1, 0, 9, 9, 9]"
  using bitmanip_big_endian [of 2 "[9, 9, 9, 9, 9]" "[1, 2, 3, 4]" "[0, 0, 0, 0]" 4 1]
  by (simp add: le32ze_def le32_def le32_partial_def le32_bytes_def)

end
