(* ===== verification/Spec2Isabelle.thy ===== *)
theory Spec2Isabelle
  imports Otpd_Main Otpd_Client Otpd_Failover Otpd_Resynctool Otpd_Bitmanip
begin

text \<open>
  Verification of otpd, a daemon that checks one-time passcodes for plugins such as a RADIUS server.

  \<^bold>\<open>The program.\<close> A plugin connects to a socket and sends requests; each connection has a thread
  (\<^verbatim>\<open>src/work_thread.c\<close>) that reads, validates and verifies one request after the other.
  \<open>verify\<close> (\<^verbatim>\<open>src/otp.c\<close>) asks a user database (\<^verbatim>\<open>src/userops/\<close>) for key, PIN and card
  name, finds the card module of that name (\<^verbatim>\<open>src/cardops/\<close>), obtains the user's state
  with a lock on it (\<^verbatim>\<open>src/state.c\<close>), compares the passcode with the responses the card would give
  and puts the updated state back. State is kept in local files under the lock table of
  \<^verbatim>\<open>src/lock.c\<close>, or with a state manager process elsewhere that is spoken to over UDP with the
  authenticated cipher of \<^verbatim>\<open>src/helix.c\<close>.

  \<^bold>\<open>Theories.\<close> Each has its definitions first, in the order of the code, then lemmas, then properties.
  \<^item> \<open>Otpd_Prelude\<close>: results of C functions (\<open>cres\<close>: a value, an error code, or \<open>CFault\<close> for an access
    outside an array or through a null pointer), C strings and memory copies, the shared lemmas.
  \<^item> \<open>Otpd_Hex\<close>: the hexadecimal conversions of \<^verbatim>\<open>src/xfunc.c\<close>; round trip and the accepted strings.
  \<^item> \<open>Otpd_Helix\<close>: key setup, nonce, encryption, decryption and MAC of \<^verbatim>\<open>src/helix.c\<close> on 32 bit words; decryption
    inverts encryption, and the key schedule is the one of the paper below $2^{32}$ blocks and not above.
  \<^item> \<open>Otpd_Format\<close>: what \<open>sprintf\<close> and \<open>sscanf\<close> do with the formats the program uses.
  \<^item> \<open>Otpd_Types\<close>: the structures of \<^verbatim>\<open>src/otp.h\<close>, \<^verbatim>\<open>src/extern.h\<close> and \<^verbatim>\<open>src/cardops.h\<close> as records.
  \<^item> \<open>Otpd_Mac\<close>: the HOTP and X9.9 computations of \<^verbatim>\<open>src/hotp.c\<close> and \<^verbatim>\<open>src/x99.c\<close>; HOTP is RFC 4226.
  \<^item> \<open>Otpd_Cardops\<close>, \<open>Otpd_Card_Hotp\<close>, \<open>Otpd_Card_Time\<close>, \<open>Otpd_Card_X99\<close>: the card modules of
    \<^verbatim>\<open>src/cardops/\<close>, one definition per entry of the \<open>cardops_t\<close> structure. The contract that \<open>verify\<close> relies on
    is the locale \<open>card_module\<close> (what each operation keeps of user, state and array sizes) and its extension
    \<open>robust_card_module\<close> (no operation leaves its arrays); the five modules are interpretations of the first, the
    three modules built on HOTP of the second.
  \<^item> \<open>Otpd_Uhash\<close>: the hash of names (\<^verbatim>\<open>src/uhash.c\<close>) and the table of state managers (\<^verbatim>\<open>src/gsmd.c\<close>), with the
    locale \<open>name_table\<close>.
  \<^item> \<open>Otpd_Lock\<close>: the lock table of \<^verbatim>\<open>src/lock.c\<close>, doubly linked chains on an explicit store of nodes, with an
    abstraction to the list of locks of a chain and the locale \<open>lock_manager\<close>; mutual exclusion, and the
    two orders of release that follow a null pointer. The walk over a chain has the number of nodes as fuel,
    which the invariant shows to be enough.
  \<^item> \<open>Otpd_State_File\<close>: \<open>state_parse\<close>, \<open>state_unparse\<close>, \<open>state_read\<close>, \<open>state_write\<close> of \<^verbatim>\<open>src/state.c\<close>; round trip,
    complete reads, atomic writes.
  \<^item> \<open>Otpd_Gsm\<close>: \<open>gsmd()\<close>, the exchange with a state manager, and \<open>nonce32\<close>; authenticity of the accepted reply,
    parity of sequence numbers, acceptance of a correct acknowledgement.
  \<^item> \<open>Otpd_State\<close>: \<open>state_get\<close> and \<open>state_put\<close> in both modes, the locale \<open>state_store\<close> and its interpretation; locks and
    sockets are returned on every branch, and what was put is what the next get returns.
  \<^item> \<open>Otpd_Compare\<close>: the comparison of an encoded passcode and \<open>challenge_transform\<close> of \<^verbatim>\<open>src/site.c\<close>.
  \<^item> \<open>Otpd_Userops_File\<close>: the user database in a file, with the locales \<open>user_lookup\<close> (a lookup returns the name it was asked
    for) and \<open>user_database\<close> (giving back what a lookup returned, or nothing, returns).
  \<^item> \<open>Otpd_Userops_Ldap\<close>: the user database in a directory server: the connection pool, the search with its retry, the
    checks on the attributes. It is an interpretation of \<open>user_lookup\<close> only, as \<open>ldap_put\<close> reads through a null pointer.
    Connections are given back and a lookup has at most two attempts, which is the measure of the retry loop.
  \<^item> \<open>Otpd_Failover\<close>: the thread that switches between the two servers of a state manager, as a step relation whose labels are
    what \<open>nonce32\<close>, the clock, \<open>send\<close>, \<open>poll\<close> and \<open>recv\<close> gave; how long the primary was silent before a failover, and answered
    before a failback. The count of the semaphore is left to the environment: \<open>Signal\<close> may come whenever the thread sleeps.
  \<^item> \<open>Otpd_Verify\<close>: \<open>verify\<close>, stage by stage, its three exit labels as the constructors of \<open>vres\<close>.
    \<open>Otpd_Verify_Inv\<close> shows what every stage keeps for any card module of the contract, \<open>Otpd_Verify_Run\<close> that a run has
    one of a few forms and that it returns, \<open>Otpd_Verify_Props\<close> the properties: what is accepted, the hard and soft
    failure modes, the counting of failures, the counter of an accepted HOTP passcode.
  \<^item> \<open>Otpd_Work_Thread\<close>: reading, converting, validating and answering requests; the loop ends because every request
    consumes octets of the stream.
  \<^item> \<open>Otpd_Resynctool\<close>: \<^verbatim>\<open>src/resynctool.c\<close>, its counter search a partial function as it may wrap around; it returns
    unless the last counter is $2^{64}-1$, and the line it prints is read by \<open>state_parse\<close>.
  \<^item> \<open>Otpd_Nonce\<close>: \<^verbatim>\<open>src/nonce.c\<close>: the stream number, \<open>nonce32\<close> with \<^verbatim>\<open>atomic.h\<close> (no cipher nonce twice in $2^{31}$ transactions) and,
    as a step relation over threads, without it (where one is possible).
  \<^item> \<open>Otpd_Client\<close>: the test client \<^verbatim>\<open>src/otpauth.c\<close>; composed with the work thread, it prints the verdict of \<open>verify\<close> on the name and
    passcode it was given. The two programs meet in the layout of the structures, \<open>layout_ok\<close>.
  \<^item> \<open>Otpd_Bitmanip\<close>: the macros of \<^verbatim>\<open>src/bitmanip.h\<close> on a big-endian host, which give what those of \<open>Otpd_Helix\<close> give.
  \<^item> \<open>Otpd_Xfunc\<close>: the log (\<^verbatim>\<open>src/mlog.c\<close>) and the wrappers of \<^verbatim>\<open>src/xfunc.c\<close>, which end the process when a call fails.
  \<^item> \<open>Otpd_Config\<close>: \<^verbatim>\<open>src/config.y\<close>, the actions of the grammar on the configuration, the options of the command line, the checks at the end, the listening socket and the
    table of state managers; what an accepted configuration guarantees to the other components (lengths of names, windows, the key of the password file, the
    initialised directory library), what the table holds, and which options have no effect or an unsafe default.
  \<^item> \<open>Otpd_Parser\<close>: the scanner \<^verbatim>\<open>src/config.l\<close> and the grammar of \<^verbatim>\<open>src/config.y\<close>. The productions are an inductive definition, the reference for a parser with a stack of
    sections; text, tokens and actions correspond to each other.
  \<^item> \<open>Otpd_Main\<close>: options, signals, \<open>daemonize\<close> on the set of open descriptors, the threads started by \<open>main\<close> from a configuration file, and the accept thread; a failover
    thread for every state manager, the descriptors and signals of the daemon, and connections served one after the other without leaks.
  \<^item> This theory: the directory as the user database of \<open>verify\<close>, names in a directory, and \<open>verify\<close> under a configuration made by \<open>config_init\<close>.

  \<^bold>\<open>Parameters.\<close> Code that is not part of the program is an argument: the hashes and DES of OpenSSL
  (\<open>crypto\<close>), the outcomes of system calls (\<open>io_t\<close>, \<open>env_t\<close>, \<open>passwd_env\<close>, \<open>cfg_env\<close>, \<open>daemon_env\<close>, \<open>turn_t\<close>, \<open>fo_ev\<close>),
  of the LDAP library (\<open>conn_env\<close>, \<open>ldap_env\<close>), the clocks
  (\<open>clock_t\<close>) and the layout of the request structures in memory (\<open>abi_t\<close>). The properties hold for all of
  them, or name what they ask of them as hypotheses. Signed and unsigned integers keep
  their width where they are stored or shifted; times and lengths that stay small are \<open>int\<close> or \<open>nat\<close>.
  Statements on the HOTP counter assume it stays below $2^{31}$, above which the code sign extends it.

  \<^bold>\<open>Not modelled.\<close> The messages of the log and their arguments; the tables that lex and yacc generate (the scanner and the parser are written out, and the parser is
  shown to accept the language of the grammar); line numbers of messages; the delivery of signals; the addresses of hosts; the
  interleaving of threads inside an operation on one chain of the lock table, which holds the chain's mutex, and of connections, which are served one after the other;
  the wrappers that exit when the LDAP library cannot open a connection.
\<close>

section \<open>Definitions\<close>

text \<open>
  What RFC 4515 says of search filters: a backslash with two hexadecimal digits stands for an octet.
\<close>

definition hex_pair :: "char \<Rightarrow> char \<Rightarrow> char" where
  "hex_pair h l = char_of (16 * nibble h + nibble l)"

fun unescape :: "string \<Rightarrow> string" where
  "unescape [] = []"
| "unescape (c # cs) = (case cs of
     h # l # r \<Rightarrow> if c = CHR 0x5C \<and> is_hex h \<and> is_hex l then hex_pair h l # unescape r else c # unescape cs
   | _ \<Rightarrow> c # unescape cs)"

definition escape :: "char \<Rightarrow> string" where
  "escape c = [CHR 0x5C, digit_char (of_char c div 16), digit_char (of_char c mod 16)]"

text \<open>A directory that follows the RFC.\<close>

definition rfc4515_ldap :: ldap_env where
  "rfc4515_ldap = sample_ldap\<lparr>le_search := (\<lambda>n f. le_search sample_ldap n (unescape f))\<rparr>"

section \<open>Verification with a directory\<close>

text \<open>
  C36: an unknown user ends the daemon. Where the directory has no entry for the name in the request, or cannot be
  asked, \<open>verify\<close> gives the null pointer it got from \<open>ldap_get\<close> to \<open>ldap_put\<close>, which reads through it.
\<close>

theorem verify_ldap_unknown_faults:
  assumes "fst (ldap_get lenv pool (r_username request) config (k_now clk)) = CErr n"
  shows "verify cr cardops (userops_ldap lenv pool) env clk challenge0 config request reply w = CFault"
  using assms by (simp add: verify_def userops_ldap_def verify_no_user_def ldap_put_def)

theorem verify_ldap_unknown_faults_witness:
  "fst (ldap_get sample_ldap [] ''ann'' sample_config 100) = CErr (- 1)
   \<and> verify sample_crypto [hotp_cardops sample_crypto] (userops_ldap sample_ldap []) sample_env sample_clock
       (replicate 16 0) sample_config (sample_request\<lparr>r_username := ''ann''\<rparr>) sample_reply stored_world = CFault"
proof -
  have "fst (ldap_get sample_ldap [] ''ann'' sample_config 100) = CErr (- 1)" by code_simp
  then show ?thesis
    using verify_ldap_unknown_faults [of sample_ldap "[]" "sample_request\<lparr>r_username := ''ann''\<rparr>" sample_config sample_clock "- 1"]
    by (simp add: sample_clock_def)
qed

section \<open>Names in a directory\<close>

declare unescape.simps(2) [simp del]

lemma unescape_Cons: "c \<noteq> CHR 0x5C \<Longrightarrow> unescape (c # cs) = c # unescape cs"
  by (subst unescape.simps) (simp split: list.split)

lemma unescape_plain: "CHR 0x5C \<notin> set a \<Longrightarrow> unescape (a @ s) = a @ unescape s"
  by (induction a) (auto simp: unescape_Cons)

lemma unescape_escape: "unescape (escape c @ s) = c # unescape s"
proof -
  have "(of_char c :: nat) < 256" by simp
  then have "(of_char c :: nat) div 16 < 16" by (simp add: less_mult_imp_div_less)
  then show ?thesis by (simp add: escape_def unescape.simps(2) digit_char_hex hex_pair_def)
qed

lemma escape_charset: "x \<in> set (escape c) \<Longrightarrow> x \<notin> set ''=<>*~''"
proof -
  have "(of_char c :: nat) < 256" by simp
  then have "(of_char c :: nat) div 16 < 16" by (simp add: less_mult_imp_div_less)
  moreover have "\<forall>n \<in> set [0..<16]. digit_char n \<notin> set ''=<>*~''" by code_simp
  ultimately show "x \<in> set (escape c) \<Longrightarrow> x \<notin> set ''=<>*~''" by (auto simp: escape_def)
qed

lemma case_cbind:
  "(case cbind m f of COk x \<Rightarrow> COk (g x) | CErr n \<Rightarrow> CErr n | CFault \<Rightarrow> CFault)
   = cbind m (\<lambda>x. case f x of COk x \<Rightarrow> COk (g x) | CErr n \<Rightarrow> CErr n | CFault \<Rightarrow> CFault)"
  by (cases m) auto

text \<open>The name that was asked for is in the record and nowhere else.\<close>

lemma ldap_user_name:
  "ldap_user einval h tuser config username now entry = (case ldap_user einval h tuser config name now entry of
     COk user \<Rightarrow> COk (user\<lparr>u_username := username\<rparr>) | CErr n \<Rightarrow> CErr n | CFault \<Rightarrow> CFault)"
  by (cases tuser) (simp add: ldap_user_def case_cbind case_prod_beta' Let_def)

lemma answers_split:
  "(case r of
      COk (None, pool) \<Rightarrow> (CErr e, pool)
    | COk (Some [entry], pool) \<Rightarrow> (case f entry of COk user \<Rightarrow> COk (g user) | CErr n \<Rightarrow> CErr n | CFault \<Rightarrow> CFault, pool)
    | COk (Some [], pool) \<Rightarrow> (CErr e', pool)
    | COk (Some _, pool) \<Rightarrow> (CErr e, pool)
    | _ \<Rightarrow> (CFault, pool0))
   = (case (case r of
        COk (None, pool) \<Rightarrow> (CErr e, pool)
      | COk (Some [entry], pool) \<Rightarrow> (f entry, pool)
      | COk (Some [], pool) \<Rightarrow> (CErr e', pool)
      | COk (Some _, pool) \<Rightarrow> (CErr e, pool)
      | _ \<Rightarrow> (CFault, pool0)) of
      (COk user, pool') \<Rightarrow> (COk (g user), pool') | (r, pool') \<Rightarrow> (r, pool'))"
  by (auto split: cres.split prod.split option.split list.split)



section \<open>Configuration and verification\<close>

text \<open>
  C32: the documented timeout locks everybody out. The option \<open>timeout\<close> takes milliseconds and its product with a million wraps around: the value 11700, which
  \<^verbatim>\<open>src/otpd.conf\<close> gives as the default, and those from 3000 to 4294 make a negative time, with which \<open>verify\<close> gives up before it has read the state of any user.
\<close>

theorem config_timeout_locks_out:
  assumes "config_init cenv o' ds = COk (config, st, chain)" and "Set_auth_timeout n \<in> set ds"
    and "\<And>n. Set_auth_timeout n \<in> set ds \<Longrightarrow> n \<le> 4294 \<or> n = 11700" and "k_hr0 clk \<le> k_hr1 clk"
    and "\<And>user. uo_get uo (r_username request) config (k_now clk) = COk user \<Longrightarrow> u_password user = None"
    and "verify cr cardops uo env clk challenge0 config request reply w = COk (reply', w')"
  shows "c_timeout config < 0 \<and> y_rc reply' \<noteq> OTP_RC_OK"
proof -
  obtain n where n: "3000 \<le> n" "n \<le> 4294 \<or> n = 11700" "c_timeout config = int_mult n 1000000"
    using config_timeout_value [OF assms(1,2)] assms(3) by auto
  have "int_mult 11700 1000000 < 0" by (simp add: int_mult_def int_word_sint)
  then have "c_timeout config < 0" using int_mult_wraps [OF n(1)] n(2,3) by auto
  then show ?thesis using verify_no_time [OF _ assms(4-6)] by simp
qed

theorem config_timeout_locks_out_witness:
  "\<exists>config st chain reply' w'. config_init sample_cfg_env no_opts [Set_auth_timeout 11700, Set_softfail 0] = COk (config, st, chain)
     \<and> sample_verify config ''1234000008'' = COk (reply', w') \<and> y_rc reply' \<noteq> OTP_RC_OK"
proof -
  let ?ds = "[Set_auth_timeout 11700, Set_softfail 0]"
  have "case config_init sample_cfg_env no_opts ?ds of COk (config, _) \<Rightarrow> c_file_encryptmode config = EMODE_CLEAR \<and> c_softfail config = 0 | _ \<Rightarrow> False"
    by code_simp
  then obtain config st chain where c: "config_init sample_cfg_env no_opts ?ds = COk (config, st, chain)"
    "c_file_encryptmode config = EMODE_CLEAR" "c_softfail config = 0"
    by (auto split: cres.splits)
  obtain reply' w' where run: "sample_verify config ''1234000008'' = COk (reply', w')" using sample_returns [OF c(2,3)] by blast
  have "c_timeout config < 0 \<and> y_rc reply' \<noteq> OTP_RC_OK"
    by (rule config_timeout_locks_out [OF c(1), of 11700, OF _ _ _ _ run [unfolded sample_verify_def]])
      (simp_all only: sample_request_get, auto simp: sample_clock_def)
  with c(1) run show ?thesis by blast
qed

end
